(* ===== verification/Prelude.thy ===== *)
theory Prelude
  imports Main "HOL-Library.Word" "HOL-Library.AList"
begin

text \<open>
  Shared vocabulary of the development: bytes and machine words, Go maps as
  association lists with distinct keys (executable, and read through
  \<^term>\<open>map_of\<close>), and the generic lemmas on lists and association lists
  that the components use.
\<close>

unbundle bit_operations_syntax

type_synonym byte = "8 word"
type_synonym u32 = "32 word"

text \<open>A Go call that does not block returns or panics.\<close>

datatype 'a go = Returns 'a | Panics

section \<open>Go maps\<close>

text \<open>
  A Go map is an association list with distinct keys: \<^term>\<open>AList.update\<close> stores,
  \<^term>\<open>AList.delete\<close> is the builtin \<open>delete\<close>, \<^term>\<open>map_of\<close> looks up, and
  \<^term>\<open>length\<close> is the builtin \<open>len\<close>. The order of the list stands for the
  iteration order, which Go leaves open; statements about iteration are up to
  that order.
\<close>

type_synonym ('k, 'v) gomap = "('k \<times> 'v) list"

definition map_ok :: "('k, 'v) gomap \<Rightarrow> bool" where
  "map_ok m \<longleftrightarrow> distinct (map fst m)"

lemma map_ok_Nil [simp]: "map_ok []"
  by (simp add: map_ok_def)

lemma map_ok_update [simp]: "map_ok m \<Longrightarrow> map_ok (AList.update k v m)"
  by (simp add: map_ok_def distinct_update)

lemma map_ok_delete [simp]: "map_ok m \<Longrightarrow> map_ok (AList.delete k m)"
  by (simp add: map_ok_def distinct_delete)

lemma map_of_update [simp]: "map_of (AList.update k v m) = (map_of m)(k \<mapsto> v)"
  by (rule update_conv')

lemma map_of_delete [simp]: "map_of (AList.delete k m) = (map_of m)(k := None)"
  by (rule delete_conv')

section \<open>Counting the entries of a map\<close>

definition count_vals :: "('v \<Rightarrow> bool) \<Rightarrow> ('k, 'v) gomap \<Rightarrow> nat" where
  "count_vals P m = length (filter (P \<circ> snd) m)"

lemma count_vals_Nil [simp]: "count_vals P [] = 0"
  by (simp add: count_vals_def)

lemma count_vals_Cons [simp]:
  "count_vals P ((k, v) # m) = (if P v then Suc (count_vals P m) else count_vals P m)"
  by (simp add: count_vals_def)

lemma count_vals_delete:
  "map_ok m \<Longrightarrow> map_of m k = Some v \<Longrightarrow>
     count_vals P m = (if P v then Suc (count_vals P (AList.delete k m))
                       else count_vals P (AList.delete k m))"
proof (induction m)
  case Nil
  then show ?case by simp
next
  case (Cons kv m)
  obtain k' v' where kv: "kv = (k', v')" by (cases kv)
  from Cons.prems show ?case
    by (auto simp: kv map_ok_def map_of_eq_None_iff delete_idem Cons.IH[unfolded map_ok_def] split: if_splits)
qed

lemma count_vals_update_new:
  "map_of m k = None \<Longrightarrow>
     count_vals P (AList.update k v m) = count_vals P m + (if P v then 1 else 0)"
  by (induction m) (auto split: if_splits)

lemma count_vals_update_old:
  "map_ok m \<Longrightarrow> map_of m k = Some u \<Longrightarrow>
     count_vals P (AList.update k v m) + (if P u then 1 else 0)
       = count_vals P m + (if P v then 1 else 0)"
  by (induction m) (auto simp: map_ok_def split: if_splits)

lemma count_vals_pos_iff: "0 < count_vals P m \<longleftrightarrow> (\<exists>(k, v) \<in> set m. P v)"
  by (induction m) auto

end
