(* ===== verification/Json.thy ===== *)
theory Json
  imports Prelude
begin

text \<open>
  JSON as tallyd uses it through \<^verbatim>\<open>encoding/json\<close>: the texts \<^verbatim>\<open>json.Marshal\<close> writes
  into WAL payloads and DLQ lines, and the reader \<^verbatim>\<open>json.Unmarshal\<close> applies to
  them again. Strings are UTF-8 byte sequences. An object keeps its members in
  the order they are written: struct fields in declaration order, the entries
  of a Go map in key order. A number is kept as the literal the writer prints
  (a finite float64 has exactly one shortest literal), so a value is printable
  when its literals satisfy the JSON grammar; \<^verbatim>\<open>NaN\<close> and the infinities do not.
  The reader refuses the surrogate escapes the writer never produces.
\<close>

datatype json =
    JNull
  | JBool bool
  | JNum string
  | JStr string
  | JArr "json list"
  | JObj "(string \<times> json) list"

section \<open>Writing\<close>

definition hex_digit :: "nat \<Rightarrow> char" where
  "hex_digit n = (if n < 10 then char_of (48 + n) else char_of (87 + n))"

text \<open>The escapes of \<^verbatim>\<open>json.Marshal\<close>, with its HTML-safe mode on.\<close>

definition esc_char :: "char \<Rightarrow> string" where
  "esc_char c =
     (if c = CHR 0x22 \<or> c = CHR 0x5C then [CHR 0x5C, c]
      else if c = CHR 0x08 then [CHR 0x5C, CHR ''b'']
      else if c = CHR 0x0C then [CHR 0x5C, CHR ''f'']
      else if c = CHR 0x0A then [CHR 0x5C, CHR ''n'']
      else if c = CHR 0x0D then [CHR 0x5C, CHR ''r'']
      else if c = CHR 0x09 then [CHR 0x5C, CHR ''t'']
      else if of_char c < (32 :: nat) \<or> c = CHR ''<'' \<or> c = CHR ''>'' \<or> c = CHR ''&''
        then [CHR 0x5C, CHR ''u'', CHR ''0'', CHR ''0'',
              hex_digit (of_char c div 16), hex_digit (of_char c mod 16)]
      else [c])"

fun esc_string :: "string \<Rightarrow> string" where
  "esc_string [] = []"
| "esc_string (c # cs) =
     (if c = CHR 0xE2 \<and> take 2 cs = [CHR 0x80, CHR 0xA8]
        then CHR 0x5C # ''u2028'' @ esc_string (drop 2 cs)
      else if c = CHR 0xE2 \<and> take 2 cs = [CHR 0x80, CHR 0xA9]
        then CHR 0x5C # ''u2029'' @ esc_string (drop 2 cs)
      else esc_char c @ esc_string cs)"

definition str_text :: "string \<Rightarrow> string" where
  "str_text s = CHR 0x22 # esc_string s @ [CHR 0x22]"

fun json_text :: "json \<Rightarrow> string"
  and elems_text :: "json list \<Rightarrow> string"
  and members_text :: "(string \<times> json) list \<Rightarrow> string" where
  "json_text JNull = ''null''"
| "json_text (JBool b) = (if b then ''true'' else ''false'')"
| "json_text (JNum l) = l"
| "json_text (JStr s) = str_text s"
| "json_text (JArr []) = ''[]''"
| "json_text (JArr (x # xs)) = CHR ''['' # json_text x @ elems_text xs"
| "json_text (JObj []) = ''{}''"
| "json_text (JObj ((k, v) # ms)) =
     CHR ''{'' # str_text k @ CHR '':'' # json_text v @ members_text ms"
| "elems_text [] = '']''"
| "elems_text (x # xs) = CHR '','' # json_text x @ elems_text xs"
| "members_text [] = ''}''"
| "members_text ((k, v) # ms) =
     CHR '','' # str_text k @ CHR '':'' # json_text v @ members_text ms"

section \<open>Numbers\<close>

definition is_digit :: "char \<Rightarrow> bool" where
  "is_digit c \<longleftrightarrow> 48 \<le> (of_char c :: nat) \<and> (of_char c :: nat) \<le> 57"

definition num_char :: "char \<Rightarrow> bool" where
  "num_char c \<longleftrightarrow> is_digit c \<or> c \<in> set ''+-.eE''"

definition exp_ok :: "string \<Rightarrow> bool" where
  "exp_ok s = (case s of [] \<Rightarrow> True
     | e # r \<Rightarrow> (e = CHR ''e'' \<or> e = CHR ''E'') \<and>
         (let r' = (case r of d # r'' \<Rightarrow> if d = CHR ''+'' \<or> d = CHR ''-'' then r'' else r
                    | [] \<Rightarrow> [])
          in r' \<noteq> [] \<and> list_all is_digit r'))"

definition frac_ok :: "string \<Rightarrow> bool" where
  "frac_ok s = (case s of [] \<Rightarrow> True
     | c # r \<Rightarrow> if c = CHR ''.''
         then takeWhile is_digit r \<noteq> [] \<and> exp_ok (dropWhile is_digit r)
         else exp_ok s)"

text \<open>The JSON number grammar, with all characters drawn from \<^term>\<open>num_char\<close>.\<close>

definition valid_number :: "string \<Rightarrow> bool" where
  "valid_number s =
     (let u = (case s of c # r \<Rightarrow> if c = CHR ''-'' then r else s | [] \<Rightarrow> []);
          ip = takeWhile is_digit u
      in list_all num_char s \<and> ip \<noteq> [] \<and> (hd ip = CHR ''0'' \<longrightarrow> length ip = 1)
         \<and> frac_ok (dropWhile is_digit u))"

text \<open>What \<^verbatim>\<open>json.Marshal\<close> can write: every number in the value is finite.\<close>

fun printable :: "json \<Rightarrow> bool"
  and printable_members :: "(string \<times> json) list \<Rightarrow> bool"
  and printable_elems :: "json list \<Rightarrow> bool" where
  "printable (JNum l) = valid_number l"
| "printable (JArr xs) = printable_elems xs"
| "printable (JObj ms) = printable_members ms"
| "printable JNull = True"
| "printable (JBool b) = True"
| "printable (JStr s) = True"
| "printable_members [] = True"
| "printable_members ((k, v) # ms) = (printable v \<and> printable_members ms)"
| "printable_elems [] = True"
| "printable_elems (x # xs) = (printable x \<and> printable_elems xs)"

section \<open>Reading\<close>

definition is_ws :: "char \<Rightarrow> bool" where
  "is_ws c \<longleftrightarrow> c = CHR 0x20 \<or> c = CHR 0x09 \<or> c = CHR 0x0A \<or> c = CHR 0x0D"

definition skip_ws :: "string \<Rightarrow> string" where
  "skip_ws s = dropWhile is_ws s"

definition hex_val :: "char \<Rightarrow> nat option" where
  "hex_val c =
     (let n = of_char c in
      if 48 \<le> n \<and> n \<le> 57 then Some (n - 48)
      else if 97 \<le> n \<and> n \<le> 102 then Some (n - 87)
      else if 65 \<le> n \<and> n \<le> 70 then Some (n - 55)
      else None)"

definition hex4 :: "string \<Rightarrow> nat option" where
  "hex4 s = (case s of
     a # b # c # d # _ \<Rightarrow>
       (case (hex_val a, hex_val b, hex_val c, hex_val d) of
          (Some w, Some x, Some y, Some z) \<Rightarrow> Some (((w * 16 + x) * 16 + y) * 16 + z)
        | _ \<Rightarrow> None)
   | _ \<Rightarrow> None)"

text \<open>UTF-8 of a code point of the basic plane; surrogates are refused.\<close>

definition utf8 :: "nat \<Rightarrow> string option" where
  "utf8 n =
     (if n < 0x80 then Some [char_of n]
      else if n < 0x800 then Some [char_of (0xC0 + n div 64), char_of (0x80 + n mod 64)]
      else if 0xD800 \<le> n \<and> n < 0xE000 then None
      else Some [char_of (0xE0 + n div 4096), char_of (0x80 + n div 64 mod 64),
                 char_of (0x80 + n mod 64)])"

definition unesc :: "char \<Rightarrow> char option" where
  "unesc c =
     (if c = CHR 0x22 \<or> c = CHR 0x5C \<or> c = CHR ''/'' then Some c
      else if c = CHR ''b'' then Some (CHR 0x08)
      else if c = CHR ''f'' then Some (CHR 0x0C)
      else if c = CHR ''n'' then Some (CHR 0x0A)
      else if c = CHR ''r'' then Some (CHR 0x0D)
      else if c = CHR ''t'' then Some (CHR 0x09)
      else None)"

definition prepend :: "string \<Rightarrow> (string \<times> string) option \<Rightarrow> (string \<times> string) option" where
  "prepend p r = map_option (\<lambda>(s, rest). (p @ s, rest)) r"

text \<open>The rest of a string literal, after its opening quote.\<close>

fun parse_str :: "string \<Rightarrow> (string \<times> string) option" where
  "parse_str [] = None"
| "parse_str (c # cs) =
     (if c = CHR 0x22 then Some ([], cs)
      else if c = CHR 0x5C then
        (case cs of [] \<Rightarrow> None
         | e # r \<Rightarrow>
             if e = CHR ''u'' then
               (case Option.bind (hex4 r) utf8 of None \<Rightarrow> None
                | Some u \<Rightarrow> prepend u (parse_str (drop 4 r)))
             else (case unesc e of None \<Rightarrow> None | Some d \<Rightarrow> prepend [d] (parse_str r)))
      else if (of_char c :: nat) < 32 then None
      else prepend [c] (parse_str cs))"

text \<open>The member key and its colon, after the opening quote.\<close>

definition parse_key :: "string \<Rightarrow> (string \<times> string) option" where
  "parse_key s = (case skip_ws s of
     q # r \<Rightarrow> if q = CHR 0x22 then
         (case parse_str r of None \<Rightarrow> None
          | Some (k, r') \<Rightarrow> (case skip_ws r' of
               c # r'' \<Rightarrow> if c = CHR '':'' then Some (k, r'') else None
             | [] \<Rightarrow> None))
       else None
   | [] \<Rightarrow> None)"

definition parse_num :: "string \<Rightarrow> (json \<times> string) option" where
  "parse_num s =
     (let l = takeWhile num_char s
      in if valid_number l then Some (JNum l, dropWhile num_char s) else None)"

definition parse_lit :: "string \<Rightarrow> json \<Rightarrow> string \<Rightarrow> (json \<times> string) option" where
  "parse_lit l v s = (if take (length l) s = l then Some (v, drop (length l) s) else None)"

text \<open>
  Values by recursive descent. The fuel is spent once per value, element or
  member; the length of the text is always enough (\<open>parse_json_text\<close>).
\<close>

fun parse_value :: "nat \<Rightarrow> string \<Rightarrow> (json \<times> string) option"
  and parse_elems :: "nat \<Rightarrow> string \<Rightarrow> (json list \<times> string) option"
  and parse_members :: "nat \<Rightarrow> string \<Rightarrow> ((string \<times> json) list \<times> string) option" where
  "parse_value 0 s = None"
| "parse_value (Suc n) s = (case skip_ws s of [] \<Rightarrow> None
     | c # cs \<Rightarrow>
         if c = CHR 0x22 then map_option (\<lambda>(t, r). (JStr t, r)) (parse_str cs)
         else if c = CHR ''['' then
           (if skip_ws cs \<noteq> [] \<and> hd (skip_ws cs) = CHR '']'' then Some (JArr [], tl (skip_ws cs))
            else case parse_value n cs of None \<Rightarrow> None
              | Some (v, r) \<Rightarrow> map_option (\<lambda>(vs, r'). (JArr (v # vs), r')) (parse_elems n r))
         else if c = CHR ''{'' then
           (if skip_ws cs \<noteq> [] \<and> hd (skip_ws cs) = CHR ''}'' then Some (JObj [], tl (skip_ws cs))
            else case parse_key cs of None \<Rightarrow> None
              | Some (k, r) \<Rightarrow> (case parse_value n r of None \<Rightarrow> None
                  | Some (v, r') \<Rightarrow>
                      map_option (\<lambda>(ms, r''). (JObj ((k, v) # ms), r'')) (parse_members n r')))
         else if c = CHR ''n'' then parse_lit ''null'' JNull (c # cs)
         else if c = CHR ''t'' then parse_lit ''true'' (JBool True) (c # cs)
         else if c = CHR ''f'' then parse_lit ''false'' (JBool False) (c # cs)
         else parse_num (c # cs))"
| "parse_elems 0 s = None"
| "parse_elems (Suc n) s = (case skip_ws s of [] \<Rightarrow> None
     | c # cs \<Rightarrow>
         if c = CHR '']'' then Some ([], cs)
         else if c = CHR '','' then
           (case parse_value n cs of None \<Rightarrow> None
            | Some (v, r) \<Rightarrow> map_option (\<lambda>(vs, r'). (v # vs, r')) (parse_elems n r))
         else None)"
| "parse_members 0 s = None"
| "parse_members (Suc n) s = (case skip_ws s of [] \<Rightarrow> None
     | c # cs \<Rightarrow>
         if c = CHR ''}'' then Some ([], cs)
         else if c = CHR '','' then
           (case parse_key cs of None \<Rightarrow> None
            | Some (k, r) \<Rightarrow> (case parse_value n r of None \<Rightarrow> None
                | Some (v, r') \<Rightarrow>
                    map_option (\<lambda>(ms, r''). ((k, v) # ms, r'')) (parse_members n r')))
         else None)"

text \<open>\<^verbatim>\<open>json.Unmarshal\<close>'s syntax pass: one value, then only white space.\<close>

definition json_parse :: "string \<Rightarrow> json option" where
  "json_parse s = (case parse_value (length s) s of
     Some (v, r) \<Rightarrow> if skip_ws r = [] then Some v else None
   | None \<Rightarrow> None)"

section \<open>Reading back what was written\<close>

lemma hex_val_digit [simp]: "n < 16 \<Longrightarrow> hex_val (hex_digit n) = Some n"
  by (auto simp: hex_val_def hex_digit_def Let_def)

lemma hex_val_0: "hex_val (CHR ''0'') = Some 0"
  by (simp add: hex_val_def)

lemma hex4_00 [simp]:
  "n < 256 \<Longrightarrow> hex4 (CHR ''0'' # CHR ''0'' # hex_digit (n div 16) # hex_digit (n mod 16) # s) = Some n"
  by (simp add: hex4_def hex_val_0)

lemma hex4_2028 [simp]: "hex4 (''2028'' @ s) = Some 0x2028" "hex4 (''2029'' @ s) = Some 0x2029"
  by (simp_all add: hex4_def hex_val_def)

lemma utf8_2028 [simp]:
  "utf8 0x2028 = Some [CHR 0xE2, CHR 0x80, CHR 0xA8]"
  "utf8 0x2029 = Some [CHR 0xE2, CHR 0x80, CHR 0xA9]"
  by (simp_all add: utf8_def char_of_eq_iff take_bit_eq_mod)

lemma nat_of_char_lt [simp]: "(of_char c :: nat) < 256"
  using nat_of_char_less_256 by simp

lemma parse_str_u:
  "parse_str (CHR 0x5C # CHR ''u'' # r) =
     (case Option.bind (hex4 r) utf8 of None \<Rightarrow> None | Some u \<Rightarrow> prepend u (parse_str (drop 4 r)))"
  by simp

lemma parse_str_esc:
  "e \<noteq> CHR ''u'' \<Longrightarrow> unesc e = Some d \<Longrightarrow>
     parse_str (CHR 0x5C # e # r) = prepend [d] (parse_str r)"
  by simp

lemma parse_str_plain:
  "c \<noteq> CHR 0x22 \<Longrightarrow> c \<noteq> CHR 0x5C \<Longrightarrow> \<not> (of_char c :: nat) < 32 \<Longrightarrow>
     parse_str (c # r) = prepend [c] (parse_str r)"
  by simp

declare parse_str.simps [simp del]

lemma parse_str_esc_char: "parse_str (esc_char c @ s) = prepend [c] (parse_str s)"
proof -
  consider "c = CHR 0x22" | "c = CHR 0x5C" | "c = CHR 0x08" | "c = CHR 0x0C" | "c = CHR 0x0A"
    | "c = CHR 0x0D" | "c = CHR 0x09"
    | "c \<noteq> CHR 0x22" "c \<noteq> CHR 0x5C" "c \<noteq> CHR 0x08" "c \<noteq> CHR 0x0C" "c \<noteq> CHR 0x0A"
      "c \<noteq> CHR 0x0D" "c \<noteq> CHR 0x09"
    by blast
  then show ?thesis
  proof cases
    case 8
    show ?thesis
    proof (cases "of_char c < (32 :: nat) \<or> c = CHR ''<'' \<or> c = CHR ''>'' \<or> c = CHR ''&''")
      case True
      have "(of_char c :: nat) < 128"
        using True by auto
      then have "utf8 (of_char c) = Some [c]"
        by (simp add: utf8_def)
      with 8 True show ?thesis
        by (simp add: esc_char_def parse_str_u del: mod_less)
    next
      case False
      with 8 show ?thesis
        by (simp add: esc_char_def parse_str_plain)
    qed
  qed (simp_all add: esc_char_def parse_str_esc unesc_def)
qed

lemma prepend_Some [simp]: "prepend p (Some (s, r)) = Some (p @ s, r)"
  by (simp add: prepend_def)

lemma take2_eq: "take 2 cs = [a, b] \<longleftrightarrow> cs = a # b # drop 2 cs"
  by (cases cs; cases "tl cs") auto

lemma parse_str_esc_string: "parse_str (esc_string t @ CHR 0x22 # s) = Some (t, s)"
proof (induction t rule: esc_string.induct)
  case 1
  show ?case by (simp add: parse_str.simps)
next
  case (2 c cs)
  consider (ls) "c = CHR 0xE2" "take 2 cs = [CHR 0x80, CHR 0xA8]"
    | (ps) "c = CHR 0xE2" "take 2 cs = [CHR 0x80, CHR 0xA9]"
    | (other) "\<not> (c = CHR 0xE2 \<and> take 2 cs = [CHR 0x80, CHR 0xA8])"
      "\<not> (c = CHR 0xE2 \<and> take 2 cs = [CHR 0x80, CHR 0xA9])"
    by blast
  then show ?case
  proof cases
    case ls
    then have "cs = CHR 0x80 # CHR 0xA8 # drop 2 cs" by (simp add: take2_eq)
    with ls "2.IH"(1) show ?thesis
      by (simp add: parse_str_u hex4_2028(1) [simplified])
  next
    case ps
    then have "cs = CHR 0x80 # CHR 0xA9 # drop 2 cs" by (simp add: take2_eq)
    with ps "2.IH"(2) show ?thesis
      by (simp add: parse_str_u hex4_2028(2) [simplified])
  next
    case other
    with "2.IH"(3) show ?thesis
      by (simp only: esc_string.simps if_False append_assoc parse_str_esc_char) simp
  qed
qed

lemma parse_key_text: "parse_key (str_text k @ CHR '':'' # s) = Some (k, s)"
  by (simp add: str_text_def parse_key_def parse_str_esc_string skip_ws_def is_ws_def)

subsection \<open>Values\<close>

text \<open>What may follow a value: nothing that would extend a number.\<close>

definition delimited :: "string \<Rightarrow> bool" where
  "delimited r \<longleftrightarrow> r = [] \<or> \<not> num_char (hd r)"

lemma delimited_simps [simp]:
  "delimited []" "delimited (CHR '','' # r)" "delimited (CHR '']'' # r)" "delimited (CHR ''}'' # r)"
  by (simp_all add: delimited_def num_char_def is_digit_def)

lemma delimited_tails [simp]: "delimited (elems_text xs @ r)" "delimited (members_text ms @ r)"
  by (cases xs; simp) (cases ms; auto)

lemma valid_number_hd:
  assumes "valid_number l"
  obtains c cs where "l = c # cs" "is_digit c \<or> c = CHR ''-''"
proof (cases l)
  case Nil
  with assms show ?thesis by (simp add: valid_number_def)
next
  case (Cons c cs)
  moreover have "is_digit c \<or> c = CHR ''-''"
    using assms Cons by (auto simp: valid_number_def Let_def split: if_splits)
  ultimately show ?thesis by (rule that)
qed

lemma parse_num_text:
  assumes "valid_number l" "delimited r"
  shows "parse_num (l @ r) = Some (JNum l, r)"
proof -
  have "list_all num_char l"
    using assms(1) by (simp add: valid_number_def Let_def)
  then have "takeWhile num_char (l @ r) = l" "dropWhile num_char (l @ r) = r"
    using assms(2) by (auto simp: delimited_def list_all_iff takeWhile_append2 dropWhile_append2)
      (cases r; auto)+
  with assms(1) show ?thesis by (simp add: parse_num_def)
qed

lemma is_digit_first:
  "is_digit c \<or> c = CHR ''-'' \<Longrightarrow>
     \<not> is_ws c \<and> c \<notin> {CHR '']'', CHR ''}'', CHR 0x22, CHR ''['', CHR ''{'', CHR ''n'', CHR ''t'', CHR ''f''}"
  by (auto simp: is_digit_def is_ws_def)

lemma json_text_start:
  assumes "printable j"
  obtains c cs where "json_text j = c # cs" "\<not> is_ws c" "c \<noteq> CHR '']''" "c \<noteq> CHR ''}''"
proof (cases j)
  case (JNum l)
  with assms obtain c cs where "l = c # cs" "is_digit c \<or> c = CHR ''-''"
    by (auto elim: valid_number_hd)
  with JNum that [of c cs] is_digit_first [of c] show ?thesis
    by simp
next
  case (JBool b)
  with that show ?thesis by (cases b) (auto simp: is_ws_def)
next
  case (JArr xs)
  with that show ?thesis by (cases xs) (auto simp: is_ws_def)
next
  case (JObj ms)
  with that show ?thesis by (cases ms) (auto simp: is_ws_def)
qed (use that in \<open>auto simp: is_ws_def str_text_def split: if_splits\<close>)


lemma skip_ws_start [simp]: "\<not> is_ws c \<Longrightarrow> skip_ws (c # s) = c # s"
  by (simp add: skip_ws_def)

lemma skip_ws_punct [simp]:
  "skip_ws (CHR 0x22 # s) = CHR 0x22 # s" "skip_ws (CHR '','' # s) = CHR '','' # s"
  "skip_ws (CHR ''['' # s) = CHR ''['' # s" "skip_ws (CHR '']'' # s) = CHR '']'' # s"
  "skip_ws (CHR ''{'' # s) = CHR ''{'' # s" "skip_ws (CHR ''}'' # s) = CHR ''}'' # s"
  by (simp_all add: is_ws_def)

lemma parse_key_members [simp]: "parse_key (str_text k @ CHR '':'' # s) = Some (k, s)"
  by (rule parse_key_text)

lemma str_text_start:
  "skip_ws (str_text k @ s) = str_text k @ s" "hd (str_text k @ s) \<noteq> CHR ''}''"
  "str_text k @ s \<noteq> []"
  by (simp_all add: str_text_def)

lemma value_start:
  assumes "printable j"
  shows "skip_ws (json_text j @ s) = json_text j @ s" "hd (json_text j @ s) \<noteq> CHR '']''"
  using assms by (auto elim!: json_text_start)

lemma json_text_nonempty: "printable j \<Longrightarrow> 0 < length (json_text j)"
  by (auto elim: json_text_start)

lemma parse_value_num:
  assumes "valid_number l" "delimited r"
  shows "parse_value (Suc n) (l @ r) = Some (JNum l, r)"
proof -
  from assms(1) obtain c cs where l: "l = c # cs" and c: "is_digit c \<or> c = CHR ''-''"
    by (rule valid_number_hd)
  have "parse_num (c # cs @ r) = Some (JNum l, r)"
    using parse_num_text [OF assms] l by simp
  with l is_digit_first [OF c] show ?thesis by simp
qed

text \<open>
  One mutual induction over the writer: with fuel for its length, each text is
  read back as the value it was written from, whatever follows it.
\<close>

lemma parse_texts:
  "printable j \<Longrightarrow> length (json_text j) \<le> n \<Longrightarrow> delimited r \<Longrightarrow>
     parse_value n (json_text j @ r) = Some (j, r)"
  "printable_elems xs \<Longrightarrow> length (elems_text xs) \<le> n \<Longrightarrow>
     parse_elems n (elems_text xs @ r) = Some (xs, r)"
  "printable_members ms \<Longrightarrow> length (members_text ms) \<le> n \<Longrightarrow>
     parse_members n (members_text ms @ r) = Some (ms, r)"
proof (induction j and xs and ms arbitrary: n r and n r and n r
    rule: json_text_elems_text_members_text.induct)
  case (1 n r)
  then show ?case by (cases n) (simp_all add: parse_lit_def is_ws_def)
next
  case (2 b n r)
  then show ?case by (cases b; cases n) (simp_all add: parse_lit_def is_ws_def)
next
  case (3 l n r)
  then obtain m where "n = Suc m"
    using json_text_nonempty [of "JNum l"] by (cases n) auto
  with 3 show ?case by (simp add: parse_value_num del: parse_value.simps)
next
  case (4 t n r)
  then show ?case
    by (cases n) (simp_all add: str_text_def parse_str_esc_string)
next
  case (5 n r)
  then show ?case by (cases n) (simp_all add: is_ws_def)
next
  case (6 x xs n r)
  then show ?case
    by (cases n) (simp_all add: value_start)
next
  case (7 n r)
  then show ?case by (cases n) (simp_all add: is_ws_def)
next
  case (8 k v ms n r)
  then show ?case
    by (cases n) (simp_all add: str_text_start)
next
  case (9 n r)
  then show ?case by (cases n) simp_all
next
  case (10 x xs n r)
  then show ?case by (cases n) simp_all
next
  case (11 n r)
  then show ?case by (cases n) simp_all
next
  case (12 k v ms n r)
  then show ?case by (cases n) simp_all
qed

lemma json_parse_text: "printable j \<Longrightarrow> json_parse (json_text j) = Some j"
  using parse_texts(1) [of j "length (json_text j)" "[]"]
  by (simp add: json_parse_def skip_ws_def)

section \<open>The written text has no control characters\<close>

text \<open>Hence no newline: a JSON value is one line of a JSON-lines file.\<close>

definition no_ctrl :: "string \<Rightarrow> bool" where
  "no_ctrl s \<longleftrightarrow> list_all (\<lambda>c. 32 \<le> (of_char c :: nat)) s"

lemma no_ctrl_simps [simp]:
  "no_ctrl []" "no_ctrl (c # s) \<longleftrightarrow> 32 \<le> (of_char c :: nat) \<and> no_ctrl s"
  "no_ctrl (s @ t) \<longleftrightarrow> no_ctrl s \<and> no_ctrl t"
  by (simp_all add: no_ctrl_def)

lemma hex_digit_no_ctrl [simp]: "n < 16 \<Longrightarrow> 32 \<le> (of_char (hex_digit n) :: nat)"
  by (simp add: hex_digit_def)

lemma esc_char_no_ctrl [simp]: "no_ctrl (esc_char c)"
  by (simp add: esc_char_def not_less)

lemma esc_string_no_ctrl [simp]: "no_ctrl (esc_string s)"
  by (induction s rule: esc_string.induct) simp_all

lemma str_text_no_ctrl [simp]: "no_ctrl (str_text s)"
  by (simp add: str_text_def)

lemma num_char_no_ctrl: "num_char c \<Longrightarrow> 32 \<le> (of_char c :: nat)"
  by (auto simp: num_char_def is_digit_def)

lemma valid_number_no_ctrl: "valid_number l \<Longrightarrow> no_ctrl l"
  by (auto simp: valid_number_def Let_def no_ctrl_def list_all_iff num_char_no_ctrl)

lemma texts_no_ctrl:
  "printable j \<Longrightarrow> no_ctrl (json_text j)"
  "printable_elems xs \<Longrightarrow> no_ctrl (elems_text xs)"
  "printable_members ms \<Longrightarrow> no_ctrl (members_text ms)"
  by (induction j and xs and ms rule: json_text_elems_text_members_text.induct)
    (simp_all add: valid_number_no_ctrl)

lemma no_ctrl_no_newline: "no_ctrl s \<Longrightarrow> CHR 0x0A \<notin> set s"
  by (auto simp: no_ctrl_def list_all_iff)

end
