(* ===== verification/GoTime.thy ===== *)
theory GoTime
  imports Json "HOL-Library.Monad_Syntax"
begin

text \<open>
  \<^verbatim>\<open>time.Time\<close> as tallyd uses it: an instant in nanoseconds since Go's zero time
  (1 January of year 1, 00:00 UTC) with the zone offset it prints in, and the
  RFC 3339 texts that \<^verbatim>\<open>MarshalJSON\<close>, \<^verbatim>\<open>UnmarshalJSON\<close> and
  \<^verbatim>\<open>Format(time.RFC3339)\<close> use. Durations are nanosecond counts.
\<close>

section \<open>Instants and durations\<close>

record gotime =
  instant :: int \<comment> \<open>nanoseconds since the zero time\<close>
  zone :: int \<comment> \<open>minutes east of UTC\<close>

type_synonym duration = int

abbreviation second :: duration where "second \<equiv> 1000000000"
abbreviation minute :: duration where "minute \<equiv> 60 * second"
abbreviation hour :: duration where "hour \<equiv> 60 * minute"

definition zero_time :: gotime where
  "zero_time = \<lparr>instant = 0, zone = 0\<rparr>"

definition IsZero :: "gotime \<Rightarrow> bool" where
  "IsZero t \<longleftrightarrow> instant t = 0"

definition After :: "gotime \<Rightarrow> gotime \<Rightarrow> bool" where
  "After t u \<longleftrightarrow> instant t > instant u"

definition time_Add :: "gotime \<Rightarrow> duration \<Rightarrow> gotime" where
  "time_Add t d = t\<lparr>instant := instant t + d\<rparr>"

definition time_UTC :: "gotime \<Rightarrow> gotime" where
  "time_UTC t = t\<lparr>zone := 0\<rparr>"

section \<open>The calendar\<close>

definition leap :: "nat \<Rightarrow> bool" where
  "leap y \<longleftrightarrow> y mod 4 = 0 \<and> (y mod 100 \<noteq> 0 \<or> y mod 400 = 0)"

definition yearlen :: "nat \<Rightarrow> nat" where
  "yearlen y = (if leap y then 366 else 365)"

definition monthlens :: "nat \<Rightarrow> nat list" where
  "monthlens y = [31, if leap y then 29 else 28, 31, 30, 31, 30, 31, 31, 30, 31, 30, 31]"

lemma yearlen_pos [simp]: "0 < yearlen y"
  by (simp add: yearlen_def)

lemma sum_monthlens: "sum_list (monthlens y) = yearlen y"
  by (simp add: monthlens_def yearlen_def)

text \<open>Year and day of the year, of a day number counted from 1 January of year \<^term>\<open>y\<close>.\<close>

function split_year :: "nat \<Rightarrow> nat \<Rightarrow> nat \<times> nat" where
  "split_year y d = (if d < yearlen y then (y, d) else split_year (Suc y) (d - yearlen y))"
  by pat_completeness auto
termination
  by (relation "measure snd") (auto simp: not_less dest: le_trans [OF Suc_leI [OF yearlen_pos]])

declare split_year.simps [simp del]

fun split_month :: "nat list \<Rightarrow> nat \<Rightarrow> nat \<times> nat" where
  "split_month [] d = (0, d)"
| "split_month (m # ms) d =
     (if d < m then (0, d) else (case split_month ms (d - m) of (i, r) \<Rightarrow> (Suc i, r)))"

definition days_before_year :: "nat \<Rightarrow> nat" where
  "days_before_year y = sum_list (map yearlen [0..<y])"

lemma days_before_Suc: "days_before_year (Suc y) = days_before_year y + yearlen y"
  by (simp add: days_before_year_def)

lemma split_year_sum:
  "split_year y d = (y', d') \<Longrightarrow>
     days_before_year y' + d' = days_before_year y + d \<and> d' < yearlen y'"
proof (induction y d rule: split_year.induct)
  case (1 y d)
  show ?case
  proof (cases "d < yearlen y")
    case True
    with "1.prems" show ?thesis by (simp add: split_year.simps [of y d])
  next
    case False
    with 1 show ?thesis
      by (simp add: split_year.simps [of y d] days_before_Suc)
  qed
qed

lemma split_month_sum:
  "split_month ms d = (i, r) \<Longrightarrow> d < sum_list ms \<Longrightarrow>
     i < length ms \<and> r < ms ! i \<and> sum_list (take i ms) + r = d"
proof (induction ms arbitrary: d i r)
  case Nil
  then show ?case by simp
next
  case (Cons m ms)
  show ?case
  proof (cases "d < m")
    case True
    with Cons.prems show ?thesis by auto
  next
    case False
    then obtain j where j: "split_month ms (d - m) = (j, r)" "i = Suc j"
      using Cons.prems(1) by (auto split: prod.splits)
    from False Cons.prems(2) have "d - m < sum_list ms" by auto
    with Cons.IH [OF j(1)] j(2) False show ?thesis by auto
  qed
qed

section \<open>Digits\<close>

definition digit_char :: "nat \<Rightarrow> char" where
  "digit_char d = char_of (48 + d)"

fun pad :: "nat \<Rightarrow> nat \<Rightarrow> string" where
  "pad 0 n = []"
| "pad (Suc w) n = pad w (n div 10) @ [digit_char (n mod 10)]"

definition digits_val :: "string \<Rightarrow> nat" where
  "digits_val s = foldl (\<lambda>a c. 10 * a + (of_char c - 48)) 0 s"

lemma digits_val_snoc [simp]: "digits_val (s @ [c]) = 10 * digits_val s + (of_char c - 48)"
  by (simp add: digits_val_def)

lemma digits_val_Nil [simp]: "digits_val [] = 0"
  by (simp add: digits_val_def)

lemma digit_char_val [simp]: "d < 10 \<Longrightarrow> of_char (digit_char d) = 48 + d"
  by (simp add: digit_char_def)

lemma is_digit_digit_char [simp]: "d < 10 \<Longrightarrow> is_digit (digit_char d)"
  by (simp add: is_digit_def)

lemma length_pad [simp]: "length (pad w n) = w"
  by (induction w arbitrary: n) simp_all

lemma pad_digits [simp]: "list_all is_digit (pad w n)"
  by (induction w arbitrary: n) simp_all

lemma digits_val_pad [simp]: "n < 10 ^ w \<Longrightarrow> digits_val (pad w n) = n"
  by (induction w arbitrary: n) (simp_all add: less_mult_imp_div_less)

definition read_fixed :: "nat \<Rightarrow> string \<Rightarrow> (nat \<times> string) option" where
  "read_fixed w s =
     (if length (take w s) = w \<and> list_all is_digit (take w s)
      then Some (digits_val (take w s), drop w s) else None)"

lemma read_fixed_pad [simp]: "n < 10 ^ w \<Longrightarrow> read_fixed w (pad w n @ s) = Some (n, s)"
  by (simp add: read_fixed_def)

definition expect :: "char \<Rightarrow> string \<Rightarrow> string option" where
  "expect c s = (case s of d # r \<Rightarrow> if d = c then Some r else None | [] \<Rightarrow> None)"

lemma expect_same [simp]: "expect c (c # s) = Some s"
  by (simp add: expect_def)


section \<open>RFC 3339 texts\<close>

text \<open>
  The civil fields of an instant in its zone: days are counted from 1 January
  of year 0, so the year is negative when the day number is.
\<close>

definition local_ns :: "gotime \<Rightarrow> int" where
  "local_ns t = instant t + zone t * minute"

definition local_day :: "gotime \<Rightarrow> int" where
  "local_day t = local_ns t div (24 * hour) + 366"

definition time_of_day :: "gotime \<Rightarrow> nat" where
  "time_of_day t = nat (local_ns t mod (24 * hour))"

definition civil_text :: "gotime \<Rightarrow> string" where
  "civil_text t =
     (case split_year 0 (nat (local_day t)) of (y, d) \<Rightarrow>
      case split_month (monthlens y) d of (m, r) \<Rightarrow>
      let s = time_of_day t div 1000000000
      in pad 4 y @ CHR ''-'' # pad 2 (Suc m) @ CHR ''-'' # pad 2 (Suc r) @ CHR ''T'' #
         pad 2 (s div 3600) @ CHR '':'' # pad 2 (s div 60 mod 60) @ CHR '':'' # pad 2 (s mod 60))"

text \<open>The fraction of \<^verbatim>\<open>RFC3339Nano\<close>: trailing zeros dropped, absent when zero.\<close>

definition rstrip0 :: "string \<Rightarrow> string" where
  "rstrip0 s = rev (dropWhile (\<lambda>c. c = CHR ''0'') (rev s))"

definition frac_text :: "nat \<Rightarrow> string" where
  "frac_text f = (if f = 0 then [] else CHR ''.'' # rstrip0 (pad 9 f))"

definition zone_text :: "int \<Rightarrow> string" where
  "zone_text z =
     (if z = 0 then ''Z''
      else (if z < 0 then CHR ''-'' else CHR ''+'') #
           pad 2 (nat \<bar>z\<bar> div 60) @ CHR '':'' # pad 2 (nat \<bar>z\<bar> mod 60))"

text \<open>\<^verbatim>\<open>MarshalJSON\<close> refuses years outside 0 to 9999 and zone hours above 23.\<close>

definition marshal_time_ok :: "gotime \<Rightarrow> bool" where
  "marshal_time_ok t \<longleftrightarrow>
     0 \<le> local_day t \<and> fst (split_year 0 (nat (local_day t))) \<le> 9999 \<and> \<bar>zone t\<bar> < 24 * 60"

definition rfc3339nano :: "gotime \<Rightarrow> string" where
  "rfc3339nano t = civil_text t @ frac_text (time_of_day t mod 1000000000) @ zone_text (zone t)"

definition rfc3339 :: "gotime \<Rightarrow> string" where
  "rfc3339 t = civil_text t @ zone_text (zone t)"

definition read_frac :: "string \<Rightarrow> (nat \<times> string) option" where
  "read_frac s = (case s of
     c # r \<Rightarrow> if c = CHR ''.'' then
         (let ds = takeWhile is_digit r in
          if ds = [] then None
          else Some (digits_val (take 9 (ds @ replicate 9 (CHR ''0''))), dropWhile is_digit r))
       else Some (0, s)
   | [] \<Rightarrow> Some (0, s))"

definition read_zone :: "string \<Rightarrow> (int \<times> string) option" where
  "read_zone s = (case s of
     c # r \<Rightarrow>
       if c = CHR ''Z'' then Some (0, r)
       else if c = CHR ''+'' \<or> c = CHR ''-'' then
         do {
           (h, r1) \<leftarrow> read_fixed 2 r;
           r2 \<leftarrow> expect (CHR '':'') r1;
           (m, r3) \<leftarrow> read_fixed 2 r2;
           if h < 24 \<and> m < 60
           then Some ((if c = CHR ''-'' then -1 else 1) * int (h * 60 + m), r3) else None
         }
       else None
   | [] \<Rightarrow> None)"

definition parse_time :: "string \<Rightarrow> gotime option" where
  "parse_time s0 = do {
     (y, s1) \<leftarrow> read_fixed 4 s0;
     s2 \<leftarrow> expect (CHR ''-'') s1;
     (m, s3) \<leftarrow> read_fixed 2 s2;
     s4 \<leftarrow> expect (CHR ''-'') s3;
     (d, s5) \<leftarrow> read_fixed 2 s4;
     s6 \<leftarrow> expect (CHR ''T'') s5;
     (hh, s7) \<leftarrow> read_fixed 2 s6;
     s8 \<leftarrow> expect (CHR '':'') s7;
     (mi, s9) \<leftarrow> read_fixed 2 s8;
     s10 \<leftarrow> expect (CHR '':'') s9;
     (ss, s11) \<leftarrow> read_fixed 2 s10;
     (f, s12) \<leftarrow> read_frac s11;
     (z, s13) \<leftarrow> read_zone s12;
     if s13 = [] \<and> 1 \<le> m \<and> m \<le> 12 \<and> 1 \<le> d \<and> d \<le> monthlens y ! (m - 1)
        \<and> hh < 24 \<and> mi < 60 \<and> ss < 60
     then Some \<lparr>instant =
            (int (days_before_year y + sum_list (take (m - 1) (monthlens y)) + (d - 1)) - 366)
              * (24 * hour)
            + int (hh * 3600 + mi * 60 + ss) * second + int f - z * minute,
          zone = z\<rparr>
     else None
   }"

subsection \<open>Reading a time back\<close>

lemma digits_val_foldl:
  "foldl (\<lambda>a c. 10 * a + (of_char c - 48)) (x :: nat) s
     = x * 10 ^ length s + foldl (\<lambda>a c. 10 * a + (of_char c - 48)) 0 s"
proof (induction s rule: rev_induct)
  case (snoc c s)
  then show ?case by (simp add: algebra_simps)
qed simp

lemma digits_val_append: "digits_val (s @ u) = digits_val s * 10 ^ length u + digits_val u"
  unfolding digits_val_def by (subst foldl_append, subst digits_val_foldl) simp

lemma replicate0_val [simp]: "digits_val (replicate k (CHR ''0'')) = 0"
proof (induction k)
  case (Suc k)
  have "replicate (Suc k) (CHR ''0'') = [CHR ''0''] @ replicate k (CHR ''0'')" by simp
  with Suc show ?case by (simp only: digits_val_append) (simp add: digits_val_def)
qed simp

lemma rstrip0_split: "\<exists>k. s = rstrip0 s @ replicate k (CHR ''0'')"
proof -
  let ?z = "takeWhile (\<lambda>c. c = CHR ''0'') (rev s)"
  have "?z = replicate (length ?z) (CHR ''0'')"
    by (rule replicate_length_same [symmetric]) (auto dest: set_takeWhileD)
  moreover have "s = rstrip0 s @ rev ?z"
    unfolding rstrip0_def by (metis rev_append rev_rev_ident takeWhile_dropWhile_id)
  ultimately show ?thesis by (metis rev_replicate)
qed

lemma frac_digits:
  assumes "0 < f" "f < 1000000000"
  shows "rstrip0 (pad 9 f) \<noteq> []"
    and "list_all is_digit (rstrip0 (pad 9 f))"
    and "digits_val (take 9 (rstrip0 (pad 9 f) @ replicate 9 (CHR ''0''))) = f"
proof -
  obtain k where k: "pad 9 f = rstrip0 (pad 9 f) @ replicate k (CHR ''0'')"
    using rstrip0_split by blast
  have v: "digits_val (pad 9 f) = f"
    using assms(2) by simp
  show "rstrip0 (pad 9 f) \<noteq> []"
  proof
    assume "rstrip0 (pad 9 f) = []"
    with k have "pad 9 f = replicate k (CHR ''0'')" by simp
    with v assms(1) show False by simp
  qed
  show "list_all is_digit (rstrip0 (pad 9 f))"
    using k pad_digits by (metis list_all_append)
  have len: "length (rstrip0 (pad 9 f)) + k = 9"
    using arg_cong [OF k, of length] by simp
  then have "take 9 (rstrip0 (pad 9 f) @ replicate 9 (CHR ''0'')) = pad 9 f"
    by (subst (2) k) (simp add: min_def)
  with v show "digits_val (take 9 (rstrip0 (pad 9 f) @ replicate 9 (CHR ''0''))) = f"
    by simp
qed

lemma zone_text_start:
  "zone_text z \<noteq> [] \<and> \<not> is_digit (hd (zone_text z)) \<and> hd (zone_text z) \<noteq> CHR ''.''"
  by (simp add: zone_text_def is_digit_def)

lemma read_frac_text:
  assumes "f < 1000000000"
  shows "read_frac (frac_text f @ zone_text z) = Some (f, zone_text z)"
proof -
  obtain c r where z: "zone_text z = c # r" "\<not> is_digit c" "c \<noteq> CHR ''.''"
    using zone_text_start [of z] by (cases "zone_text z") auto
  show ?thesis
  proof (cases "f = 0")
    case True
    with z show ?thesis by (simp add: frac_text_def read_frac_def)
  next
    case False
    let ?ds = "rstrip0 (pad 9 f)"
    have fd: "?ds \<noteq> []" "list_all is_digit ?ds"
      "digits_val (take 9 (?ds @ replicate 9 (CHR ''0''))) = f"
      using frac_digits [of f] False assms by simp_all
    then have "takeWhile is_digit (?ds @ zone_text z) = ?ds"
      "dropWhile is_digit (?ds @ zone_text z) = zone_text z"
      using z by (simp_all add: list_all_iff takeWhile_append2 dropWhile_append2)
    with fd False show ?thesis
      by (simp add: frac_text_def read_frac_def Let_def)
  qed
qed

lemma read_fixed_pad_end [simp]: "n < 10 ^ w \<Longrightarrow> read_fixed w (pad w n) = Some (n, [])"
  using read_fixed_pad [of n w "[]"] by simp

lemma read_zone_signed:
  assumes "n < 24 * 60" "c = CHR ''+'' \<or> c = CHR ''-''"
  shows "read_zone (c # pad 2 (n div 60) @ CHR '':'' # pad 2 (n mod 60)) =
    Some ((if c = CHR ''-'' then -1 else 1) * int n, [])"
proof -
  have "n div 60 < 24" using assms(1) by (simp add: less_mult_imp_div_less)
  moreover have "n mod 60 < 60" by simp
  ultimately show ?thesis
    using assms(2) by (auto simp: read_zone_def simp del: of_nat_add of_nat_mult)
qed

lemma read_zone_text:
  assumes "\<bar>z\<bar> < 24 * 60"
  shows "read_zone (zone_text z) = Some (z, [])"
proof (cases "z = 0")
  case True
  then show ?thesis by (simp add: zone_text_def read_zone_def)
next
  case False
  have "nat \<bar>z\<bar> < 24 * 60" using assms by simp
  from read_zone_signed [OF this, of "if z < 0 then CHR ''-'' else CHR ''+''"] False
  show ?thesis by (auto simp: zone_text_def split: if_splits)
qed


lemma monthlens_bound: "m < 12 \<Longrightarrow> monthlens y ! m \<le> 31"
  by (auto simp: monthlens_def less_Suc_eq numeral_eq_Suc)

lemma clock_sum: "s div 3600 * 3600 + s div 60 mod 60 * 60 + s mod 60 = (s :: nat)"
proof -
  have "s div 3600 = s div 60 div 60"
    by (simp add: div_mult2_eq [symmetric])
  moreover have "s div 60 div 60 * 60 + s div 60 mod 60 = s div 60" by simp
  moreover have "s div 60 * 60 + s mod 60 = s" by simp
  ultimately show ?thesis by linarith
qed

lemma time_of_day_less: "time_of_day t < 86400000000000"
  by (simp add: time_of_day_def nat_less_iff)

lemma local_ns_split:
  "(local_day t - 366) * (24 * hour) + int (time_of_day t) = local_ns t"
  by (simp add: local_day_def time_of_day_def)

lemma parse_time_fields:
  assumes "y \<le> 9999" "m < 12" "r < monthlens y ! m" "hh < 24" "mi < 60" "ss < 60"
    and f: "f < 1000000000" and z: "\<bar>z\<bar> < 24 * 60"
  shows "parse_time
     ((pad 4 y @ CHR ''-'' # pad 2 (Suc m) @ CHR ''-'' # pad 2 (Suc r) @ CHR ''T'' #
       pad 2 hh @ CHR '':'' # pad 2 mi @ CHR '':'' # pad 2 ss) @ frac_text f @ zone_text z)
   = Some \<lparr>instant =
        (int (days_before_year y + sum_list (take m (monthlens y)) + r) - 366) * (24 * hour)
        + int (hh * 3600 + mi * 60 + ss) * second + int f - z * minute, zone = z\<rparr>"
  using assms monthlens_bound [of m y] read_frac_text [OF f] read_zone_text [OF z]
  by (simp add: parse_time_def del: of_nat_add of_nat_mult)

theorem parse_rfc3339nano:
  assumes ok: "marshal_time_ok t"
  shows "parse_time (rfc3339nano t) = Some t"
proof -
  obtain y d where yd: "split_year 0 (nat (local_day t)) = (y, d)" by fastforce
  obtain m r where mr: "split_month (monthlens y) d = (m, r)" by fastforce
  let ?S = "time_of_day t" and ?s = "time_of_day t div 1000000000"
  from ok yd have D: "0 \<le> local_day t" and y: "y \<le> 9999" and z: "\<bar>zone t\<bar> < 24 * 60"
    by (simp_all add: marshal_time_ok_def)
  from split_year_sum [OF yd] have days: "days_before_year y + d = nat (local_day t)"
    and d: "d < yearlen y" by (simp_all add: days_before_year_def)
  have m12: "length (monthlens y) = 12" by (simp add: monthlens_def)
  from split_month_sum [OF mr] d have m: "m < 12" and r: "r < monthlens y ! m"
    and sum: "sum_list (take m (monthlens y)) + r = d"
    by (simp_all add: sum_monthlens m12)
  have s: "?s < 86400" using time_of_day_less [of t] by (simp add: less_mult_imp_div_less)
  then have hh: "?s div 3600 < 24" by (simp add: less_mult_imp_div_less)
  have f: "?S mod 1000000000 < 1000000000" by simp
  have secs: "int (?s div 3600 * 3600 + ?s div 60 mod 60 * 60 + ?s mod 60) * second
      + int (?S mod 1000000000) = int ?S"
    unfolding clock_sum using div_mult_mod_eq [of ?S 1000000000] by linarith
  have "int (days_before_year y + sum_list (take m (monthlens y)) + r) = local_day t"
    using days sum D by linarith
  then have inst: "(int (days_before_year y + sum_list (take m (monthlens y)) + r) - 366) * (24 * hour)
      + int (?s div 3600 * 3600 + ?s div 60 mod 60 * 60 + ?s mod 60) * second
      + int (?S mod 1000000000) - zone t * minute = instant t"
    using secs local_ns_split [of t] by (simp only: local_ns_def)
  have "rfc3339nano t = (pad 4 y @ CHR ''-'' # pad 2 (Suc m) @ CHR ''-'' # pad 2 (Suc r) @
      CHR ''T'' # pad 2 (?s div 3600) @ CHR '':'' # pad 2 (?s div 60 mod 60) @ CHR '':'' #
      pad 2 (?s mod 60)) @ frac_text (?S mod 1000000000) @ zone_text (zone t)"
    by (simp add: rfc3339nano_def civil_text_def yd mr Let_def)
  then show ?thesis
    using parse_time_fields [OF y m r hh _ _ f z, of "?s div 60 mod 60" "?s mod 60"] inst
    by simp
qed

end
