(* ===== verification/Adapter.thy ===== *)
theory Adapter
  imports GoTime
begin

text \<open>
  Package \<^verbatim>\<open>adapter\<close>: the canonical event, the dispositions an adapter can
  give it, and the \<^verbatim>\<open>Adapter\<close> interface as a record of functions. The JSON form
  of an event (its struct tags) is here too, with the proof that reading an
  event's JSON gives the event back.
\<close>

section \<open>Dispositions, results and errors (adapter.go)\<close>

datatype Disposition = Ok | Retry | DeadLetter

fun Disposition_String :: "Disposition \<Rightarrow> string" where
  "Disposition_String Ok = ''Ok''"
| "Disposition_String Retry = ''Retry''"
| "Disposition_String DeadLetter = ''DeadLetter''"

text \<open>The iota value, as \<^verbatim>\<open>int(disposition)\<close> gives it.\<close>

fun Disposition_int :: "Disposition \<Rightarrow> nat" where
  "Disposition_int Ok = 0"
| "Disposition_int Retry = 1"
| "Disposition_int DeadLetter = 2"

text \<open>
  Go errors, with the one concrete type the code inspects dynamically:
  Metronome's \<^verbatim>\<open>*sendError\<close>, which carries the HTTP status.
\<close>

datatype go_error =
    GoError string
  | SendError int string

section \<open>The event (event.go)\<close>

text \<open>
  A nil map or slice and an empty one are not told apart: the code only ranges
  over them and takes their length. A Go map is the list of its entries in the
  order \<^verbatim>\<open>encoding/json\<close> writes them, which is key order.
\<close>

record Event =
  ID :: string
  CustomerID :: string
  EventName :: string
  Timestamp :: gotime
  Properties :: "(string \<times> json) list"
  Route :: "string list"

record EventResult =
  res_EventID :: string
  res_Disposition :: Disposition
  res_Err :: "go_error option"

type_synonym BatchResult = "EventResult list"

text \<open>
  The \<^verbatim>\<open>Adapter\<close> interface. \<^verbatim>\<open>Send\<close> talks to a remote service, so it is a
  relation: which outcomes one call on a body may have.
\<close>

record adapter =
  Encode :: "Event list \<Rightarrow> go_error + string"
  Send :: "string \<Rightarrow> go_error + BatchResult \<Rightarrow> bool"
  Classify :: "go_error \<Rightarrow> int \<Rightarrow> Disposition"
  MaxBatchSize :: int

section \<open>The JSON form of an event\<close>

definition event_json :: "Event \<Rightarrow> json" where
  "event_json e = JObj
     ([(''id'', JStr (ID e)), (''customer_id'', JStr (CustomerID e)),
       (''event_name'', JStr (EventName e)), (''timestamp'', JStr (rfc3339nano (Timestamp e)))]
      @ (if Properties e = [] then [] else [(''properties'', JObj (Properties e))])
      @ (if Route e = [] then [] else [(''route'', JArr (map JStr (Route e)))]))"

text \<open>What \<^verbatim>\<open>json.Marshal\<close> accepts: a printable time and finite numbers.\<close>

definition marshal_event_ok :: "Event \<Rightarrow> bool" where
  "marshal_event_ok e \<longleftrightarrow> marshal_time_ok (Timestamp e) \<and> printable_members (Properties e)"

definition zero_event :: Event where
  "zero_event = \<lparr>ID = [], CustomerID = [], EventName = [], Timestamp = zero_time,
     Properties = [], Route = []\<rparr>"

text \<open>Struct keys are matched without regard to (ASCII) case; all tags are lower case.\<close>

definition ascii_lower :: "char \<Rightarrow> char" where
  "ascii_lower c =
     (if 65 \<le> (of_char c :: nat) \<and> (of_char c :: nat) \<le> 90 then char_of (of_char c + (32 :: nat))
      else c)"

definition tag_of :: "string \<Rightarrow> string" where
  "tag_of k = map ascii_lower k"

fun json_strings :: "json list \<Rightarrow> string list option" where
  "json_strings [] = Some []"
| "json_strings (JStr s # js) = map_option ((#) s) (json_strings js)"
| "json_strings (JNull # js) = map_option ((#) []) (json_strings js)"
| "json_strings _ = None"

text \<open>One object member stored into the struct; \<^verbatim>\<open>null\<close> leaves a scalar as it is.\<close>

definition set_event_field :: "string \<Rightarrow> json \<Rightarrow> Event \<Rightarrow> Event option" where
  "set_event_field k v e =
     (let t = tag_of k in
      if t = ''id'' then
        (case v of JNull \<Rightarrow> Some e | JStr s \<Rightarrow> Some (e\<lparr>ID := s\<rparr>) | _ \<Rightarrow> None)
      else if t = ''customer_id'' then
        (case v of JNull \<Rightarrow> Some e | JStr s \<Rightarrow> Some (e\<lparr>CustomerID := s\<rparr>) | _ \<Rightarrow> None)
      else if t = ''event_name'' then
        (case v of JNull \<Rightarrow> Some e | JStr s \<Rightarrow> Some (e\<lparr>EventName := s\<rparr>) | _ \<Rightarrow> None)
      else if t = ''timestamp'' then
        (case v of JNull \<Rightarrow> Some e
         | JStr s \<Rightarrow> map_option (\<lambda>x. e\<lparr>Timestamp := x\<rparr>) (parse_time s) | _ \<Rightarrow> None)
      else if t = ''properties'' then
        (case v of JNull \<Rightarrow> Some (e\<lparr>Properties := []\<rparr>)
         | JObj ms \<Rightarrow> Some (e\<lparr>Properties := ms\<rparr>) | _ \<Rightarrow> None)
      else if t = ''route'' then
        (case v of JNull \<Rightarrow> Some (e\<lparr>Route := []\<rparr>)
         | JArr js \<Rightarrow> map_option (\<lambda>r. e\<lparr>Route := r\<rparr>) (json_strings js) | _ \<Rightarrow> None)
      else Some e)"

fun set_event_fields :: "(string \<times> json) list \<Rightarrow> Event \<Rightarrow> Event option" where
  "set_event_fields [] e = Some e"
| "set_event_fields ((k, v) # ms) e =
     (case set_event_field k v e of None \<Rightarrow> None | Some e' \<Rightarrow> set_event_fields ms e')"

definition event_of_json :: "json \<Rightarrow> Event option" where
  "event_of_json j = (case j of JObj ms \<Rightarrow> set_event_fields ms zero_event
     | JNull \<Rightarrow> Some zero_event | _ \<Rightarrow> None)"

lemma json_strings_map [simp]: "json_strings (map JStr ss) = Some ss"
  by (induction ss) simp_all

lemma tag_of_tags [simp]:
  "tag_of ''id'' = ''id''" "tag_of ''customer_id'' = ''customer_id''"
  "tag_of ''event_name'' = ''event_name''" "tag_of ''timestamp'' = ''timestamp''"
  "tag_of ''properties'' = ''properties''" "tag_of ''route'' = ''route''"
  "tag_of ''event'' = ''event''" "tag_of ''providers'' = ''providers''"
  "tag_of ''event_id'' = ''event_id''" "tag_of ''provider'' = ''provider''"
  "tag_of ''disposition'' = ''disposition''" "tag_of ''reason'' = ''reason''"
  "tag_of ''attempts'' = ''attempts''" "tag_of ''poisoned'' = ''poisoned''"
  by (simp_all add: tag_of_def ascii_lower_def)

lemma printable_strings [simp]: "printable_elems (map JStr ss)"
  by (induction ss) simp_all

lemma printable_members_append [simp]:
  "printable_members (xs @ ys) \<longleftrightarrow> printable_members xs \<and> printable_members ys"
  by (induction xs) auto

lemma printable_event_json [simp]: "marshal_event_ok e \<Longrightarrow> printable (event_json e)"
  by (simp add: event_json_def marshal_event_ok_def)

lemma event_of_event_json [simp]:
  assumes "marshal_event_ok e"
  shows "event_of_json (event_json e) = Some e"
proof -
  have "parse_time (rfc3339nano (Timestamp e)) = Some (Timestamp e)"
    using assms by (simp add: marshal_event_ok_def parse_rfc3339nano)
  then show ?thesis
    by (cases "Properties e"; cases "Route e")
      (simp_all add: event_of_json_def event_json_def set_event_field_def zero_event_def Let_def)
qed

section \<open>Decimal integers\<close>

text \<open>\<^verbatim>\<open>int\<close> fields are written in decimal and read back from such a literal.\<close>

fun show_nat :: "nat \<Rightarrow> string" where
  "show_nat n = (if n < 10 then [digit_char n] else show_nat (n div 10) @ [digit_char (n mod 10)])"

declare show_nat.simps [simp del]

definition show_int :: "int \<Rightarrow> string" where
  "show_int i = (if i < 0 then CHR ''-'' # show_nat (nat (- i)) else show_nat (nat i))"

definition read_int :: "string \<Rightarrow> int option" where
  "read_int s = (case s of [] \<Rightarrow> None
     | c # r \<Rightarrow>
         if c = CHR ''-'' then
           (if r \<noteq> [] \<and> list_all is_digit r then Some (- int (digits_val r)) else None)
         else if list_all is_digit s then Some (int (digits_val s)) else None)"

fun json_int :: "json \<Rightarrow> int option" where
  "json_int (JNum l) = read_int l"
| "json_int _ = None"

lemma show_nat_digits:
  "list_all is_digit (show_nat n) \<and> show_nat n \<noteq> [] \<and> digits_val (show_nat n) = n
     \<and> (10 \<le> n \<longrightarrow> hd (show_nat n) \<noteq> CHR ''0'') \<and> (n < 10 \<longrightarrow> length (show_nat n) = 1)
     \<and> (0 < n \<longrightarrow> hd (show_nat n) \<noteq> CHR ''0'')"
proof (induction n rule: show_nat.induct)
  case (1 n)
  have hd0: "0 < d \<Longrightarrow> d < 10 \<Longrightarrow> digit_char d \<noteq> CHR ''0''" for d
    by (auto dest!: arg_cong [where f = "of_char :: char \<Rightarrow> nat"])
  show ?case
  proof (cases "n < 10")
    case True
    then show ?thesis
      by (subst (1 2 3 4 5 6) show_nat.simps) (use hd0 in \<open>auto simp: digits_val_def\<close>)
  next
    case False
    moreover from False have "0 < n div 10" by (simp add: div_greater_zero_iff)
    ultimately show ?thesis
      using 1 by (subst (1 2 3 4 5 6) show_nat.simps) auto
  qed
qed


lemma is_digit_num_char: "list_all is_digit s \<Longrightarrow> list_all num_char s"
  by (auto simp: list_all_iff num_char_def)

lemma is_digit_not_minus: "is_digit c \<Longrightarrow> c \<noteq> CHR ''-''"
  by (auto simp: is_digit_def)

lemma valid_number_nat:
  assumes "list_all is_digit s" "s \<noteq> []" "hd s = CHR ''0'' \<longrightarrow> length s = 1"
  shows "valid_number s" "valid_number (CHR ''-'' # s)"
proof -
  obtain c r where s: "s = c # r" using assms(2) by (cases s) auto
  have "c \<noteq> CHR ''-''"
    using assms(1) is_digit_not_minus s by simp
  moreover have "takeWhile is_digit s = s" "dropWhile is_digit s = []"
    using assms(1) by (auto simp: list_all_iff)
  moreover have "list_all num_char s"
    using assms(1) by (rule is_digit_num_char)
  moreover have "num_char (CHR ''-'')"
    by (simp add: num_char_def)
  moreover have "frac_ok []" "is_digit (CHR ''0'')"
    by (simp_all add: frac_ok_def is_digit_def)
  ultimately show "valid_number s" "valid_number (CHR ''-'' # s)"
    using assms(2,3) unfolding s valid_number_def Let_def by simp_all
qed

lemma show_nat_zero_hd: "hd (show_nat n) = CHR ''0'' \<longrightarrow> length (show_nat n) = 1"
  using show_nat_digits [of n] by (cases "n < 10") auto

lemma valid_number_show_int [simp]: "valid_number (show_int i)"
  using show_nat_digits show_nat_zero_hd by (simp add: show_int_def valid_number_nat)

lemma json_int_show_int [simp]: "json_int (JNum (show_int i)) = Some i"
proof (cases "i < 0")
  case True
  with show_nat_digits [of "nat (- i)"] show ?thesis
    by (simp add: show_int_def read_int_def)
next
  case False
  let ?s = "show_nat (nat i)"
  have d: "list_all is_digit ?s" "?s \<noteq> []" "digits_val ?s = nat i"
    using show_nat_digits [of "nat i"] by simp_all
  then obtain c r where cr: "?s = c # r" by (cases ?s) auto
  with d have "c \<noteq> CHR ''-''" by (auto dest: is_digit_not_minus)
  with False d cr show ?thesis
    by (simp add: show_int_def read_int_def)
qed

end
