(* ===== verification/Adapters.thy ===== *)
theory Adapters
  imports Adapter
begin

text \<open>
  The two adapters: adapter/stdout/stdout.go, which accepts every event it can
  read back, and adapter/metronome/metronome.go, which turns events into
  Metronome's wire format and HTTP outcomes into dispositions. The HTTP exchange
  is an argument: what the client reported for one request.
\<close>

section \<open>Error texts\<close>

definition sendError_Error :: "int \<Rightarrow> string \<Rightarrow> string" where
  "sendError_Error status body = ''metronome: unexpected status '' @ show_int status @ '': '' @ body"

fun error_text :: "go_error \<Rightarrow> string" where
  "error_text (GoError s) = s"
| "error_text (SendError status body) = sendError_Error status body"

section \<open>stdout\<close>

definition stdout_defaultMaxBatchSize :: int where
  "stdout_defaultMaxBatchSize = 500"

definition stdout_Encode :: "Event list \<Rightarrow> go_error + string" where
  "stdout_Encode es =
     (if list_all marshal_event_ok es then Inr (json_text (JArr (map event_json es)))
      else Inl (GoError ''json: unsupported value''))"

fun events_of_json :: "json \<Rightarrow> Event list option" where
  "events_of_json (JArr js) = those (map event_of_json js)"
| "events_of_json JNull = Some []"
| "events_of_json _ = None"

definition stdout_Send :: "string \<Rightarrow> go_error + BatchResult" where
  "stdout_Send body =
     (case Option.bind (json_parse body) events_of_json of
        None \<Rightarrow> Inl (GoError ''json: cannot unmarshal'')
      | Some es \<Rightarrow>
          Inr (map (\<lambda>e. \<lparr>res_EventID = ID e, res_Disposition = Ok, res_Err = None\<rparr>) es))"

definition stdout_Classify :: "go_error \<Rightarrow> int \<Rightarrow> Disposition" where
  "stdout_Classify err status = Ok"

definition stdout_MaxBatchSize :: "int \<Rightarrow> int" where
  "stdout_MaxBatchSize maxBatch = (if maxBatch \<le> 0 then stdout_defaultMaxBatchSize else maxBatch)"

definition stdout_adapter :: "int \<Rightarrow> adapter" where
  "stdout_adapter maxBatch =
     \<lparr>Encode = stdout_Encode, Send = (\<lambda>body r. r = stdout_Send body),
      Classify = stdout_Classify, MaxBatchSize = stdout_MaxBatchSize maxBatch\<rparr>"

lemma those_map_Some: "list_all (\<lambda>x. g (h x) = Some x) xs \<Longrightarrow> those (map (g \<circ> h) xs) = Some xs"
  by (induction xs) simp_all

lemma printable_events: "list_all marshal_event_ok es \<Longrightarrow> printable_elems (map event_json es)"
  by (induction es) simp_all

lemma stdout_read_back:
  assumes "stdout_Encode es = Inr body"
  shows "Option.bind (json_parse body) events_of_json = Some es"
proof -
  have ok: "list_all marshal_event_ok es" and body: "body = json_text (JArr (map event_json es))"
    using assms by (auto simp: stdout_Encode_def split: if_splits)
  have "list_all (\<lambda>e. event_of_json (event_json e) = Some e) es"
    using ok by (auto simp: list_all_iff)
  then have "those (map (event_of_json \<circ> event_json) es) = Some es"
    by (rule those_map_Some)
  moreover have "json_parse body = Some (JArr (map event_json es))"
    unfolding body using printable_events [OF ok] by (intro json_parse_text) simp
  ultimately show ?thesis by (simp add: o_def)
qed

section \<open>Metronome: numbers as strings\<close>

text \<open>
  A float64 is its shortest decimal literal. \<open>decimal\<close> reads it as a sign, digits
  without leading or trailing zeros, and the position of the point: the value is
  0.\<^emph>\<open>digits\<close> times ten to that position.
\<close>

definition exponent_of :: "string \<Rightarrow> int" where
  "exponent_of s = (case s of [] \<Rightarrow> 0
     | _ # c # ds \<Rightarrow> if c = CHR ''-'' then - int (digits_val ds)
         else if c = CHR ''+'' then int (digits_val ds) else int (digits_val (c # ds))
     | _ \<Rightarrow> 0)"

definition strip_right :: "string \<Rightarrow> string" where
  "strip_right ds = rev (dropWhile (\<lambda>c. c = CHR ''0'') (rev ds))"

definition decimal :: "string \<Rightarrow> bool \<times> string \<times> int" where
  "decimal l =
     (let neg = (l \<noteq> [] \<and> hd l = CHR ''-''); u = (if neg then tl l else l);
          ip = takeWhile is_digit u; r = dropWhile is_digit u;
          fp = (if r \<noteq> [] \<and> hd r = CHR ''.'' then takeWhile is_digit (tl r) else []);
          r' = (if r \<noteq> [] \<and> hd r = CHR ''.'' then dropWhile is_digit (tl r) else r);
          ds = ip @ fp; z = length (takeWhile (\<lambda>c. c = CHR ''0'') ds)
      in (neg, strip_right (drop z ds), int (length ip) + exponent_of r' - int z))"

definition zeros :: "int \<Rightarrow> string" where
  "zeros n = replicate (nat n) (CHR ''0'')"

definition sign :: "bool \<Rightarrow> string" where
  "sign neg = (if neg then ''-'' else [])"

text \<open>\<^verbatim>\<open>strconv.FormatFloat(t, 'f', -1, 64)\<close>\<close>

definition format_f :: "bool \<times> string \<times> int \<Rightarrow> string" where
  "format_f = (\<lambda>(neg, ds, p). sign neg @
     (if ds = [] then ''0''
      else if p \<le> 0 then ''0.'' @ zeros (- p) @ ds
      else if int (length ds) \<le> p then ds @ zeros (p - int (length ds))
      else take (nat p) ds @ ''.'' @ drop (nat p) ds))"

text \<open>\<^verbatim>\<open>%v\<close> of a float64: exponent form below 1e-4 and from 1e21 on.\<close>

definition format_v :: "bool \<times> string \<times> int \<Rightarrow> string" where
  "format_v = (\<lambda>(neg, ds, p).
     (if ds = [] \<or> (-4 \<le> p - 1 \<and> p - 1 < 21) then format_f (neg, ds, p)
      else sign neg @ [hd ds] @ (if tl ds = [] then [] else ''.'' @ tl ds)
        @ (if p - 1 < 0 then ''e-'' else ''e+'')
        @ (if \<bar>p - 1\<bar> < 10 then ''0'' else []) @ show_nat (nat \<bar>p - 1\<bar>)))"

text \<open>\<^verbatim>\<open>NaN\<close> and the infinities are not literals and print as they are called.\<close>

definition FormatFloat_f :: "string \<Rightarrow> string" where
  "FormatFloat_f l = (if valid_number l then format_f (decimal l) else l)"

definition FormatFloat_v :: "string \<Rightarrow> string" where
  "FormatFloat_v l = (if valid_number l then format_v (decimal l) else l)"

text \<open>\<^verbatim>\<open>fmt.Sprintf("%v", t)\<close>\<close>

fun Sprintf_v :: "json \<Rightarrow> string"
  and elems_v :: "json list \<Rightarrow> string list"
  and members_v :: "(string \<times> json) list \<Rightarrow> string list" where
  "Sprintf_v JNull = ''<nil>''"
| "Sprintf_v (JBool b) = (if b then ''true'' else ''false'')"
| "Sprintf_v (JNum l) = FormatFloat_v l"
| "Sprintf_v (JStr s) = s"
| "Sprintf_v (JArr js) = ''['' @ concat (case elems_v js of [] \<Rightarrow> [] | t # ts \<Rightarrow> t # map ((@) '' '') ts) @ '']''"
| "Sprintf_v (JObj ms) = ''map['' @ concat (case members_v ms of [] \<Rightarrow> [] | t # ts \<Rightarrow> t # map ((@) '' '') ts) @ '']''"
| "elems_v [] = []"
| "elems_v (j # js) = Sprintf_v j # elems_v js"
| "members_v [] = []"
| "members_v ((k, v) # ms) = (k @ '':'' @ Sprintf_v v) # members_v ms"

fun stringifyValue :: "json \<Rightarrow> string" where
  "stringifyValue (JStr s) = s"
| "stringifyValue (JNum l) = FormatFloat_f l"
| "stringifyValue (JBool b) = (if b then ''true'' else ''false'')"
| "stringifyValue JNull = []"
| "stringifyValue t = (if printable t then json_text t else Sprintf_v t)"

definition stringifyProperties :: "(string \<times> json) list \<Rightarrow> (string \<times> string) list" where
  "stringifyProperties props = map (\<lambda>(k, v). (k, stringifyValue v)) props"

section \<open>Metronome: the wire format\<close>

record wireEvent =
  TransactionID :: string
  wire_CustomerID :: string
  EventType :: string
  wire_Timestamp :: string
  wire_Properties :: "(string \<times> string) list"

definition wire_event :: "Event \<Rightarrow> wireEvent" where
  "wire_event e =
     \<lparr>TransactionID = ID e, wire_CustomerID = CustomerID e, EventType = EventName e,
      wire_Timestamp = rfc3339 (time_UTC (Timestamp e)),
      wire_Properties = stringifyProperties (Properties e)\<rparr>"

definition wire_json :: "wireEvent \<Rightarrow> json" where
  "wire_json w = JObj
     ([(''transaction_id'', JStr (TransactionID w)), (''customer_id'', JStr (wire_CustomerID w)),
       (''event_type'', JStr (EventType w)), (''timestamp'', JStr (wire_Timestamp w))]
      @ (if wire_Properties w = [] then []
         else [(''properties'', JObj (map (\<lambda>(k, v). (k, JStr v)) (wire_Properties w)))]))"

definition metronome_Encode :: "Event list \<Rightarrow> go_error + string" where
  "metronome_Encode es = Inr (json_text (JArr (map (wire_json \<circ> wire_event) es)))"

section \<open>Metronome: the adapter and its request\<close>

record metronome =
  m_Endpoint :: string
  m_Token :: string
  m_MaxBatch :: int

definition DefaultEndpoint :: string where
  "DefaultEndpoint = ''https://api.metronome.com/v1/ingest''"

definition metronome_New :: "string \<Rightarrow> string \<Rightarrow> metronome" where
  "metronome_New endpoint token =
     \<lparr>m_Endpoint = (if endpoint = [] then DefaultEndpoint else endpoint), m_Token = token, m_MaxBatch = 0\<rparr>"

text \<open>The request \<^verbatim>\<open>Send\<close> builds: its method is POST; the header fields in the order they are set.\<close>

record post_request =
  po_URL :: string
  po_Header :: "(string \<times> string) list"
  po_Body :: string

definition metronome_request :: "metronome \<Rightarrow> string \<Rightarrow> post_request" where
  "metronome_request a body =
     \<lparr>po_URL = m_Endpoint a,
      po_Header = [(''Content-Type'', ''application/json''), (''Authorization'', ''Bearer '' @ m_Token a)],
      po_Body = body\<rparr>"

section \<open>Metronome: sending\<close>

text \<open>
  What net/http makes of a request: an error for its URL, no response, or a status and a body. The
  adapter reads 64 KiB of the body.
\<close>

datatype http_outcome =
    BadRequest string
  | NoResponse string
  | Response int string

definition metronome_answer :: "http_outcome \<Rightarrow> go_error + BatchResult" where
  "metronome_answer h =
     (case h of
        BadRequest e \<Rightarrow> Inl (GoError (''metronome: build request: '' @ e))
      | NoResponse e \<Rightarrow> Inl (GoError (''metronome: send: '' @ e))
      | Response status body \<Rightarrow>
          (if 200 \<le> status \<and> status < 300 then Inr []
           else Inl (SendError status (take (64 * 1024) body))))"

definition metronome_Send :: "metronome \<Rightarrow> (post_request \<Rightarrow> http_outcome) \<Rightarrow> string \<Rightarrow> go_error + BatchResult" where
  "metronome_Send a http body = metronome_answer (http (metronome_request a body))"

lemma some_answer [simp]: "\<exists>http. metronome_answer h = metronome_Send a http body"
  by (rule exI [of _ "\<lambda>_. h"]) (simp add: metronome_Send_def)

definition metronome_Classify :: "go_error \<Rightarrow> int \<Rightarrow> Disposition" where
  "metronome_Classify err status0 =
     (let status = (case err of SendError s _ \<Rightarrow> s | GoError _ \<Rightarrow> status0) in
      if status = 429 \<or> status \<ge> 500 then Retry
      else if status \<ge> 400 then DeadLetter
      else Retry)"

definition MaxBatchSize_limit :: int where
  "MaxBatchSize_limit = 100"

definition metronome_MaxBatchSize :: "metronome \<Rightarrow> int" where
  "metronome_MaxBatchSize a =
     (if m_MaxBatch a \<le> 0 \<or> m_MaxBatch a > MaxBatchSize_limit then MaxBatchSize_limit else m_MaxBatch a)"

text \<open>The adapter interface, for whatever answers the HTTP client gives.\<close>

definition metronome_adapter :: "metronome \<Rightarrow> adapter" where
  "metronome_adapter a =
     \<lparr>Encode = metronome_Encode, Send = (\<lambda>body r. \<exists>http. r = metronome_Send a http body),
      Classify = metronome_Classify, MaxBatchSize = metronome_MaxBatchSize a\<rparr>"

lemma printable_wire: "printable (wire_json w)"
proof -
  have "printable_members (map (\<lambda>(k, v). (k, JStr v)) ps)" for ps
    by (induction ps) auto
  then show ?thesis by (simp add: wire_json_def)
qed

lemma metronome_body:
  "metronome_Encode es = Inr body \<Longrightarrow> json_parse body = Some (JArr (map (wire_json \<circ> wire_event) es))"
proof -
  have "printable_elems (map (wire_json \<circ> wire_event) es)"
    by (induction es) (simp_all add: printable_wire)
  then show "metronome_Encode es = Inr body \<Longrightarrow> ?thesis"
    by (auto simp: metronome_Encode_def simp del: json_text.simps intro: json_parse_text)
qed

section \<open>What the batcher relies on\<close>

text \<open>
  The contract of an adapter towards the batcher: a maximum batch size that is positive, so the
  batcher's own default is not used, and within what the provider takes. Both adapters keep it.
\<close>

locale bounded_adapter =
  fixes ad :: adapter and limit :: int
  assumes batch_size: "1 \<le> MaxBatchSize ad" "MaxBatchSize ad \<le> limit"

interpretation metronome: bounded_adapter "metronome_adapter a" 100 for a
  by unfold_locales (simp_all add: metronome_adapter_def metronome_MaxBatchSize_def MaxBatchSize_limit_def)

interpretation stdout: bounded_adapter "stdout_adapter n" "max 500 n" for n
  by unfold_locales (simp_all add: stdout_adapter_def stdout_MaxBatchSize_def stdout_defaultMaxBatchSize_def)

end
