(* ===== verification/Payload.thy ===== *)
theory Payload
  imports Adapter
begin

text \<open>
  The payloads of WAL records: \<^verbatim>\<open>eventPayload\<close> and \<^verbatim>\<open>ackPayload\<close> of wal.go and
  their JSON bytes, \<^verbatim>\<open>json.Marshal\<close> and \<^verbatim>\<open>json.Unmarshal\<close> written out for these two
  structs. The client's view is the interface \<open>payload_codec\<close>: what was
  marshalled is what unmarshalling returns. It is interpreted here on the
  JSON codec; the WAL's recovery lemmas rest on it.
\<close>

section \<open>Strings and bytes\<close>

definition to_bytes :: "string \<Rightarrow> byte list" where
  "to_bytes s = map of_char s"

definition of_bytes :: "byte list \<Rightarrow> string" where
  "of_bytes bs = map (\<lambda>b. char_of (unat b)) bs"

lemma unat_of_char [simp]: "unat (of_char c :: byte) = of_char c"
  by (simp only: of_nat_of_char [where 'a = byte, symmetric] unat_of_nat) simp

lemma of_bytes_to_bytes [simp]: "of_bytes (to_bytes s) = s"
  by (simp add: of_bytes_def to_bytes_def o_def)

section \<open>The structs\<close>

record eventPayload =
  pl_Event :: Event
  pl_Providers :: "string list"

record ackPayload =
  ack_EventID :: string
  ack_Provider :: string
  ack_Disposition :: int

text \<open>A nil provider slice is written \<^verbatim>\<open>null\<close>.\<close>

definition eventPayload_json :: "eventPayload \<Rightarrow> json" where
  "eventPayload_json p = JObj
     [(''event'', event_json (pl_Event p)),
      (''providers'', if pl_Providers p = [] then JNull else JArr (map JStr (pl_Providers p)))]"

definition marshal_eventPayload :: "eventPayload \<Rightarrow> byte list option" where
  "marshal_eventPayload p =
     (if marshal_event_ok (pl_Event p) then Some (to_bytes (json_text (eventPayload_json p)))
      else None)"

definition ackPayload_json :: "ackPayload \<Rightarrow> json" where
  "ackPayload_json a = JObj
     [(''event_id'', JStr (ack_EventID a)), (''provider'', JStr (ack_Provider a)),
      (''disposition'', JNum (show_int (ack_Disposition a)))]"

definition marshal_ackPayload :: "ackPayload \<Rightarrow> byte list option" where
  "marshal_ackPayload a = Some (to_bytes (json_text (ackPayload_json a)))"

section \<open>Unmarshalling\<close>

definition set_eventPayload_field :: "string \<Rightarrow> json \<Rightarrow> eventPayload \<Rightarrow> eventPayload option" where
  "set_eventPayload_field k v p =
     (let t = tag_of k in
      if t = ''event'' then
        (case v of JNull \<Rightarrow> Some p
         | JObj ms \<Rightarrow> map_option (\<lambda>e. p\<lparr>pl_Event := e\<rparr>) (set_event_fields ms (pl_Event p))
         | _ \<Rightarrow> None)
      else if t = ''providers'' then
        (case v of JNull \<Rightarrow> Some (p\<lparr>pl_Providers := []\<rparr>)
         | JArr js \<Rightarrow> map_option (\<lambda>r. p\<lparr>pl_Providers := r\<rparr>) (json_strings js) | _ \<Rightarrow> None)
      else Some p)"

fun set_eventPayload_fields :: "(string \<times> json) list \<Rightarrow> eventPayload \<Rightarrow> eventPayload option" where
  "set_eventPayload_fields [] p = Some p"
| "set_eventPayload_fields ((k, v) # ms) p =
     (case set_eventPayload_field k v p of None \<Rightarrow> None
      | Some p' \<Rightarrow> set_eventPayload_fields ms p')"

definition unmarshal_eventPayload :: "byte list \<Rightarrow> eventPayload option" where
  "unmarshal_eventPayload bs =
     (let zero = \<lparr>pl_Event = zero_event, pl_Providers = []\<rparr> in
      case json_parse (of_bytes bs) of
        Some (JObj ms) \<Rightarrow> set_eventPayload_fields ms zero
      | Some JNull \<Rightarrow> Some zero
      | _ \<Rightarrow> None)"

definition set_ackPayload_field :: "string \<Rightarrow> json \<Rightarrow> ackPayload \<Rightarrow> ackPayload option" where
  "set_ackPayload_field k v a =
     (let t = tag_of k in
      if t = ''event_id'' then
        (case v of JNull \<Rightarrow> Some a | JStr s \<Rightarrow> Some (a\<lparr>ack_EventID := s\<rparr>) | _ \<Rightarrow> None)
      else if t = ''provider'' then
        (case v of JNull \<Rightarrow> Some a | JStr s \<Rightarrow> Some (a\<lparr>ack_Provider := s\<rparr>) | _ \<Rightarrow> None)
      else if t = ''disposition'' then
        (case v of JNull \<Rightarrow> Some a
         | _ \<Rightarrow> map_option (\<lambda>i. a\<lparr>ack_Disposition := i\<rparr>) (json_int v))
      else Some a)"

fun set_ackPayload_fields :: "(string \<times> json) list \<Rightarrow> ackPayload \<Rightarrow> ackPayload option" where
  "set_ackPayload_fields [] a = Some a"
| "set_ackPayload_fields ((k, v) # ms) a =
     (case set_ackPayload_field k v a of None \<Rightarrow> None | Some a' \<Rightarrow> set_ackPayload_fields ms a')"

definition unmarshal_ackPayload :: "byte list \<Rightarrow> ackPayload option" where
  "unmarshal_ackPayload bs =
     (let zero = \<lparr>ack_EventID = [], ack_Provider = [], ack_Disposition = 0\<rparr> in
      case json_parse (of_bytes bs) of
        Some (JObj ms) \<Rightarrow> set_ackPayload_fields ms zero
      | Some JNull \<Rightarrow> Some zero
      | _ \<Rightarrow> None)"

section \<open>The codec interface\<close>

locale payload_codec =
  fixes marshal :: "'p \<Rightarrow> byte list option"
    and unmarshal :: "byte list \<Rightarrow> 'p option"
  assumes unmarshal_marshal: "marshal p = Some bs \<Longrightarrow> unmarshal bs = Some p"
begin

lemma marshal_inj: "marshal p = Some bs \<Longrightarrow> marshal q = Some bs \<Longrightarrow> p = q"
  by (drule unmarshal_marshal)+ simp

end

lemma set_event_fields_json:
  "marshal_event_ok e \<Longrightarrow> event_json e = JObj ms \<Longrightarrow> set_event_fields ms zero_event = Some e"
  using event_of_event_json [of e] by (simp add: event_of_json_def)

lemma eventPayload_roundtrip:
  assumes "marshal_eventPayload p = Some bs"
  shows "unmarshal_eventPayload bs = Some p"
proof -
  have ok: "marshal_event_ok (pl_Event p)" and bs: "bs = to_bytes (json_text (eventPayload_json p))"
    using assms by (simp_all add: marshal_eventPayload_def split: if_splits)
  obtain ms where ms: "event_json (pl_Event p) = JObj ms"
    by (simp add: event_json_def)
  have "printable (eventPayload_json p)"
    using printable_event_json [OF ok] by (simp add: eventPayload_json_def)
  then have "json_parse (of_bytes bs) = Some (eventPayload_json p)"
    by (simp add: bs json_parse_text)
  then show ?thesis
    using set_event_fields_json [OF ok ms] ms
    by (cases "pl_Providers p")
      (simp_all add: unmarshal_eventPayload_def eventPayload_json_def
        set_eventPayload_field_def Let_def)
qed

lemma ackPayload_roundtrip:
  assumes "marshal_ackPayload a = Some bs"
  shows "unmarshal_ackPayload bs = Some a"
proof -
  have "printable (ackPayload_json a)"
    by (simp add: ackPayload_json_def)
  from json_parse_text [OF this] have "json_parse (of_bytes bs) = Some (ackPayload_json a)"
    using assms by (auto simp: marshal_ackPayload_def)
  then show ?thesis
    by (simp add: unmarshal_ackPayload_def ackPayload_json_def set_ackPayload_field_def Let_def
        del: json_int.simps)
qed

interpretation event_codec: payload_codec marshal_eventPayload unmarshal_eventPayload
  by unfold_locales (rule eventPayload_roundtrip)

interpretation ack_codec: payload_codec marshal_ackPayload unmarshal_ackPayload
  by unfold_locales (rule ackPayload_roundtrip)

end
