(* ===== verification/Frame.thy ===== *)
theory Frame
  imports Prelude
begin

text \<open>
  internal/wal/record.go: the on-disk frame of a WAL record and the reader that
  replays a segment. The reader's contract is stated twice: what was written
  comes back, also when the last frame is torn, and whatever comes back was
  written intact.
\<close>

section \<open>Checksums and big-endian words\<close>

text \<open>\<^verbatim>\<open>hash/crc32\<close>'s IEEE polynomial, reflected, one bit at a time.\<close>

fun crc_bits :: "nat \<Rightarrow> u32 \<Rightarrow> u32" where
  "crc_bits 0 c = c"
| "crc_bits (Suc n) c =
     crc_bits n (if bit c 0 then drop_bit 1 c XOR 0xEDB88320 else drop_bit 1 c)"

definition crc_update :: "byte \<Rightarrow> u32 \<Rightarrow> u32" where
  "crc_update b c = crc_bits 8 (c XOR ucast b)"

definition ChecksumIEEE :: "byte list \<Rightarrow> u32" where
  "ChecksumIEEE bs = NOT (fold crc_update bs (NOT 0))"

definition PutUint32 :: "u32 \<Rightarrow> byte list" where
  "PutUint32 w = [ucast (drop_bit 24 w), ucast (drop_bit 16 w), ucast (drop_bit 8 w), ucast w]"

definition BigEndian_Uint32 :: "byte list \<Rightarrow> u32" where
  "BigEndian_Uint32 bs = (case bs of
     [b0, b1, b2, b3] \<Rightarrow>
       ucast b3 OR push_bit 8 (ucast b2) OR push_bit 16 (ucast b1) OR push_bit 24 (ucast b0)
   | _ \<Rightarrow> 0)"

lemma length_PutUint32 [simp]: "length (PutUint32 w) = 4"
  by (simp add: PutUint32_def)

lemma Uint32_PutUint32 [simp]: "BigEndian_Uint32 (PutUint32 w) = w"
proof (rule bit_word_eqI)
  fix n :: nat
  consider "n < 8" | "8 \<le> n" "n < 16" | "16 \<le> n" "n < 24" | "24 \<le> n" by linarith
  moreover assume "n < LENGTH(32)"
  ultimately show "bit (BigEndian_Uint32 (PutUint32 w)) n \<longleftrightarrow> bit w n"
    by cases (auto simp: BigEndian_Uint32_def PutUint32_def bit_simps)
qed

lemma PutUint32_Uint32_bytes: "PutUint32 (BigEndian_Uint32 [b0, b1, b2, b3]) = [b0, b1, b2, b3]"
  unfolding BigEndian_Uint32_def PutUint32_def
  by (simp del: push_bit_numeral, intro conjI; rule bit_word_eqI,
      auto simp: bit_simps dest: bit_imp_le_length)

lemma PutUint32_Uint32:
  assumes "length bs = 4"
  shows "PutUint32 (BigEndian_Uint32 bs) = bs"
proof -
  obtain b0 b1 b2 b3 where "bs = [b0, b1, b2, b3]"
    using assms by (auto simp: length_Suc_conv numeral_eq_Suc)
  then show ?thesis by (simp only: PutUint32_Uint32_bytes)
qed

lemma ChecksumIEEE_Nil [simp]: "ChecksumIEEE [] = 0"
  by (simp add: ChecksumIEEE_def)

section \<open>Frames\<close>

definition recTypeEvent :: byte where "recTypeEvent = 1"

definition recTypeAck :: byte where "recTypeAck = 2"

definition encodeFrame :: "byte \<Rightarrow> byte list \<Rightarrow> byte list" where
  "encodeFrame recType payload =
     (let body = recType # payload
      in PutUint32 (word_of_nat (length body)) @ PutUint32 (ChecksumIEEE body) @ body)"

record decodedRecord =
  recType :: byte
  payload :: "byte list"

text \<open>\<^verbatim>\<open>io.ReadFull\<close> into a buffer of the given length.\<close>

definition ReadFull :: "nat \<Rightarrow> byte list \<Rightarrow> (byte list \<times> byte list) option" where
  "ReadFull n bs = (if length (take n bs) = n then Some (take n bs, drop n bs) else None)"

lemma ReadFull_Some:
  "ReadFull n bs = Some (x, r) \<longleftrightarrow> length x = n \<and> bs = x @ r"
  by (auto simp: ReadFull_def)

lemma ReadFull_append [simp]: "length x = n \<Longrightarrow> ReadFull n (x @ r) = Some (x, r)"
  by (simp add: ReadFull_Some)

lemma ReadFull_short: "length bs < n \<Longrightarrow> ReadFull n bs = None"
  by (simp add: ReadFull_def)

function decodeRecords :: "byte list \<Rightarrow> decodedRecord list go" where
  "decodeRecords bs =
     (case ReadFull 4 bs of
        None \<Rightarrow> Returns []
      | Some (lenBuf, r1) \<Rightarrow>
          (case ReadFull 4 r1 of
             None \<Rightarrow> Returns []
           | Some (crcBuf, r2) \<Rightarrow>
               (case ReadFull (unat (BigEndian_Uint32 lenBuf)) r2 of
                  None \<Rightarrow> Returns []
                | Some (body, r3) \<Rightarrow>
                    if ChecksumIEEE body \<noteq> BigEndian_Uint32 crcBuf then Returns []
                    else (case body of
                        [] \<Rightarrow> Panics
                      | t # p \<Rightarrow>
                          (case decodeRecords r3 of
                             Panics \<Rightarrow> Panics
                           | Returns rs \<Rightarrow> Returns (\<lparr>recType = t, payload = p\<rparr> # rs))))))"
  by pat_completeness auto
termination
  by (relation "measure length") (auto simp: ReadFull_Some)

declare decodeRecords.simps [simp del]

definition frame_of :: "decodedRecord \<Rightarrow> byte list" where
  "frame_of r = encodeFrame (recType r) (payload r)"

text \<open>A body whose length the 32-bit field can hold.\<close>

definition fits :: "decodedRecord \<Rightarrow> bool" where
  "fits r \<longleftrightarrow> length (payload r) + 1 < 2 ^ 32"

definition frames :: "decodedRecord list \<Rightarrow> byte list" where
  "frames rs = concat (map frame_of rs)"

lemma frames_simps [simp]:
  "frames [] = []" "frames (r # rs) = frame_of r @ frames rs"
  "frames (rs @ qs) = frames rs @ frames qs"
  by (simp_all add: frames_def)

lemma length_frame_of [simp]: "length (frame_of r) = 9 + length (payload r)"
  by (simp add: frame_of_def encodeFrame_def Let_def)

lemma unat_len: "n < 2 ^ 32 \<Longrightarrow> unat (word_of_nat n :: u32) = n"
  by (simp add: unat_of_nat take_bit_eq_mod)

section \<open>What was written comes back\<close>

lemma decode_Nil [simp]: "decodeRecords [] = Returns []"
  by (simp add: decodeRecords.simps ReadFull_short)

lemma decode_frame:
  assumes "fits r"
  shows "decodeRecords (frame_of r @ bs) =
    (case decodeRecords bs of Panics \<Rightarrow> Panics | Returns rs \<Rightarrow> Returns (r # rs))"
proof -
  obtain t p where r: "r = \<lparr>recType = t, payload = p\<rparr>" by (cases r)
  let ?body = "t # p"
  have len: "unat (word_of_nat (length ?body) :: u32) = length ?body"
    using assms by (intro unat_len) (simp add: fits_def r)
  have "frame_of r @ bs =
      PutUint32 (word_of_nat (length ?body)) @ PutUint32 (ChecksumIEEE ?body) @ ?body @ bs"
    by (simp add: frame_of_def encodeFrame_def Let_def r)
  moreover have "ReadFull (length ?body) (?body @ bs) = Some (?body, bs)"
    by (rule ReadFull_append) simp
  ultimately show ?thesis
    by (subst decodeRecords.simps)
      (simp only: ReadFull_append length_PutUint32 option.case prod.case Uint32_PutUint32 len
        simp_thms if_False list.case r)
qed

lemma decode_frames_append:
  "list_all fits rs \<Longrightarrow> decodeRecords (frames rs @ bs) =
    (case decodeRecords bs of Panics \<Rightarrow> Panics | Returns qs \<Rightarrow> Returns (rs @ qs))"
proof (induction rs)
  case (Cons r rs)
  then show ?case by (cases "decodeRecords bs") (simp_all add: decode_frame)
qed (simp split: go.splits)

lemma decode_frames: "list_all fits rs \<Longrightarrow> decodeRecords (frames rs) = Returns rs"
  using decode_frames_append [of rs "[]"] by simp

lemma decode_torn_frame:
  assumes "fits r" "n < length (frame_of r)"
  shows "decodeRecords (take n (frame_of r)) = Returns []"
proof -
  let ?body = "recType r # payload r"
  let ?h = "PutUint32 (word_of_nat (length ?body))" and ?c = "PutUint32 (ChecksumIEEE ?body)"
  have len: "unat (word_of_nat (length ?body) :: u32) = length ?body"
    using assms by (intro unat_len) (simp add: fits_def)
  have f: "frame_of r = ?h @ ?c @ ?body"
    by (simp add: frame_of_def encodeFrame_def Let_def)
  consider "n < 4" | "4 \<le> n" "n < 8" | "8 \<le> n" by linarith
  then show ?thesis
  proof cases
    case 1
    then show ?thesis by (simp add: decodeRecords.simps ReadFull_short)
  next
    case 2
    then have "take n (frame_of r) = ?h @ take (n - 4) ?c"
      by (simp add: f)
    with 2 show ?thesis
      by (subst decodeRecords.simps) (simp add: ReadFull_short del: of_nat_Suc)
  next
    case 3
    then have "take n (frame_of r) = ?h @ ?c @ take (n - 8) ?body"
      by (simp add: f)
    moreover have "ReadFull (length ?body) (take (n - 8) ?body) = None"
      using assms(2) 3 by (intro ReadFull_short) simp
    ultimately show ?thesis
      by (subst decodeRecords.simps)
        (simp only: ReadFull_append length_PutUint32 option.case prod.case Uint32_PutUint32 len)
  qed
qed

section \<open>What comes back was written intact\<close>

lemma decode_sound:
  "decodeRecords bs = Returns rs \<Longrightarrow> \<exists>rest. bs = frames rs @ rest \<and> list_all fits rs"
proof (induction bs arbitrary: rs rule: decodeRecords.induct)
  case (1 bs)
  show ?case
  proof (cases "rs = []")
    case True
    then show ?thesis by simp
  next
    case False
    then obtain lenBuf r1 crcBuf r2 t p r3 qs where
      l: "ReadFull 4 bs = Some (lenBuf, r1)" and c: "ReadFull 4 r1 = Some (crcBuf, r2)"
      and b: "ReadFull (unat (BigEndian_Uint32 lenBuf)) r2 = Some (t # p, r3)"
      and crc: "ChecksumIEEE (t # p) = BigEndian_Uint32 crcBuf"
      and d: "decodeRecords r3 = Returns qs"
      and rs: "rs = \<lparr>recType = t, payload = p\<rparr> # qs"
      using "1.prems" by (subst (asm) decodeRecords.simps)
        (auto split: option.splits prod.splits if_splits list.splits go.splits)
    obtain rest where rest: "r3 = frames qs @ rest" "list_all fits qs"
      using "1.IH" [OF l refl c refl b refl _ refl d] crc by auto
    have len: "length (t # p) = unat (BigEndian_Uint32 lenBuf)"
      using b by (simp add: ReadFull_Some)
    moreover have "unat (BigEndian_Uint32 lenBuf) < 2 ^ 32" 
      by (rule order_less_le_trans [OF unsigned_less]) simp
    ultimately have "fits \<lparr>recType = t, payload = p\<rparr>" by (simp add: fits_def)
    moreover have "lenBuf = PutUint32 (word_of_nat (length (t # p)))"
      using l len by (simp add: ReadFull_Some PutUint32_Uint32)
    moreover have "crcBuf = PutUint32 (ChecksumIEEE (t # p))"
      using c crc by (simp add: ReadFull_Some PutUint32_Uint32)
    ultimately show ?thesis
      using l c b rest unfolding rs
      by (auto simp: ReadFull_Some frame_of_def encodeFrame_def Let_def)
  qed
qed


section \<open>Tails the reader does not survive\<close>

lemma Uint32_zeros [simp]: "BigEndian_Uint32 [0, 0, 0, 0] = 0"
  by (simp add: BigEndian_Uint32_def)

text \<open>
  Eight zero bytes are a frame of length 0 whose checksum matches; the reader
  then takes the first byte of an empty body.
\<close>

lemma decode_zero_tail:
  assumes "list_all fits rs" "8 \<le> n"
  shows "decodeRecords (frames rs @ replicate n 0) = Panics"
proof -
  have four: "replicate 4 0 = [0, 0, 0, 0 :: byte]" by (simp add: numeral_eq_Suc)
  have "replicate n (0 :: byte) = replicate 4 0 @ replicate 4 0 @ replicate (n - 8) 0"
    using assms(2) by (simp flip: replicate_add)
  then have "decodeRecords (replicate n 0) = Panics"
    by (subst decodeRecords.simps) (simp add: ReadFull_Some ReadFull_def four)
  with assms(1) show ?thesis by (simp add: decode_frames_append)
qed

lemma PutUint32_small:
  assumes "m < 256"
  shows "PutUint32 (word_of_nat m) = [0, 0, 0, word_of_nat m]"
proof -
  have "PutUint32 (ucast b) = [0, 0, 0, b]" for b :: byte
    unfolding PutUint32_def
    by (simp, intro conjI; rule bit_word_eqI,
        auto simp: bit_simps dest: bit_imp_le_length)
  moreover have "(word_of_nat m :: u32) = ucast (word_of_nat m :: byte)"
    using assms by (simp add: unsigned_of_nat take_bit_eq_mod)
  ultimately show ?thesis by simp
qed

definition short :: "decodedRecord \<Rightarrow> bool" where
  "short r \<longleftrightarrow> length (payload r) < 255"

text \<open>
  A torn first byte (of the length field) in front of an intact frame shifts the
  fields by one: the reader sees length 0 with a non-zero checksum and stops.
\<close>

lemma decode_buried:
  assumes "list_all fits rs" "short t" "short r" "1 \<le> k" "k \<le> 3"
  shows "decodeRecords (frames rs @ take k (frame_of t) @ frame_of r @ rest) = Returns rs"
proof -
  let ?L = "word_of_nat (Suc (length (payload r))) :: byte"
  have "unat ?L = Suc (length (payload r))"
    using assms(3) by (simp only: unat_of_nat) (simp add: short_def)
  then have L: "?L \<noteq> 0" by (metis nat.distinct(1) unat_0)
  have len: "m < 255 \<Longrightarrow> PutUint32 (word_of_nat (Suc m)) = [0, 0, 0, word_of_nat (Suc m)]" for m
    by (rule PutUint32_small) simp
  obtain c0 c1 c2 b where r: "frame_of r = [0, 0, 0, ?L, c0, c1, c2] @ b"
    using assms(3) unfolding frame_of_def encodeFrame_def Let_def PutUint32_def [of "ChecksumIEEE _"]
    by (simp add: len short_def del: of_nat_Suc)
  have t: "take k (frame_of t) = replicate k 0"
    using assms(2,4,5) unfolding frame_of_def encodeFrame_def Let_def
    by (auto simp: len short_def numeral_eq_Suc le_Suc_eq simp del: of_nat_Suc)
  have nz: "BigEndian_Uint32 cs \<noteq> 0" if "length cs = 4" "?L \<in> set cs" for cs
    using PutUint32_Uint32 [OF that(1)] that(2) L PutUint32_Uint32 [of "[0, 0, 0, 0]"]
    by (auto simp del: of_nat_Suc)
  have read0: "decodeRecords ([0, 0, 0, 0] @ cs @ more) = Returns []"
    if "length cs = 4" "?L \<in> set cs" for cs more
    using nz [OF that] that(1)
    by (subst decodeRecords.simps) (simp add: ReadFull_Some ReadFull_def del: of_nat_Suc)
  consider "k = 1" | "k = 2" | "k = 3" using assms(4,5) by linarith
  then have "decodeRecords (replicate k 0 @ frame_of r @ rest) = Returns []"
  proof cases
    case 1
    with read0 [of "[?L, c0, c1, c2]" "b @ rest"] r show ?thesis by simp
  next
    case 2
    with read0 [of "[0, ?L, c0, c1]" "c2 # b @ rest"] r show ?thesis by (simp add: numeral_eq_Suc)
  next
    case 3
    with read0 [of "[0, 0, ?L, c0]" "c1 # c2 # b @ rest"] r show ?thesis
      by (simp add: numeral_eq_Suc)
  qed
  with assms(1) t show ?thesis by (simp add: decode_frames_append)
qed

end
