(* ===== verification/Segment.thy ===== *)
theory Segment
  imports Payload Frame "HOL-Library.Sublist"
begin

text \<open>
  internal/wal/segment.go over an explicit disk. A file is the bytes written so
  far and how many of them are durable; a crash keeps the durable prefix and
  any part of what follows it. Every system call of the WAL takes the next
  entry of a fault schedule, so each error branch of the code is reachable; the
  empty schedule is the fault-free disk. Files are keyed by sequence number;
  \<open>listSegmentSeqs_segments\<close> shows that scanning the file names gives these keys.
\<close>

section \<open>The disk\<close>

record fileState =
  contents :: "byte list"
  durable :: nat

text \<open>
  \<^term>\<open>Fault n\<close>: the call fails; a write has put \<^term>\<open>n\<close> bytes into the file.
\<close>

datatype fault = NoFault | Fault nat

record disk =
  files :: "(nat, fileState) gomap"
  faults :: "fault list"

datatype wal_error = ErrClosed | ErrBufferFull | ErrMarshal | ErrIO

definition next_fault :: "disk \<Rightarrow> fault \<times> disk" where
  "next_fault d = (case faults d of [] \<Rightarrow> (NoFault, d) | f # fs \<Rightarrow> (f, d\<lparr>faults := fs\<rparr>))"

definition set_file :: "nat \<Rightarrow> fileState \<Rightarrow> disk \<Rightarrow> disk" where
  "set_file n f d = d\<lparr>files := AList.update n f (files d)\<rparr>"

definition file_bytes :: "disk \<Rightarrow> nat \<Rightarrow> byte list" where
  "file_bytes d n = (case map_of (files d) n of Some f \<Rightarrow> contents f | None \<Rightarrow> [])"

text \<open>\<^verbatim>\<open>File.Write\<close>: bytes written, success, and the disk after.\<close>

definition os_write :: "nat \<Rightarrow> byte list \<Rightarrow> disk \<Rightarrow> nat \<times> bool \<times> disk" where
  "os_write n bs d =
     (case next_fault d of (flt, d1) \<Rightarrow>
      case map_of (files d1) n of
        None \<Rightarrow> (0, False, d1)
      | Some f \<Rightarrow>
          (case flt of
             NoFault \<Rightarrow> (length bs, True, set_file n (f\<lparr>contents := contents f @ bs\<rparr>) d1)
           | Fault k \<Rightarrow>
               (length (take k bs), False, set_file n (f\<lparr>contents := contents f @ take k bs\<rparr>) d1)))"

definition os_sync :: "nat \<Rightarrow> disk \<Rightarrow> bool \<times> disk" where
  "os_sync n d =
     (case next_fault d of (flt, d1) \<Rightarrow>
      case (flt, map_of (files d1) n) of
        (NoFault, Some f) \<Rightarrow> (True, set_file n (f\<lparr>durable := length (contents f)\<rparr>) d1)
      | _ \<Rightarrow> (False, d1))"

text \<open>\<^verbatim>\<open>os.OpenFile\<close> with \<^verbatim>\<open>O_CREATE|O_EXCL\<close>.\<close>

definition os_create :: "nat \<Rightarrow> disk \<Rightarrow> bool \<times> disk" where
  "os_create n d =
     (case next_fault d of (flt, d1) \<Rightarrow>
      case (flt, map_of (files d1) n) of
        (NoFault, None) \<Rightarrow> (True, set_file n \<lparr>contents = [], durable = 0\<rparr> d1)
      | _ \<Rightarrow> (False, d1))"

definition os_remove :: "nat \<Rightarrow> disk \<Rightarrow> bool \<times> disk" where
  "os_remove n d =
     (case next_fault d of (flt, d1) \<Rightarrow>
      case flt of NoFault \<Rightarrow> (True, d1\<lparr>files := AList.delete n (files d1)\<rparr>)
      | Fault _ \<Rightarrow> (False, d1))"

text \<open>A call that only succeeds or fails: close, stat, seek, open for reading.\<close>

definition os_call :: "disk \<Rightarrow> bool \<times> disk" where
  "os_call d = (case next_fault d of (flt, d1) \<Rightarrow> (flt = NoFault, d1))"

section \<open>Segments\<close>

text \<open>The \<^verbatim>\<open>f *os.File\<close> field: nil, open, or closed but still set.\<close>

datatype handle = NilFile | OpenFile | ClosedFile

record segment =
  seg_seq :: nat
  seg_f :: handle
  seg_size :: int
  seg_refCount :: int

definition createSegment :: "nat \<Rightarrow> disk \<Rightarrow> segment option \<times> disk" where
  "createSegment n d =
     (case os_create n d of (ok, d1) \<Rightarrow>
        (if ok then Some \<lparr>seg_seq = n, seg_f = OpenFile, seg_size = 0, seg_refCount = 0\<rparr> else None, d1))"

text \<open>Open, stat and seek; each may fail, and the size is the file's.\<close>

definition openSegmentForAppend :: "nat \<Rightarrow> disk \<Rightarrow> segment option \<times> disk" where
  "openSegmentForAppend n d =
     (case os_call d of (ok1, d1) \<Rightarrow>
      if \<not> ok1 \<or> map_of (files d1) n = None then (None, d1)
      else case os_call d1 of (ok2, d2) \<Rightarrow>
      if \<not> ok2 then (None, snd (os_call d2))
      else case os_call d2 of (ok3, d3) \<Rightarrow>
      if \<not> ok3 then (None, snd (os_call d3))
      else (Some \<lparr>seg_seq = n, seg_f = OpenFile, seg_size = int (length (file_bytes d3 n)), seg_refCount = 0\<rparr>, d3))"

definition segment_append :: "segment \<Rightarrow> byte list \<Rightarrow> disk \<Rightarrow> wal_error option \<times> segment \<times> disk" where
  "segment_append s data d =
     (if seg_f s = OpenFile then
        (case os_write (seg_seq s) data d of (n, ok, d1) \<Rightarrow>
           (if ok then None else Some ErrIO, s\<lparr>seg_size := seg_size s + int n\<rparr>, d1))
      else (Some ErrIO, s, d))"

definition segment_sync :: "segment \<Rightarrow> disk \<Rightarrow> wal_error option \<times> disk" where
  "segment_sync s d =
     (if seg_f s = OpenFile then
        (case os_sync (seg_seq s) d of (ok, d1) \<Rightarrow> (if ok then None else Some ErrIO, d1))
      else (Some ErrIO, d))"

text \<open>A file descriptor is released even when \<^verbatim>\<open>Close\<close> reports an error.\<close>

definition segment_close :: "segment \<Rightarrow> disk \<Rightarrow> wal_error option \<times> segment \<times> disk" where
  "segment_close s d =
     (if seg_f s = OpenFile then
        (case os_call d of (ok, d1) \<Rightarrow> (if ok then None else Some ErrIO, s\<lparr>seg_f := ClosedFile\<rparr>, d1))
      else (Some ErrIO, s, d))"

section \<open>File names\<close>

record dirent =
  de_Name :: string
  de_IsDir :: bool

text \<open>\<^verbatim>\<open>fmt.Sprintf("%020d.wal", seq)\<close>\<close>

definition segmentName :: "nat \<Rightarrow> string" where
  "segmentName n = replicate (20 - length (show_nat n)) (CHR ''0'') @ show_nat n @ ''.wal''"

text \<open>
  \<^verbatim>\<open>fmt.Sscanf(name, "%020d.wal", &seq)\<close>: leading spaces skipped, at most twenty
  digits of an uint64, then the literal; what follows is not looked at.
\<close>

definition scanSegmentName :: "string \<Rightarrow> nat option" where
  "scanSegmentName name =
     (let s = dropWhile is_ws name;
          ds = takeWhile is_digit (take 20 s)
      in if ds \<noteq> [] \<and> digits_val ds < 2 ^ 64 \<and> take 4 (drop (length ds) s) = ''.wal''
         then Some (digits_val ds) else None)"

definition listSegmentSeqs :: "dirent list \<Rightarrow> nat list" where
  "listSegmentSeqs es = sort (List.map_filter
     (\<lambda>e. if de_IsDir e \<or> \<not> suffix ''.wal'' (de_Name e) then None else scanSegmentName (de_Name e)) es)"

text \<open>The directory a disk stands for: its segment files and unrelated entries.\<close>

definition readDir :: "dirent list \<Rightarrow> disk \<Rightarrow> dirent list" where
  "readDir others d = map (\<lambda>(n, _). \<lparr>de_Name = segmentName n, de_IsDir = False\<rparr>) (files d) @ others"

definition segment_seqs :: "disk \<Rightarrow> nat list" where
  "segment_seqs d = sort (map fst (files d))"

lemma length_show_nat: "n < 10 ^ Suc k \<Longrightarrow> length (show_nat n) \<le> Suc k"
proof (induction k arbitrary: n)
  case 0
  then show ?case by (subst show_nat.simps) simp
next
  case (Suc k)
  show ?case
  proof (cases "n < 10")
    case True
    then show ?thesis by (subst show_nat.simps) simp
  next
    case False
    moreover have "n div 10 < 10 ^ Suc k"
      using Suc.prems by (simp add: less_mult_imp_div_less)
    ultimately show ?thesis
      using Suc.IH [of "n div 10"] by (subst show_nat.simps) simp
  qed
qed

lemma scan_twenty_digits:
  assumes len: "length ds = 20" and dig: "list_all is_digit ds" and n: "digits_val ds < 2 ^ 64"
  shows "scanSegmentName (ds @ ''.wal'') = Some (digits_val ds)"
proof -
  obtain c r where ds: "ds = c # r" using len by (cases ds) auto
  with dig have "\<not> is_ws c" using is_digit_first [of c] by simp
  then have "dropWhile is_ws (ds @ ''.wal'') = ds @ ''.wal''"
    by (simp add: ds)
  moreover have "takeWhile is_digit ds = ds"
    using dig by (simp add: list_all_iff)
  ultimately show ?thesis
    using len n ds by (simp add: scanSegmentName_def Let_def)
qed

lemma scan_segmentName:
  assumes "n < 2 ^ 64"
  shows "scanSegmentName (segmentName n) = Some n"
proof -
  let ?ds = "replicate (20 - length (show_nat n)) (CHR ''0'') @ show_nat n"
  have "(2 :: nat) ^ 64 < 10 ^ Suc 19" by simp
  then have "length (show_nat n) \<le> 20"
    using length_show_nat [of n 19] assms by simp
  then have "length ?ds = 20" by simp
  moreover have "is_digit (CHR ''0'')" by (simp add: is_digit_def)
  then have "list_all is_digit ?ds"
    using show_nat_digits [of n] by (auto simp: list_all_iff)
  moreover have "digits_val ?ds = n"
    using show_nat_digits [of n] by (simp add: digits_val_append)
  ultimately show ?thesis
    using scan_twenty_digits [of ?ds] assms by (simp add: segmentName_def)
qed

lemma map_filter_append:
  "List.map_filter g (xs @ ys) = List.map_filter g xs @ List.map_filter g ys"
  by (simp add: List.map_filter_def)

lemma listSegmentSeqs_segments:
  assumes "\<forall>n \<in> fst ` set (files d). n < 2 ^ 64"
    and "\<forall>e \<in> set others. de_IsDir e \<or> \<not> suffix ''.wal'' (de_Name e)"
  shows "listSegmentSeqs (readDir others d) = segment_seqs d"
proof -
  let ?g = "\<lambda>e. if de_IsDir e \<or> \<not> suffix ''.wal'' (de_Name e) then None
     else scanSegmentName (de_Name e)"
  have "List.map_filter ?g others = []"
    using assms(2) by (induction others) (auto simp: map_filter_simps)
  moreover have "List.map_filter ?g
      (map (\<lambda>(n, _). \<lparr>de_Name = segmentName n, de_IsDir = False\<rparr>) fs) = map fst fs"
    if "\<forall>n \<in> fst ` set fs. n < 2 ^ 64" for fs :: "(nat \<times> fileState) list"
    using that
  proof (induction fs)
    case (Cons nf fs)
    moreover have "suffix ''.wal'' (segmentName n)" for n
      by (simp add: segmentName_def suffix_def)
    ultimately show ?case
      by (cases nf) (simp add: map_filter_simps scan_segmentName)
  qed (simp add: map_filter_simps)
  ultimately show ?thesis
    using assms(1) by (simp add: listSegmentSeqs_def readDir_def segment_seqs_def map_filter_append)
qed

end
