(* ===== verification/Dlq.thy ===== *)
theory Dlq
  imports Adapters Segment
begin

text \<open>
  internal/dlq/dlq.go: the dead-letter queue over a directory of JSON-lines files,
  keyed by file name. System calls take the next entry of a fault schedule, as
  in \<open>Segment\<close>. A file is the text it holds; what of it is durable is not
  modelled (every append ends in \<^verbatim>\<open>Sync\<close>, every rewrite in a rename).
\<close>

section \<open>State\<close>

definition permanentPoisonThreshold :: int where "permanentPoisonThreshold = 2"
definition exhaustedPoisonThreshold :: int where "exhaustedPoisonThreshold = 3"

record dlq_record =
  rec_Provider :: string
  rec_Event :: Event
  rec_Reason :: string
  rec_Timestamp :: gotime
  rec_Attempts :: int
  rec_Poisoned :: bool

text \<open>A handle is open or, after \<^verbatim>\<open>Close\<close>, closed but still in the map.\<close>

record dlq =
  dlq_files :: "(string, string) gomap"
  dlq_faults :: "fault list"
  handles :: "(string, bool) gomap"
  dlq_depth :: "(string, int) gomap"
  dlq_attempts :: "(string, (string, int) gomap) gomap"

definition get0 :: "('k, int) gomap \<Rightarrow> 'k \<Rightarrow> int" where
  "get0 m k = (case map_of m k of None \<Rightarrow> 0 | Some n \<Rightarrow> n)"

definition get_map :: "('k, ('a, 'b) gomap) gomap \<Rightarrow> 'k \<Rightarrow> ('a, 'b) gomap" where
  "get_map m k = (case map_of m k of None \<Rightarrow> [] | Some n \<Rightarrow> n)"

definition dlq_fault :: "dlq \<Rightarrow> fault \<times> dlq" where
  "dlq_fault d = (case dlq_faults d of [] \<Rightarrow> (NoFault, d) | x # xs \<Rightarrow> (x, d\<lparr>dlq_faults := xs\<rparr>))"

definition dlq_call :: "dlq \<Rightarrow> bool \<times> dlq" where
  "dlq_call d = (case dlq_fault d of (x, d1) \<Rightarrow> (x = NoFault, d1))"

definition set_text :: "string \<Rightarrow> string \<Rightarrow> dlq \<Rightarrow> dlq" where
  "set_text path t d = d\<lparr>dlq_files := AList.update path t (dlq_files d)\<rparr>"

definition text_of :: "dlq \<Rightarrow> string \<Rightarrow> string" where
  "text_of d path = (case map_of (dlq_files d) path of None \<Rightarrow> [] | Some t \<Rightarrow> t)"

text \<open>Opening for append creates a missing file.\<close>

definition dlq_openAppend :: "string \<Rightarrow> dlq \<Rightarrow> bool \<times> dlq" where
  "dlq_openAppend path d =
     (case dlq_call d of (ok, d1) \<Rightarrow>
      if \<not> ok then (False, d1)
      else (True, (if map_of (dlq_files d1) path = None then set_text path [] d1 else d1)
              \<lparr>handles := AList.update path True (handles d1)\<rparr>))"

text \<open>A write that fails has put a prefix of its bytes into the file.\<close>

definition dlq_write :: "string \<Rightarrow> string \<Rightarrow> dlq \<Rightarrow> bool \<times> dlq" where
  "dlq_write path t d =
     (case dlq_fault d of
        (NoFault, d1) \<Rightarrow> (True, set_text path (text_of d1 path @ t) d1)
      | (Fault k, d1) \<Rightarrow> (False, set_text path (text_of d1 path @ take k t) d1))"

section \<open>Records as JSON lines\<close>

definition record_json :: "dlq_record \<Rightarrow> json" where
  "record_json r = JObj
     ([(''provider'', JStr (rec_Provider r)), (''event'', event_json (rec_Event r)),
       (''reason'', JStr (rec_Reason r)), (''timestamp'', JStr (rfc3339nano (rec_Timestamp r))),
       (''attempts'', JNum (show_int (rec_Attempts r)))]
      @ (if rec_Poisoned r then [(''poisoned'', JBool True)] else []))"

definition marshal_record :: "dlq_record \<Rightarrow> string option" where
  "marshal_record r =
     (if marshal_event_ok (rec_Event r) \<and> marshal_time_ok (rec_Timestamp r)
      then Some (json_text (record_json r)) else None)"

definition set_record_field :: "string \<Rightarrow> json \<Rightarrow> dlq_record \<Rightarrow> dlq_record option" where
  "set_record_field k v r =
     (let t = tag_of k in
      if t = ''provider'' then
        (case v of JNull \<Rightarrow> Some r | JStr s \<Rightarrow> Some (r\<lparr>rec_Provider := s\<rparr>) | _ \<Rightarrow> None)
      else if t = ''event'' then
        (case v of JNull \<Rightarrow> Some r
         | JObj ms \<Rightarrow> map_option (\<lambda>e. r\<lparr>rec_Event := e\<rparr>) (set_event_fields ms (rec_Event r))
         | _ \<Rightarrow> None)
      else if t = ''reason'' then
        (case v of JNull \<Rightarrow> Some r | JStr s \<Rightarrow> Some (r\<lparr>rec_Reason := s\<rparr>) | _ \<Rightarrow> None)
      else if t = ''timestamp'' then
        (case v of JNull \<Rightarrow> Some r
         | JStr s \<Rightarrow> map_option (\<lambda>x. r\<lparr>rec_Timestamp := x\<rparr>) (parse_time s) | _ \<Rightarrow> None)
      else if t = ''attempts'' then
        (case v of JNull \<Rightarrow> Some r
         | _ \<Rightarrow> map_option (\<lambda>i. r\<lparr>rec_Attempts := i\<rparr>) (json_int v))
      else if t = ''poisoned'' then
        (case v of JNull \<Rightarrow> Some r | JBool x \<Rightarrow> Some (r\<lparr>rec_Poisoned := x\<rparr>) | _ \<Rightarrow> None)
      else Some r)"

fun set_record_fields :: "(string \<times> json) list \<Rightarrow> dlq_record \<Rightarrow> dlq_record option" where
  "set_record_fields [] r = Some r"
| "set_record_fields ((k, v) # ms) r =
     (case set_record_field k v r of None \<Rightarrow> None | Some r' \<Rightarrow> set_record_fields ms r')"

definition zero_record :: dlq_record where
  "zero_record = \<lparr>rec_Provider = [], rec_Event = zero_event, rec_Reason = [],
     rec_Timestamp = zero_time, rec_Attempts = 0, rec_Poisoned = False\<rparr>"

definition unmarshal_record :: "string \<Rightarrow> dlq_record option" where
  "unmarshal_record s =
     (case json_parse s of Some (JObj ms) \<Rightarrow> set_record_fields ms zero_record
      | Some JNull \<Rightarrow> Some zero_record | _ \<Rightarrow> None)"

section \<open>Reading a file\<close>

text \<open>
  \<^verbatim>\<open>bufio.ScanLines\<close> under a 10 MiB buffer: a line that does not fit with its
  newline is an error. Blank lines are skipped.
\<close>

definition maxLine :: nat where
  "maxLine = 10 * 1024 * 1024"

abbreviation newline :: char where
  "newline \<equiv> CHR 0x0A"

fun split_lines :: "string \<Rightarrow> string list" where
  "split_lines [] = []"
| "split_lines (c # cs) =
     (if c = newline then [] # split_lines cs
      else (case split_lines cs of [] \<Rightarrow> [[c]] | l # ls \<Rightarrow> (c # l) # ls))"

definition dropCR :: "string \<Rightarrow> string" where
  "dropCR l = (if l \<noteq> [] \<and> last l = CHR 0x0D then butlast l else l)"

definition is_space :: "char \<Rightarrow> bool" where
  "is_space c \<longleftrightarrow> c = CHR '' '' \<or> (9 \<le> (of_char c :: nat) \<and> (of_char c :: nat) \<le> 13)"

fun decode_lines :: "string list \<Rightarrow> go_error + dlq_record list" where
  "decode_lines [] = Inr []"
| "decode_lines (l # ls) =
     (if maxLine \<le> length l then Inl (GoError ''dlq: scan'')
      else if list_all is_space l then decode_lines ls
      else (case unmarshal_record (dropCR l) of
          None \<Rightarrow> Inl (GoError ''dlq: decode'')
        | Some r \<Rightarrow> (case decode_lines ls of Inl e \<Rightarrow> Inl e | Inr rs \<Rightarrow> Inr (r # rs))))"

definition readRecords :: "string \<Rightarrow> dlq \<Rightarrow> (go_error + dlq_record list) \<times> dlq" where
  "readRecords path d =
     (case dlq_call d of (ok, d1) \<Rightarrow>
      if \<not> ok then (Inl (GoError ''dlq: open''), d1)
      else case map_of (dlq_files d1) path of
        None \<Rightarrow> (Inr [], d1)
      | Some t \<Rightarrow>
          (case dlq_call d1 of (ok2, d2) \<Rightarrow>
           (if \<not> ok2 then Inl (GoError ''dlq: scan'') else decode_lines (split_lines t),
            snd (dlq_call d2))))"

section \<open>Operations\<close>

definition regularPath :: "string \<Rightarrow> string" where
  "regularPath provider = provider @ ''.jsonl''"

definition poisonPath :: "string \<Rightarrow> string" where
  "poisonPath provider = provider @ ''.poison.jsonl''"

definition appendRecord :: "string \<Rightarrow> dlq_record \<Rightarrow> dlq \<Rightarrow> go_error option \<times> dlq" where
  "appendRecord path r d =
     (case (case map_of (handles d) path of
              Some h \<Rightarrow> (True, d)
            | None \<Rightarrow> dlq_openAppend path d) of (ok, d1) \<Rightarrow>
      if \<not> ok then (Some (GoError ''dlq: open''), d1)
      else case marshal_record r of
        None \<Rightarrow> (Some (GoError ''dlq: marshal''), d1)
      | Some line \<Rightarrow>
          (if map_of (handles d1) path \<noteq> Some True then (Some (GoError ''dlq: write''), d1)
           else case dlq_write path (line @ [newline]) d1 of (wok, d2) \<Rightarrow>
             if \<not> wok then (Some (GoError ''dlq: write''), d2)
             else (case dlq_call d2 of (sok, d3) \<Rightarrow>
               (if sok then None else Some (GoError ''dlq: sync''), d3))))"

text \<open>The temporary file's write loop: \<open>None\<close> is a record that does not marshal.\<close>

fun write_kept :: "string \<Rightarrow> dlq_record list \<Rightarrow> dlq \<Rightarrow> go_error option \<times> dlq" where
  "write_kept tmp [] d = (None, d)"
| "write_kept tmp (r # rs) d =
     (case marshal_record r of
        None \<Rightarrow> (Some (GoError ''dlq: marshal''), snd (dlq_call d))
      | Some line \<Rightarrow>
          (case dlq_write tmp (line @ [newline]) d of
             (False, d1) \<Rightarrow> (Some (GoError ''dlq: write''), snd (dlq_call d1))
           | (True, d1) \<Rightarrow> write_kept tmp rs d1))"

definition rename_file :: "string \<Rightarrow> string \<Rightarrow> dlq \<Rightarrow> bool \<times> dlq" where
  "rename_file tmp path d =
     (case dlq_call d of (ok, d1) \<Rightarrow>
      if ok then (True, d1\<lparr>dlq_files := AList.delete tmp (AList.update path (text_of d1 tmp) (dlq_files d1))\<rparr>)
      else (False, d1))"

text \<open>The append handle of a file about to be rewritten is closed and forgotten.\<close>

definition drop_handle :: "string \<Rightarrow> dlq \<Rightarrow> dlq" where
  "drop_handle path d =
     (case map_of (handles d) path of
        None \<Rightarrow> d
      | Some h \<Rightarrow>
          (let d1 = (if h then snd (dlq_call d) else d)
           in d1\<lparr>handles := AList.delete path (handles d1)\<rparr>))"

text \<open>The rewrite of a file without some of its records, once something is removed.\<close>

definition rewrite_file :: "string \<Rightarrow> dlq_record list \<Rightarrow> dlq \<Rightarrow> go_error option \<times> dlq" where
  "rewrite_file path kept d =
     (let tmp = path @ ''.tmp'' in
      case dlq_call (drop_handle path d) of (ok, d2) \<Rightarrow>
      if \<not> ok then (Some (GoError ''dlq: create''), d2)
      else case write_kept tmp kept (set_text tmp [] d2) of
        (Some e, d3) \<Rightarrow> (Some e, d3)
      | (None, d3) \<Rightarrow>
          (case dlq_call d3 of (sok, d4) \<Rightarrow>
           if \<not> sok then (Some (GoError ''dlq: sync''), snd (dlq_call d4))
           else case dlq_call d4 of (cok, d5) \<Rightarrow>
           if \<not> cok then (Some (GoError ''dlq: close''), d5)
           else case rename_file tmp path d5 of (rok, d6) \<Rightarrow>
           if \<not> rok then (Some (GoError ''dlq: rename''), d6)
           else case dlq_openAppend path d6 of (ook, d7) \<Rightarrow>
             (if ook then None else Some (GoError ''dlq: reopen''), d7)))"

definition removeFromFile :: "string \<Rightarrow> string list \<Rightarrow> dlq \<Rightarrow> (go_error + int) \<times> dlq" where
  "removeFromFile path ids d =
     (case readRecords path d of
        (Inl e, d1) \<Rightarrow> (Inl e, d1)
      | (Inr records, d1) \<Rightarrow>
          (let kept = filter (\<lambda>r. ID (rec_Event r) \<notin> set ids) records;
               removedCount = length records - length kept
           in if removedCount = 0 then (Inr 0, d1)
              else case rewrite_file path kept d1 of
                (Some e, d2) \<Rightarrow> (Inl e, d2)
              | (None, d2) \<Rightarrow> (Inr (int removedCount), d2)))"

definition add_depth :: "string \<Rightarrow> int \<Rightarrow> dlq \<Rightarrow> dlq" where
  "add_depth provider n d =
     d\<lparr>dlq_depth := AList.update provider (get0 (dlq_depth d) provider + n) (dlq_depth d)\<rparr>"

definition bump_attempts :: "string \<Rightarrow> string \<Rightarrow> dlq \<Rightarrow> int \<times> dlq" where
  "bump_attempts provider i d =
     (let m = get_map (dlq_attempts d) provider; n = get0 m i + 1
      in (n, d\<lparr>dlq_attempts := AList.update provider (AList.update i n m) (dlq_attempts d)\<rparr>))"

definition poison_threshold :: "bool \<Rightarrow> int" where
  "poison_threshold permanent =
     (if permanent then permanentPoisonThreshold else exhaustedPoisonThreshold)"

definition dlq_Put ::
  "gotime \<Rightarrow> string \<Rightarrow> Event \<Rightarrow> string \<Rightarrow> bool \<Rightarrow> dlq \<Rightarrow> go_error option \<times> dlq" where
  "dlq_Put now provider e reason permanent d0 =
     (case bump_attempts provider (ID e) d0 of (attempts, d) \<Rightarrow>
      let poisoned = attempts \<ge> poison_threshold permanent;
          r = \<lparr>rec_Provider = provider, rec_Event = e, rec_Reason = reason,
               rec_Timestamp = time_UTC now, rec_Attempts = attempts, rec_Poisoned = poisoned\<rparr>
      in if poisoned then
           (case removeFromFile (regularPath provider) [ID e] d of
              (Inl err, d1) \<Rightarrow> (Some err, d1)
            | (Inr purged, d1) \<Rightarrow>
                (case appendRecord (poisonPath provider) r (add_depth provider (- purged) d1) of
                   (Some err, d2) \<Rightarrow> (Some err, d2)
                 | (None, d2) \<Rightarrow> (None, add_depth provider 1 d2)))
         else
           (case appendRecord (regularPath provider) r d of
              (Some err, d2) \<Rightarrow> (Some err, d2)
            | (None, d2) \<Rightarrow> (None, add_depth provider 1 d2)))"

definition dlq_List :: "string \<Rightarrow> dlq \<Rightarrow> (go_error + dlq_record list) \<times> dlq" where
  "dlq_List provider = readRecords (regularPath provider)"

definition dlq_ListPoison :: "string \<Rightarrow> dlq \<Rightarrow> (go_error + dlq_record list) \<times> dlq" where
  "dlq_ListPoison provider = readRecords (poisonPath provider)"

definition dlq_Remove :: "string \<Rightarrow> string list \<Rightarrow> dlq \<Rightarrow> go_error option \<times> dlq" where
  "dlq_Remove provider ids d =
     (if ids = [] then (None, d)
      else case removeFromFile (regularPath provider) ids d of
        (Inl e, d1) \<Rightarrow> (Some e, d1)
      | (Inr n, d1) \<Rightarrow>
          (case removeFromFile (poisonPath provider) ids d1 of
             (Inl e, d2) \<Rightarrow> (Some e, d2)
           | (Inr m, d2) \<Rightarrow>
               (let d3 = add_depth provider (- (n + m)) d2
                in (None, if get0 (dlq_depth d3) provider < 0
                          then d3\<lparr>dlq_depth := AList.update provider 0 (dlq_depth d3)\<rparr> else d3))))"

definition dlq_Depth :: "string \<Rightarrow> dlq \<Rightarrow> int" where
  "dlq_Depth provider d = get0 (dlq_depth d) provider"

fun close_handles :: "(string \<times> bool) list \<Rightarrow> go_error option \<Rightarrow> dlq \<Rightarrow> go_error option \<times> dlq" where
  "close_handles [] err d = (err, d)"
| "close_handles ((path, h) # hs) err d =
     (case (if h then dlq_call d else (False, d)) of (ok, d1) \<Rightarrow>
      close_handles hs (if \<not> ok \<and> err = None then Some (GoError ''close'') else err)
        (d1\<lparr>handles := AList.update path False (handles d1)\<rparr>))"

definition dlq_Close :: "dlq \<Rightarrow> go_error option \<times> dlq" where
  "dlq_Close d = close_handles (handles d) None d"

section \<open>Opening\<close>

definition trim_suffix :: "string \<Rightarrow> string \<Rightarrow> string" where
  "trim_suffix suf s = (if suffix suf s then take (length s - length suf) s else s)"

definition file_provider :: "string \<Rightarrow> string" where
  "file_provider name = trim_suffix ''.poison'' (trim_suffix ''.jsonl'' name)"

definition note_record :: "string \<Rightarrow> dlq_record \<Rightarrow> dlq \<Rightarrow> dlq" where
  "note_record provider r d =
     (let i = ID (rec_Event r); m = get_map (dlq_attempts d) provider;
          d1 = (if rec_Attempts r > get0 m i
                then d\<lparr>dlq_attempts := AList.update provider (AList.update i (rec_Attempts r) m) (dlq_attempts d)\<rparr>
                else d)
      in add_depth provider 1 d1)"

definition known_provider :: "string \<Rightarrow> dlq \<Rightarrow> dlq" where
  "known_provider p d =
     (if map_of (dlq_attempts d) p = None
      then d\<lparr>dlq_attempts := AList.update p [] (dlq_attempts d)\<rparr> else d)"

fun scan_files :: "string list \<Rightarrow> dlq \<Rightarrow> go_error option \<times> dlq" where
  "scan_files [] d = (None, d)"
| "scan_files (name # names) d =
     (if \<not> suffix ''.jsonl'' name then scan_files names d
      else case readRecords name d of
        (Inl e, d1) \<Rightarrow> (Some e, d1)
      | (Inr rs, d1) \<Rightarrow>
          (let p = file_provider name
           in scan_files names (fold (note_record p) rs (known_provider p d1))))"

text \<open>\<^verbatim>\<open>Open\<close> on the files of a directory, under a fault schedule.\<close>

definition dlq_Open :: "(string, string) gomap \<Rightarrow> fault list \<Rightarrow> (go_error + dlq)" where
  "dlq_Open fs flts =
     (let d0 = \<lparr>dlq_files = fs, dlq_faults = flts, handles = [], dlq_depth = [], dlq_attempts = []\<rparr>
      in case dlq_call d0 of (ok, d1) \<Rightarrow>
         if \<not> ok then Inl (GoError ''dlq: mkdir'')
         else case dlq_call d1 of (ok2, d2) \<Rightarrow>
         if \<not> ok2 then Inl (GoError ''dlq: read'')
         else case scan_files (map fst fs) d2 of
           (Some e, _) \<Rightarrow> Inl e
         | (None, d3) \<Rightarrow> Inr d3)"

end
