(* ===== verification/Dlq_Spec.thy ===== *)
theory Dlq_Spec
  imports Dlq
begin

text \<open>
  What the dead-letter queue promises: a file is the list of its records, and
  without faults every operation acts on that list. \<open>Put\<close> appends to the regular
  file or, at the threshold, moves the event to the poison file; \<open>Remove\<close> filters
  both; the depth is the number of records on disk, also after a restart.
\<close>

named_theorems dlq_no_fault

section \<open>Records and lines\<close>

definition line_of :: "dlq_record \<Rightarrow> string" where
  "line_of r = json_text (record_json r)"

definition good_rec :: "dlq_record \<Rightarrow> bool" where
  "good_rec r \<longleftrightarrow> marshal_event_ok (rec_Event r) \<and> marshal_time_ok (rec_Timestamp r)
     \<and> length (line_of r) < maxLine"

definition lines_of :: "dlq_record list \<Rightarrow> string" where
  "lines_of rs = concat (map (\<lambda>r. line_of r @ [newline]) rs)"

lemma lines_of_simps [simp]:
  "lines_of [] = []" "lines_of (r # rs) = line_of r @ newline # lines_of rs"
  "lines_of (rs @ qs) = lines_of rs @ lines_of qs"
  by (simp_all add: lines_of_def)

lemma printable_record: "good_rec r \<Longrightarrow> printable (record_json r)"
  using printable_event_json [of "rec_Event r"] by (simp add: good_rec_def record_json_def)

lemma marshal_line: "good_rec r \<Longrightarrow> marshal_record r = Some (line_of r)"
  by (simp add: good_rec_def marshal_record_def line_of_def)

lemma unmarshal_line:
  assumes "good_rec r"
  shows "unmarshal_record (line_of r) = Some r"
proof -
  have ok: "marshal_event_ok (rec_Event r)" using assms by (simp add: good_rec_def)
  have ts: "parse_time (rfc3339nano (rec_Timestamp r)) = Some (rec_Timestamp r)"
    using assms by (simp add: good_rec_def parse_rfc3339nano)
  obtain ms where ms: "event_json (rec_Event r) = JObj ms" by (simp add: event_json_def)
  have "json_parse (line_of r) = Some (record_json r)"
    unfolding line_of_def by (rule json_parse_text [OF printable_record [OF assms]])
  then show ?thesis
    using set_event_fields_json [OF ok ms] ms ts
    by (cases "rec_Poisoned r")
      (simp_all add: unmarshal_record_def record_json_def set_record_field_def zero_record_def
        Let_def del: json_int.simps)
qed

lemma line_shape: "\<exists>m. line_of r = CHR ''{'' # m @ ''}''"
  unfolding line_of_def record_json_def by simp

lemma line_no_newline: "good_rec r \<Longrightarrow> newline \<notin> set (line_of r)"
  unfolding line_of_def using texts_no_ctrl(1) [OF printable_record] by (rule no_ctrl_no_newline)

lemma split_line: "newline \<notin> set l \<Longrightarrow> split_lines (l @ newline # t) = l # split_lines t"
  by (induction l) auto

lemma decode_lines_of: "list_all good_rec rs \<Longrightarrow> decode_lines (split_lines (lines_of rs)) = Inr rs"
proof (induction rs)
  case (Cons r rs)
  then have g: "good_rec r" by simp
  obtain m where m: "line_of r = CHR ''{'' # m @ ''}''" using line_shape by blast
  have "dropCR (line_of r) = line_of r" by (simp add: m dropCR_def)
  moreover have "\<not> list_all is_space (line_of r)" by (simp add: m is_space_def)
  moreover have "\<not> maxLine \<le> length (line_of r)" using g by (simp add: good_rec_def)
  ultimately show ?case
    using Cons unmarshal_line [OF g] by (simp add: split_line line_no_newline)
qed simp

section \<open>Fault-free states\<close>

definition open_ok :: "dlq \<Rightarrow> bool" where
  "open_ok d \<longleftrightarrow> dlq_faults d = [] \<and> (\<forall>p. map_of (handles d) p \<noteq> Some False)"

definition recs :: "dlq \<Rightarrow> string \<Rightarrow> dlq_record list" where
  "recs d path = (case decode_lines (split_lines (text_of d path)) of Inr rs \<Rightarrow> rs | Inl _ \<Rightarrow> [])"

definition holds :: "dlq \<Rightarrow> string \<Rightarrow> dlq_record list \<Rightarrow> bool" where
  "holds d path rs \<longleftrightarrow> text_of d path = lines_of rs \<and> list_all good_rec rs"

lemma holds_recs: "holds d path rs \<Longrightarrow> recs d path = rs"
  by (simp add: holds_def recs_def decode_lines_of)

abbreviation jsonl :: "string \<Rightarrow> bool" where
  "jsonl path \<equiv> suffix ''.jsonl'' path"

definition dlq_ok :: "dlq \<Rightarrow> bool" where
  "dlq_ok d \<longleftrightarrow> open_ok d \<and> (\<forall>path. jsonl path \<longrightarrow> holds d path (recs d path))"

text \<open>Only the given file, and nothing of the counters, has changed.\<close>

definition only_file :: "string \<Rightarrow> dlq \<Rightarrow> dlq \<Rightarrow> bool" where
  "only_file path d d' \<longleftrightarrow> open_ok d' \<and> dlq_depth d' = dlq_depth d \<and> dlq_attempts d' = dlq_attempts d
     \<and> (\<forall>q. jsonl q \<longrightarrow> q \<noteq> path \<longrightarrow> text_of d' q = text_of d q)"

lemma only_file_refl [simp]: "open_ok d \<Longrightarrow> only_file path d d"
  by (simp add: only_file_def)

lemma dlq_call_none [dlq_no_fault]: "open_ok d \<Longrightarrow> dlq_call d = (True, d)"
  by (simp add: dlq_call_def dlq_fault_def open_ok_def)

lemma dlq_write_none [dlq_no_fault]:
  "open_ok d \<Longrightarrow> dlq_write path t d = (True, set_text path (text_of d path @ t) d)"
  by (simp add: dlq_write_def dlq_fault_def open_ok_def)

lemma set_text_simps [simp]:
  "text_of (set_text path t d) q = (if q = path then t else text_of d q)"
  "open_ok (set_text path t d) = open_ok d" "handles (set_text path t d) = handles d"
  "dlq_depth (set_text path t d) = dlq_depth d" "dlq_attempts (set_text path t d) = dlq_attempts d"
  by (simp_all add: set_text_def text_of_def open_ok_def)

lemma handles_simps [simp]:
  "text_of (d\<lparr>handles := h\<rparr>) q = text_of d q"
  by (simp add: text_of_def)

lemma open_ok_handles:
  assumes "open_ok d"
  shows "open_ok (d\<lparr>handles := AList.update path True (handles d)\<rparr>)"
    and "open_ok (d\<lparr>handles := AList.delete path (handles d)\<rparr>)"
  using assms unfolding open_ok_def by (simp_all add: fun_upd_apply)

lemma open_ok_files [simp]: "open_ok (d\<lparr>dlq_files := fs\<rparr>) = open_ok d"
  by (simp add: open_ok_def)

lemma text_of_none: "map_of (dlq_files d) path = None \<Longrightarrow> text_of d path = []"
  by (simp add: text_of_def)

lemma openAppend_none [dlq_no_fault]:
  assumes ok: "open_ok d"
  obtains d' where "dlq_openAppend path d = (True, d')" "only_file path d d'"
    "text_of d' path = text_of d path" "map_of (handles d') path = Some True"
proof -
  let ?d1 = "if map_of (dlq_files d) path = None then set_text path [] d else d"
  let ?d' = "?d1\<lparr>handles := AList.update path True (handles ?d1)\<rparr>"
  have "open_ok ?d1" using ok by simp
  then have "open_ok ?d'" by (rule open_ok_handles)
  moreover have t: "text_of ?d' q = text_of d q" for q
    by (simp add: text_of_none)
  moreover have "handles ?d1 = handles d" by simp
  then have "dlq_openAppend path d = (True, ?d')"
    using ok by (simp add: dlq_openAppend_def dlq_call_none)
  moreover have "map_of (handles ?d') path = Some True" by simp
  moreover have "only_file path d ?d'"
    using calculation(1) t unfolding only_file_def by simp
  ultimately show ?thesis using that by blast
qed

lemma readRecords_none:
  assumes "open_ok d" "holds d path rs"
  shows "readRecords path d = (Inr rs, d)"
proof (cases "map_of (dlq_files d) path")
  case None
  with assms(2) have "lines_of rs = []" by (simp add: holds_def text_of_def)
  then have "rs = []" by (cases rs) simp_all
  with None assms show ?thesis by (simp add: readRecords_def dlq_call_none)
next
  case (Some t)
  with assms show ?thesis
    by (simp add: readRecords_def dlq_call_none holds_def text_of_def decode_lines_of)
qed

lemma appendRecord_none:
  assumes ok: "open_ok d" and h: "holds d path rs" and g: "good_rec r"
  obtains d' where "appendRecord path r d = (None, d')" "only_file path d d'" "holds d' path (rs @ [r])"
proof -
  obtain d1 where o: "(case map_of (handles d) path of Some h \<Rightarrow> (True, d)
      | None \<Rightarrow> dlq_openAppend path d) = (True, d1)"
    and f: "only_file path d d1" and t: "text_of d1 path = text_of d path"
    and hd: "map_of (handles d1) path = Some True"
  proof (cases "map_of (handles d) path")
    case None
    from openAppend_none [OF ok, of path] obtain d1 where "dlq_openAppend path d = (True, d1)"
      "only_file path d d1" "text_of d1 path = text_of d path" "map_of (handles d1) path = Some True"
      by blast
    with None that show ?thesis by simp
  next
    case (Some x)
    with ok have "x" unfolding open_ok_def by (cases x) auto
    with Some ok that [of d] show ?thesis by simp
  qed
  have ok1: "open_ok d1" using f by (simp add: only_file_def)
  let ?d' = "set_text path (text_of d1 path @ line_of r @ [newline]) d1"
  have "appendRecord path r d = (None, ?d')"
    using o ok1 hd g by (simp add: appendRecord_def marshal_line dlq_write_none dlq_call_none)
  moreover have "only_file path d ?d'" using f by (simp add: only_file_def)
  moreover have "holds ?d' path (rs @ [r])" using h g t by (simp add: holds_def)
  ultimately show ?thesis by (rule that)
qed

lemma drop_handle_none:
  assumes "open_ok d"
  shows "open_ok (drop_handle path d)" "text_of (drop_handle path d) q = text_of d q"
    "dlq_depth (drop_handle path d) = dlq_depth d" "dlq_attempts (drop_handle path d) = dlq_attempts d"
  using assms open_ok_handles(2) [OF assms, of path]
  by (simp_all add: drop_handle_def dlq_call_none Let_def split: option.split)

lemma write_kept_none:
  "open_ok d \<Longrightarrow> list_all good_rec rs \<Longrightarrow>
     \<exists>d'. write_kept tmp rs d = (None, d') \<and> only_file tmp d d'
       \<and> text_of d' tmp = text_of d tmp @ lines_of rs"
proof (induction rs arbitrary: d)
  case (Cons r rs)
  let ?d1 = "set_text tmp (text_of d tmp @ line_of r @ [newline]) d"
  obtain d' where "write_kept tmp rs ?d1 = (None, d')" "only_file tmp ?d1 d'"
    "text_of d' tmp = text_of ?d1 tmp @ lines_of rs"
    using Cons.IH [of ?d1] Cons.prems by auto
  with Cons.prems show ?case by (simp add: marshal_line dlq_write_none only_file_def)
qed simp

lemma tmp_not_jsonl: "\<not> jsonl (path @ ''.tmp'')"
  by (auto simp: suffix_def append_eq_append_conv2 Cons_eq_append_conv)

lemma rename_none:
  assumes "open_ok d" "tmp \<noteq> path"
  obtains d' where "rename_file tmp path d = (True, d')" "open_ok d'" "text_of d' path = text_of d tmp"
    "\<forall>q. q \<noteq> tmp \<longrightarrow> q \<noteq> path \<longrightarrow> text_of d' q = text_of d q"
    "dlq_depth d' = dlq_depth d" "dlq_attempts d' = dlq_attempts d"
  using assms that [of "d\<lparr>dlq_files := AList.delete tmp (AList.update path (text_of d tmp) (dlq_files d))\<rparr>"]
  by (simp add: rename_file_def dlq_call_none text_of_def)

lemma rewrite_none:
  assumes ok: "open_ok d" and g: "list_all good_rec kept" and path: "jsonl path"
  obtains d' where "rewrite_file path kept d = (None, d')" "only_file path d d'" "holds d' path kept"
proof -
  let ?tmp = "path @ ''.tmp''" and ?d1 = "drop_handle path d"
  have tmp: "q \<noteq> ?tmp" if "jsonl q" for q using that tmp_not_jsonl by blast
  note d1 = drop_handle_none [OF ok, of path]
  obtain d3 where d3: "write_kept ?tmp kept (set_text ?tmp [] ?d1) = (None, d3)"
    "only_file ?tmp (set_text ?tmp [] ?d1) d3" "text_of d3 ?tmp = lines_of kept"
    using write_kept_none [of "set_text ?tmp [] ?d1" kept ?tmp] d1(1) g by auto
  have ok3: "open_ok d3" using d3(2) by (simp add: only_file_def)
  have t3: "text_of d3 q = text_of d q" if "jsonl q" for q
    using d3(2) d1(2) that tmp [OF that] unfolding only_file_def by simp
  obtain d6 where d6: "rename_file ?tmp path d3 = (True, d6)" "open_ok d6" "text_of d6 path = lines_of kept"
    "\<forall>q. q \<noteq> ?tmp \<longrightarrow> q \<noteq> path \<longrightarrow> text_of d6 q = text_of d3 q"
    "dlq_depth d6 = dlq_depth d3" "dlq_attempts d6 = dlq_attempts d3"
    using rename_none [OF ok3, of ?tmp path] tmp [OF path] d3(3) by metis
  obtain d' where d': "dlq_openAppend path d6 = (True, d')" "only_file path d6 d'"
    "text_of d' path = text_of d6 path"
    using openAppend_none [OF d6(2), of path] by blast
  have "rewrite_file path kept d = (None, d')"
    using d1(1) ok3 d3(1) d6(1) d'(1) by (simp add: rewrite_file_def dlq_call_none Let_def)
  moreover have "text_of d6 q = text_of d q" if "jsonl q" "q \<noteq> path" for q
    using d6(4) tmp [OF that(1)] that t3 [OF that(1)] by simp
  then have "only_file path d d'"
    using d'(2) d6(5,6) d3(2) d1(3,4) unfolding only_file_def by simp
  moreover have "holds d' path kept"
    using d'(3) d6(3) g by (simp add: holds_def)
  ultimately show ?thesis by (rule that)
qed

lemma removeFromFile_none:
  assumes ok: "open_ok d" and h: "holds d path rs" and path: "jsonl path"
  obtains d' where "removeFromFile path ids d =
      (Inr (int (length rs) - int (length (filter (\<lambda>r. ID (rec_Event r) \<notin> set ids) rs))), d')"
    "only_file path d d'" "holds d' path (filter (\<lambda>r. ID (rec_Event r) \<notin> set ids) rs)"
proof -
  let ?kept = "filter (\<lambda>r. ID (rec_Event r) \<notin> set ids) rs"
  have rd: "readRecords path d = (Inr rs, d)" using ok h by (rule readRecords_none)
  have le: "length ?kept \<le> length rs" by (rule length_filter_le)
  show ?thesis
  proof (cases "length rs - length ?kept = 0")
    case True
    then have "\<not> length ?kept < length rs" by simp
    then have "?kept = rs" by (metis filter_True length_filter_less)
    with True rd h ok that [of d] le show ?thesis by (simp add: removeFromFile_def Let_def)
  next
    case False
    have g: "list_all good_rec ?kept" using h by (auto simp: holds_def list_all_iff)
    obtain d' where d': "rewrite_file path ?kept d = (None, d')" "only_file path d d'" "holds d' path ?kept"
      using rewrite_none [OF ok g path] by blast
    have "removeFromFile path ids d = (Inr (int (length rs - length ?kept)), d')"
      using rd False d'(1) by (simp add: removeFromFile_def Let_def)
    with d'(2,3) le show ?thesis by (intro that [of d']) (simp_all add: of_nat_diff)
  qed
qed

section \<open>Paths\<close>

definition plain :: "string \<Rightarrow> bool" where
  "plain provider \<longleftrightarrow> \<not> suffix ''.poison'' provider"

lemma paths [simp]:
  "jsonl (regularPath p)" "jsonl (poisonPath p)"
  "regularPath p = regularPath q \<longleftrightarrow> p = q" "poisonPath p = poisonPath q \<longleftrightarrow> p = q"
  by (auto simp: regularPath_def poisonPath_def suffix_def)

lemma regular_poison: "regularPath p = poisonPath q \<longleftrightarrow> p = q @ ''.poison''"
proof -
  have "poisonPath q = (q @ ''.poison'') @ ''.jsonl''" by (simp add: poisonPath_def)
  then show ?thesis by (simp only: regularPath_def append_same_eq)
qed

lemma regular_not_poison [simp]: "plain p \<Longrightarrow> regularPath p \<noteq> poisonPath q"
  "plain p \<Longrightarrow> poisonPath q \<noteq> regularPath p" "regularPath p \<noteq> poisonPath p" "poisonPath p \<noteq> regularPath p"
  using regular_poison [of p q] regular_poison [of p p] by (auto simp: plain_def suffix_def)

lemma trim_append [simp]: "trim_suffix suf (x @ suf) = x"
  by (simp add: trim_suffix_def suffix_def)

lemma trim_none: "\<not> suffix suf x \<Longrightarrow> trim_suffix suf x = x"
  by (simp add: trim_suffix_def)

lemma file_provider_paths:
  "plain p \<Longrightarrow> file_provider (regularPath p) = p" "file_provider (poisonPath p) = p"
proof -
  have "poisonPath p = (p @ ''.poison'') @ ''.jsonl''" by (simp add: poisonPath_def)
  then show "file_provider (poisonPath p) = p" by (simp only: file_provider_def trim_append)
  show "plain p \<Longrightarrow> file_provider (regularPath p) = p"
    by (simp add: file_provider_def regularPath_def trim_none plain_def)
qed

lemma file_provider_iff:
  assumes "plain p" "jsonl name"
  shows "file_provider name = p \<longleftrightarrow> name = regularPath p \<or> name = poisonPath p"
proof -
  obtain base where base: "name = base @ ''.jsonl''" using assms(2) by (auto simp: suffix_def)
  show ?thesis
  proof (cases "suffix ''.poison'' base")
    case True
    then obtain q where "base = q @ ''.poison''" by (auto simp: suffix_def)
    then have n: "name = poisonPath q" by (simp add: base poisonPath_def)
    then show ?thesis using assms(1) by (auto simp: file_provider_paths)
  next
    case False
    then have n: "name = regularPath base" "plain base" by (simp_all add: base regularPath_def plain_def)
    then show ?thesis by (auto simp: file_provider_paths)
  qed
qed

section \<open>Put and Remove\<close>

lemma get0_update [simp]: "get0 (AList.update k v m) k' = (if k' = k then v else get0 m k')"
  by (simp add: get0_def)

lemma add_depth_simps [simp]:
  "dlq_Depth q (add_depth p n d) = dlq_Depth q d + (if q = p then n else 0)"
  "text_of (add_depth p n d) path = text_of d path" "open_ok (add_depth p n d) = open_ok d"
  "dlq_attempts (add_depth p n d) = dlq_attempts d" "recs (add_depth p n d) = recs d"
  by (simp_all add: add_depth_def dlq_Depth_def text_of_def open_ok_def recs_def fun_eq_iff)

lemma holds_cong: "text_of d' path = text_of d path \<Longrightarrow> holds d' path rs = holds d path rs"
  by (simp add: holds_def)

lemma recs_cong: "text_of d' path = text_of d path \<Longrightarrow> recs d' path = recs d path"
  by (simp add: recs_def)

lemma dlq_ok_change:
  assumes "dlq_ok d" "only_file path d d'" "holds d' path rs"
  shows "dlq_ok d'" "recs d' path = rs" "\<And>q. jsonl q \<Longrightarrow> q \<noteq> path \<Longrightarrow> recs d' q = recs d q"
proof -
  show r: "recs d' path = rs" using assms(3) by (rule holds_recs)
  show o: "recs d' q = recs d q" if "jsonl q" "q \<noteq> path" for q
    using assms(2) that by (intro recs_cong) (simp add: only_file_def)
  have "holds d' q (recs d' q)" if "jsonl q" for q
  proof (cases "q = path")
    case False
    with that assms(2) have "text_of d' q = text_of d q" by (simp add: only_file_def)
    then show ?thesis
      using assms(1) that o [OF that False] by (simp add: dlq_ok_def holds_cong [of d' q d])
  qed (use assms(3) r in simp)
  then show "dlq_ok d'" using assms(2) by (simp add: dlq_ok_def only_file_def)
qed

definition attempts_of :: "dlq \<Rightarrow> string \<Rightarrow> string \<Rightarrow> int" where
  "attempts_of d p i = get0 (get_map (dlq_attempts d) p) i"

definition put_record :: "gotime \<Rightarrow> string \<Rightarrow> Event \<Rightarrow> string \<Rightarrow> bool \<Rightarrow> dlq \<Rightarrow> dlq_record" where
  "put_record now p e reason permanent d =
     (let n = attempts_of d p (ID e) + 1 in
      \<lparr>rec_Provider = p, rec_Event = e, rec_Reason = reason, rec_Timestamp = time_UTC now,
       rec_Attempts = n, rec_Poisoned = (n \<ge> poison_threshold permanent)\<rparr>)"

definition without :: "string list \<Rightarrow> dlq_record list \<Rightarrow> dlq_record list" where
  "without ids rs = filter (\<lambda>r. ID (rec_Event r) \<notin> set ids) rs"

lemma get_map_update [simp]: "get_map (AList.update k v m) k' = (if k' = k then v else get_map m k')"
  by (simp add: get_map_def)

lemma bump_none:
  assumes "bump_attempts p i d = (n, d')"
  shows "n = attempts_of d p i + 1" "only_file path d (d'\<lparr>dlq_attempts := dlq_attempts d\<rparr>) = open_ok d"
    "attempts_of d' q j = attempts_of d q j + (if q = p \<and> j = i then 1 else 0)"
    "text_of d' path = text_of d path" "open_ok d' = open_ok d" "dlq_Depth q d' = dlq_Depth q d"
  using assms
  by (auto simp: bump_attempts_def Let_def attempts_of_def only_file_def open_ok_def text_of_def dlq_Depth_def)

lemma dlq_ok_cong:
  assumes "dlq_ok d" "open_ok d'" "\<And>path. text_of d' path = text_of d path"
  shows "dlq_ok d'" "recs d' = recs d"
proof -
  show r: "recs d' = recs d" using assms(3) by (intro ext recs_cong)
  show "dlq_ok d'" using assms r by (simp add: dlq_ok_def holds_cong [of d' _ d])
qed

text \<open>What a call that rewrites or extends one file leaves behind: that file holds \<open>rs\<close>, every other
  record file and both counters are as before.\<close>

definition touches :: "string \<Rightarrow> dlq_record list \<Rightarrow> dlq \<Rightarrow> dlq \<Rightarrow> bool" where
  "touches path rs d d' \<longleftrightarrow> dlq_ok d' \<and> recs d' path = rs \<and> (\<forall>q. jsonl q \<longrightarrow> q \<noteq> path \<longrightarrow> recs d' q = recs d q)
     \<and> dlq_depth d' = dlq_depth d \<and> dlq_attempts d' = dlq_attempts d"

lemma touches_file:
  assumes "dlq_ok d" "only_file path d d'" "holds d' path rs"
  shows "touches path rs d d'"
  using dlq_ok_change [OF assms] assms(2) by (simp add: touches_def only_file_def)

lemma touches_counts:
  assumes "touches path rs d d'"
  shows "dlq_Depth p d' = dlq_Depth p d" "attempts_of d' p i = attempts_of d p i"
  using assms by (simp_all add: touches_def dlq_Depth_def attempts_of_def)

lemma append_touches:
  assumes ok: "dlq_ok d" and path: "jsonl path" and g: "good_rec r"
  obtains d' where "appendRecord path r d = (None, d')" "touches path (recs d path @ [r]) d d'"
proof -
  have "open_ok d" "holds d path (recs d path)" using ok path by (simp_all add: dlq_ok_def)
  then show ?thesis using appendRecord_none [OF _ _ g] touches_file [OF ok] that by metis
qed

lemma remove_touches:
  assumes ok: "dlq_ok d" and path: "jsonl path"
  obtains d' where "removeFromFile path ids d =
      (Inr (int (length (recs d path)) - int (length (without ids (recs d path)))), d')"
    "touches path (without ids (recs d path)) d d'"
proof -
  have "open_ok d" "holds d path (recs d path)" using ok path by (simp_all add: dlq_ok_def)
  then obtain d' where "removeFromFile path ids d =
      (Inr (int (length (recs d path)) - int (length (without ids (recs d path)))), d')"
    "only_file path d d'" "holds d' path (without ids (recs d path))"
    unfolding without_def using removeFromFile_none [OF _ _ path, of d "recs d path" ids] by auto
  then show ?thesis using touches_file [OF ok] that by metis
qed

lemma ok_add_depth [simp]:
  "dlq_ok (add_depth p n d) = dlq_ok d" "recs (add_depth p n d) = recs d"
  "attempts_of (add_depth p n d) q j = attempts_of d q j"
proof -
  have "recs (add_depth p n d) = recs d" by (intro ext recs_cong) simp
  moreover have "holds (add_depth p n d) path rs = holds d path rs" for path rs by (rule holds_cong) simp
  ultimately show "recs (add_depth p n d) = recs d" "dlq_ok (add_depth p n d) = dlq_ok d"
    "attempts_of (add_depth p n d) q j = attempts_of d q j"
    by (simp_all add: dlq_ok_def attempts_of_def)
qed

lemma Put_none:
  assumes ok: "dlq_ok d" and g: "good_rec (put_record now p e reason permanent d)"
  obtains d' where "dlq_Put now p e reason permanent d = (None, d')" "dlq_ok d'"
    "recs d' (regularPath p) =
       (if rec_Poisoned (put_record now p e reason permanent d) then without [ID e] (recs d (regularPath p))
        else recs d (regularPath p) @ [put_record now p e reason permanent d])"
    "recs d' (poisonPath p) =
       (if rec_Poisoned (put_record now p e reason permanent d)
        then recs d (poisonPath p) @ [put_record now p e reason permanent d] else recs d (poisonPath p))"
    "\<forall>q. jsonl q \<longrightarrow> q \<noteq> regularPath p \<longrightarrow> q \<noteq> poisonPath p \<longrightarrow> recs d' q = recs d q"
    "\<forall>q j. attempts_of d' q j = attempts_of d q j + (if q = p \<and> j = ID e then 1 else 0)"
    "\<forall>q. dlq_Depth q d' = dlq_Depth q d + (if q = p then
       int (length (recs d' (regularPath p)) + length (recs d' (poisonPath p)))
       - int (length (recs d (regularPath p)) + length (recs d (poisonPath p))) else 0)"
proof -
  let ?r = "put_record now p e reason permanent d"
  obtain n d1 where b: "bump_attempts p (ID e) d = (n, d1)" by fastforce
  note bn = bump_none [OF b]
  have ok1: "dlq_ok d1" and r1: "recs d1 = recs d"
    using dlq_ok_cong [OF ok, of d1] bn(4,5) ok by (simp_all add: dlq_ok_def)
  have rr: "?r = \<lparr>rec_Provider = p, rec_Event = e, rec_Reason = reason, rec_Timestamp = time_UTC now,
      rec_Attempts = n, rec_Poisoned = (n \<ge> poison_threshold permanent)\<rparr>"
    by (simp add: put_record_def bn(1) Let_def)
  show ?thesis
  proof (cases "rec_Poisoned ?r")
    case False
    obtain d2 where d2: "appendRecord (regularPath p) ?r d1 = (None, d2)"
      "touches (regularPath p) (recs d (regularPath p) @ [?r]) d1 d2"
      using append_touches [OF ok1 _ g, of "regularPath p"] r1 by auto
    have "dlq_Put now p e reason permanent d = (None, add_depth p 1 d2)"
      using False d2(1) b by (simp add: dlq_Put_def Let_def rr)
    then show ?thesis
      using False d2(2) r1 bn(3,6) touches_counts [OF d2(2)]
      by (intro that [of "add_depth p 1 d2"]) (simp_all add: touches_def)
  next
    case True
    let ?k = "int (length (recs d (regularPath p))) - int (length (without [ID e] (recs d (regularPath p))))"
    obtain d2 where d2: "removeFromFile (regularPath p) [ID e] d1 = (Inr ?k, d2)"
      "touches (regularPath p) (without [ID e] (recs d (regularPath p))) d1 d2"
      using remove_touches [OF ok1, of "regularPath p" "[ID e]"] r1 by auto
    let ?d3 = "add_depth p (- ?k) d2"
    have ok3: "dlq_ok ?d3" "recs ?d3 (poisonPath p) = recs d (poisonPath p)"
      using d2(2) r1 by (simp_all add: touches_def)
    obtain d4 where d4: "appendRecord (poisonPath p) ?r ?d3 = (None, d4)"
      "touches (poisonPath p) (recs d (poisonPath p) @ [?r]) ?d3 d4"
      using append_touches [OF ok3(1) _ g, of "poisonPath p"] ok3(2) by auto
    have "dlq_Put now p e reason permanent d = (None, add_depth p 1 d4)"
      using True d2(1) d4(1) b by (simp add: dlq_Put_def Let_def rr)
    then show ?thesis
      using True d2(2) d4(2) r1 bn(3,6) touches_counts [OF d2(2)] touches_counts [OF d4(2)]
      by (intro that [of "add_depth p 1 d4"]) (simp_all add: touches_def)
  qed
qed

lemma Remove_none:
  assumes ok: "dlq_ok d" and ids: "ids \<noteq> []"
    and dep: "dlq_Depth p d = int (length (recs d (regularPath p)) + length (recs d (poisonPath p)))"
  obtains d' where "dlq_Remove p ids d = (None, d')" "dlq_ok d'"
    "recs d' (regularPath p) = without ids (recs d (regularPath p))"
    "recs d' (poisonPath p) = without ids (recs d (poisonPath p))"
    "\<forall>q. jsonl q \<longrightarrow> q \<noteq> regularPath p \<longrightarrow> q \<noteq> poisonPath p \<longrightarrow> recs d' q = recs d q"
    "\<forall>q j. attempts_of d' q j = attempts_of d q j"
    "\<forall>q. dlq_Depth q d' = (if q = p
       then int (length (recs d' (regularPath p)) + length (recs d' (poisonPath p))) else dlq_Depth q d)"
proof -
  let ?R = "recs d (regularPath p)" and ?P = "recs d (poisonPath p)"
  obtain d1 where d1: "removeFromFile (regularPath p) ids d =
      (Inr (int (length ?R) - int (length (without ids ?R))), d1)"
    "touches (regularPath p) (without ids ?R) d d1"
    using remove_touches [OF ok, of "regularPath p" ids] by auto
  have ok1: "dlq_ok d1" and P: "recs d1 (poisonPath p) = ?P"
    using d1(2) by (simp_all add: touches_def)
  obtain d2 where d2: "removeFromFile (poisonPath p) ids d1 =
      (Inr (int (length ?P) - int (length (without ids ?P))), d2)"
    "touches (poisonPath p) (without ids ?P) d1 d2"
    using remove_touches [OF ok1, of "poisonPath p" ids] P by auto
  let ?n = "int (length ?R) - int (length (without ids ?R)) + (int (length ?P) - int (length (without ids ?P)))"
  let ?d' = "add_depth p (- ?n) d2"
  note cnt = touches_counts [OF d1(2)] touches_counts [OF d2(2)]
  have dep': "dlq_Depth p ?d' = int (length (without ids ?R) + length (without ids ?P))"
    using cnt dep by simp
  then have "\<not> get0 (dlq_depth ?d') p < 0" by (simp add: dlq_Depth_def)
  then have "dlq_Remove p ids d = (None, ?d')"
    using ids d1(1) d2(1) by (simp add: dlq_Remove_def Let_def)
  then show ?thesis
    using d1(2) d2(2) dep' cnt by (intro that [of ?d']) (simp_all add: touches_def)
qed

text \<open>The depth the metric reports is the number of records on disk.\<close>

definition depth_exact :: "dlq \<Rightarrow> bool" where
  "depth_exact d \<longleftrightarrow> (\<forall>p. plain p \<longrightarrow>
     dlq_Depth p d = int (length (recs d (regularPath p)) + length (recs d (poisonPath p))))"

lemma other_paths: "plain p \<Longrightarrow> plain q \<Longrightarrow> q \<noteq> p \<Longrightarrow>
    regularPath q \<noteq> regularPath p \<and> regularPath q \<noteq> poisonPath p
  \<and> poisonPath q \<noteq> regularPath p \<and> poisonPath q \<noteq> poisonPath p"
  by simp

section \<open>Opening\<close>

lemma note_record_simps [simp]:
  "text_of (note_record p r d) path = text_of d path" "open_ok (note_record p r d) = open_ok d"
  "dlq_Depth q (note_record p r d) = dlq_Depth q d + (if q = p then 1 else 0)"
  by (simp_all add: note_record_def Let_def text_of_def open_ok_def dlq_Depth_def add_depth_def)

lemma note_record_attempts:
  "attempts_of (note_record p r d) q j =
     (if q = p \<and> j = ID (rec_Event r) then max (attempts_of d q j) (rec_Attempts r) else attempts_of d q j)"
  by (simp add: note_record_def Let_def attempts_of_def add_depth_def max_def)

definition max_attempts :: "string \<Rightarrow> dlq_record list \<Rightarrow> int" where
  "max_attempts i rs = fold (\<lambda>r n. if ID (rec_Event r) = i then max n (rec_Attempts r) else n) rs 0"

lemma max_attempts_fold:
  "fold (\<lambda>r n. if ID (rec_Event r) = i then max n (rec_Attempts r) else n) rs (max a b) =
     max a (fold (\<lambda>r n. if ID (rec_Event r) = i then max n (rec_Attempts r) else n) rs b)"
  by (induction rs arbitrary: b) (simp_all add: max.assoc)

lemma note_records:
  "text_of (fold (note_record p) rs d) path = text_of d path"
  "open_ok (fold (note_record p) rs d) = open_ok d"
  "dlq_Depth q (fold (note_record p) rs d) = dlq_Depth q d + (if q = p then int (length rs) else 0)"
  by (induction rs arbitrary: d) simp_all

lemma note_records_attempts:
  "0 \<le> attempts_of d q j \<Longrightarrow> attempts_of (fold (note_record p) rs d) q j =
     (if q = p then max (attempts_of d q j) (max_attempts j rs) else attempts_of d q j)"
proof (induction rs arbitrary: d)
  case (Cons r rs)
  have "max_attempts j (r # rs) =
      (if ID (rec_Event r) = j then max (max 0 (rec_Attempts r)) (max_attempts j rs) else max_attempts j rs)"
    using max_attempts_fold [of j rs "max 0 (rec_Attempts r)" 0]
    by (simp add: max_attempts_def max.commute max.left_commute)
  moreover have "0 \<le> attempts_of (note_record p r d) q j"
    using Cons.prems by (auto simp: note_record_attempts)
  ultimately show ?case
    using Cons.IH [of "note_record p r d"] Cons.prems by (auto simp: note_record_attempts; linarith)
qed (auto simp: max_attempts_def)

lemma known_provider_simps [simp]:
  "text_of (known_provider q d) path = text_of d path" "open_ok (known_provider q d) = open_ok d"
  "dlq_Depth p (known_provider q d) = dlq_Depth p d"
  "attempts_of (known_provider q d) p i = attempts_of d p i"
  by (auto simp: known_provider_def text_of_def open_ok_def dlq_Depth_def attempts_of_def
      get_map_def get0_def)

text \<open>A scan adds to the counters of a provider what its files hold.\<close>

lemma scan_none:
  "dlq_ok d \<Longrightarrow> distinct names \<Longrightarrow> plain p \<Longrightarrow> 0 \<le> attempts_of d p i \<Longrightarrow>
     \<exists>d'. scan_files names d = (None, d') \<and> dlq_ok d' \<and> recs d' = recs d
       \<and> dlq_Depth p d' = dlq_Depth p d
           + (if regularPath p \<in> set names then int (length (recs d (regularPath p))) else 0)
           + (if poisonPath p \<in> set names then int (length (recs d (poisonPath p))) else 0)
       \<and> attempts_of d' p i = max (attempts_of d p i) (max
           (if regularPath p \<in> set names then max_attempts i (recs d (regularPath p)) else 0)
           (if poisonPath p \<in> set names then max_attempts i (recs d (poisonPath p)) else 0))"
proof (induction names arbitrary: d)
  case (Cons name names)
  show ?case
  proof (cases "jsonl name")
    case False
    then have "name \<noteq> regularPath p" "name \<noteq> poisonPath p" by auto
    with False Cons show ?thesis by simp
  next
    case True
    let ?q = "file_provider name" and ?rs = "recs d name"
    let ?d2 = "known_provider ?q d"
    let ?d3 = "fold (note_record ?q) ?rs ?d2"
    have o: "open_ok d" and h: "holds d name ?rs" using Cons.prems(1) True by (simp_all add: dlq_ok_def)
    have rd: "readRecords name d = (Inr ?rs, d)" using o h by (rule readRecords_none)
    note d2 = known_provider_simps
    have ok3: "dlq_ok ?d3" and r3: "recs ?d3 = recs d"
      using dlq_ok_cong [OF Cons.prems(1), of ?d3] o by (simp_all only: note_records d2)
    have a3: "attempts_of ?d3 p i = (if p = ?q then max (attempts_of d p i) (max_attempts i ?rs)
        else attempts_of d p i)"
      using note_records_attempts [of ?d2 p i ?q ?rs] Cons.prems(4) d2(4) by simp
    have dep3: "dlq_Depth p ?d3 = dlq_Depth p d + (if p = ?q then int (length ?rs) else 0)"
      by (simp only: note_records d2)
    have nn: "0 \<le> attempts_of ?d3 p i" using a3 Cons.prems(4) by (simp split: if_splits)
    have step: "scan_files (name # names) d = scan_files names ?d3"
      using True rd by (simp add: Let_def)
    have q: "p = ?q \<longleftrightarrow> name = regularPath p \<or> name = poisonPath p"
      using file_provider_iff [OF Cons.prems(3) True] by auto
    have dist: "distinct names" "name \<notin> set names" using Cons.prems(2) by simp_all
    show ?thesis
      using Cons.IH [OF ok3 dist(1) Cons.prems(3) nn] dist(2) Cons.prems(3,4)
      unfolding step r3 a3 dep3 q by (auto simp: max.commute max.left_commute; linarith)
  qed
qed (simp add: max_def)

text \<open>The state \<^verbatim>\<open>Open\<close> starts from: the files as they are, nothing open, nothing counted.\<close>

abbreviation fresh_dlq :: "(string, string) gomap \<Rightarrow> dlq" where
  "fresh_dlq fs \<equiv> \<lparr>dlq_files = fs, dlq_faults = [], handles = [], dlq_depth = [], dlq_attempts = []\<rparr>"

lemma fresh_ok:
  assumes "\<forall>path t. jsonl path \<longrightarrow> map_of fs path = Some t \<longrightarrow> (\<exists>rs. t = lines_of rs \<and> list_all good_rec rs)"
  shows "dlq_ok (fresh_dlq fs)"
proof -
  have "holds (fresh_dlq fs) path (recs (fresh_dlq fs) path)" if "jsonl path" for path
  proof (cases "map_of fs path")
    case None
    then have "holds (fresh_dlq fs) path []" by (simp add: holds_def text_of_def)
    then show ?thesis by (metis holds_recs)
  next
    case (Some t)
    with assms that obtain rs where "t = lines_of rs" "list_all good_rec rs" by blast
    with Some have "holds (fresh_dlq fs) path rs" by (simp add: holds_def text_of_def)
    then show ?thesis by (metis holds_recs)
  qed
  then show ?thesis by (simp add: dlq_ok_def open_ok_def)
qed

lemma Open_none:
  assumes mo: "map_ok fs" and g: "\<forall>path t. jsonl path \<longrightarrow> map_of fs path = Some t \<longrightarrow>
      (\<exists>rs. t = lines_of rs \<and> list_all good_rec rs)"
  obtains d where "dlq_Open fs [] = Inr d" "dlq_ok d" "depth_exact d"
    "recs d = recs (fresh_dlq fs)"
    "\<forall>p i. plain p \<longrightarrow> attempts_of d p i =
       max (max_attempts i (recs d (regularPath p))) (max_attempts i (recs d (poisonPath p)))"
proof -
  let ?d0 = "fresh_dlq fs"
  have o: "open_ok ?d0" by (simp add: open_ok_def)
  have ok0: "dlq_ok ?d0" using g by (rule fresh_ok)
  have dist: "distinct (map fst fs)" using mo by (simp add: map_ok_def)
  have none: "recs ?d0 path = []" if "path \<notin> set (map fst fs)" for path
  proof -
    have "map_of fs path = None" using that by (simp add: map_of_eq_None_iff)
    then show ?thesis by (simp add: recs_def text_of_def)
  qed
  obtain d where d: "scan_files (map fst fs) ?d0 = (None, d)" "dlq_ok d" "recs d = recs ?d0"
    using scan_none [OF ok0 dist, of "[]" "[]"] by (auto simp: plain_def attempts_of_def get_map_def get0_def)
  have "plain p \<Longrightarrow> dlq_Depth p d = int (length (recs d (regularPath p)) + length (recs d (poisonPath p)))
      \<and> attempts_of d p i = max (max_attempts i (recs d (regularPath p))) (max_attempts i (recs d (poisonPath p)))"
    for p i
  proof -
    assume p: "plain p"
    have a0: "attempts_of ?d0 p i = 0" "dlq_Depth p ?d0 = 0"
      by (simp_all add: attempts_of_def get_map_def get0_def dlq_Depth_def)
    have nn: "0 \<le> max_attempts i rs" for rs
      using max_attempts_fold [of i rs 0 0] by (simp add: max_attempts_def max_def split: if_splits)
    have m0: "max_attempts i [] = 0" by (simp add: max_attempts_def)
    show ?thesis
      using scan_none [OF ok0 dist p, of i] d(1) a0 nn none m0
      unfolding d(3) by (auto simp: max_def)
  qed
  moreover have "dlq_Open fs [] = Inr d"
    using d(1) dlq_call_none [OF o] by (simp add: dlq_Open_def Let_def)
  ultimately show ?thesis
    using d(2,3) by (intro that [of d]) (simp_all add: depth_exact_def)
qed

end
