(* ===== verification/Dispatcher.thy ===== *)
theory Dispatcher
  imports Adapters
begin

text \<open>
  internal/dispatcher/dispatcher.go: fan-out to one queue per provider. A
  dispatcher is the map from provider names to queues; \<open>enq\<close> is the \<^verbatim>\<open>Enqueue\<close>
  method of a queue. Replay returns the lines it logs.
\<close>

fun Dispatch ::
  "(Event \<Rightarrow> 'q \<Rightarrow> 'q) \<Rightarrow> Event \<Rightarrow> string list \<Rightarrow> (string, 'q) gomap
    \<Rightarrow> go_error option \<times> (string, 'q) gomap" where
  "Dispatch enq e [] qs = (None, qs)"
| "Dispatch enq e (p # ps) qs =
     (case map_of qs p of
        None \<Rightarrow> (Some (GoError (''dispatcher: unknown provider '' @ str_text p)), qs)
      | Some q \<Rightarrow> Dispatch enq e ps (AList.update p (enq e q) qs))"

fun replay_entry ::
  "(Event \<Rightarrow> 'q \<Rightarrow> 'q) \<Rightarrow> Event \<Rightarrow> string list \<Rightarrow> string list \<times> (string, 'q) gomap
    \<Rightarrow> string list \<times> (string, 'q) gomap" where
  "replay_entry enq e [] st = st"
| "replay_entry enq e (p # ps) (logs, qs) =
     (case map_of qs p of
        None \<Rightarrow> replay_entry enq e ps
          (logs @ [''dispatcher: skipping replay of event '' @ str_text (ID e)
             @ '' for unknown provider '' @ str_text p @ ''; leaving it pending in the WAL''], qs)
      | Some q \<Rightarrow> replay_entry enq e ps (logs, AList.update p (enq e q) qs))"

definition ReplayPending ::
  "(Event \<Rightarrow> 'q \<Rightarrow> 'q) \<Rightarrow> (Event \<times> string list) list \<Rightarrow> (string, 'q) gomap
    \<Rightarrow> string list \<times> (string, 'q) gomap" where
  "ReplayPending enq entries qs = fold (\<lambda>(e, ps). replay_entry enq e ps) entries ([], qs)"

section \<open>What reaches each queue\<close>

text \<open>The events a list of entries sends to one provider, in order.\<close>

definition sent_to :: "string \<Rightarrow> (Event \<times> string list) list \<Rightarrow> Event list" where
  "sent_to p entries = concat (map (\<lambda>(e, ps). map (\<lambda>_. e) (filter ((=) p) ps)) entries)"

lemma sent_to_simps [simp]:
  "sent_to p [] = []"
  "sent_to p ((e, ps) # es) = map (\<lambda>_. e) (filter ((=) p) ps) @ sent_to p es"
  by (simp_all add: sent_to_def)

lemma Dispatch_known:
  "set ps \<subseteq> dom (map_of qs) \<Longrightarrow>
     fst (Dispatch enq e ps qs) = None
     \<and> map_of (snd (Dispatch enq e ps qs)) =
        (\<lambda>p. map_option (fold enq (map (\<lambda>_. e) (filter ((=) p) ps))) (map_of qs p))
     \<and> (map_ok qs \<longrightarrow> map_ok (snd (Dispatch enq e ps qs)))"
proof (induction ps arbitrary: qs)
  case (Cons p ps)
  then obtain q where q: "map_of qs p = Some q" by auto
  have "set ps \<subseteq> dom (map_of (AList.update p (enq e q) qs))" using Cons.prems by auto
  note IH = Cons.IH [OF this]
  show ?case using IH q by (auto simp: fun_eq_iff)
qed (simp add: fun_eq_iff option.map_id)

lemma Dispatch_dom: "dom (map_of (snd (Dispatch enq e ps qs))) = dom (map_of qs)"
  by (induction ps arbitrary: qs) (auto split: option.split)

lemma replay_entry_queues:
  "map_of (snd (replay_entry enq e ps (logs, qs))) =
     (\<lambda>p. map_option (fold enq (map (\<lambda>_. e) (filter ((=) p) ps))) (map_of qs p))
   \<and> (map_ok qs \<longrightarrow> map_ok (snd (replay_entry enq e ps (logs, qs))))
   \<and> length (fst (replay_entry enq e ps (logs, qs))) =
      length logs + length (filter (\<lambda>p. map_of qs p = None) ps)"
proof (induction ps arbitrary: logs qs)
  case (Cons p ps)
  show ?case
  proof (cases "map_of qs p")
    case None
    with Cons.IH show ?thesis by (auto simp: fun_eq_iff)
  next
    case (Some q)
    then have "(\<lambda>p'. map_of (AList.update p (enq e q) qs) p' = None) = (\<lambda>p'. map_of qs p' = None)"
      by (auto simp: fun_eq_iff)
    with Cons.IH [of logs "AList.update p (enq e q) qs"] Some show ?thesis
      by (auto simp: fun_eq_iff)
  qed
qed (simp add: fun_eq_iff option.map_id)

lemma ReplayPending_fold:
  "map_of (snd (fold (\<lambda>(e, ps). replay_entry enq e ps) entries (logs, qs))) =
     (\<lambda>p. map_option (fold enq (sent_to p entries)) (map_of qs p))
   \<and> (map_ok qs \<longrightarrow> map_ok (snd (fold (\<lambda>(e, ps). replay_entry enq e ps) entries (logs, qs))))"
proof (induction entries arbitrary: logs qs)
  case (Cons x entries)
  obtain e ps where x: "x = (e, ps)" by (cases x)
  obtain logs' qs' where r: "replay_entry enq e ps (logs, qs) = (logs', qs')" by fastforce
  then have "map_of qs' = (\<lambda>p. map_option (fold enq (map (\<lambda>_. e) (filter ((=) p) ps))) (map_of qs p))"
    "map_ok qs \<longrightarrow> map_ok qs'"
    using replay_entry_queues [of enq e ps logs qs] by simp_all
  with Cons.IH [of logs' qs'] show ?case
    by (auto simp: x r fun_eq_iff option.map_comp o_def)
qed (simp add: fun_eq_iff option.map_id)

end
