(* ===== verification/Receiver.thy ===== *)
theory Receiver
  imports Dispatcher
begin

text \<open>
  internal/receiver: validation, routing and durable hand-off of one request,
  whatever transport it came by (receiver.go, router.go), and the HTTP handler; gRPC is in \<open>Grpc\<close>. The sink is a
  function on its own state.
\<close>

section \<open>Routing (router.go)\<close>

record Rule =
  Rule_EventName :: string
  Rule_Providers :: "string list"

record StaticRouter =
  Default :: "string list"
  Rules :: "Rule list"

fun first_rule :: "Rule list \<Rightarrow> string \<Rightarrow> string list option" where
  "first_rule [] name = None"
| "first_rule (r # rs) name =
     (if Rule_EventName r = name then Some (Rule_Providers r) else first_rule rs name)"

definition StaticRouter_Route :: "StaticRouter \<Rightarrow> Event \<Rightarrow> string list" where
  "StaticRouter_Route r e =
     (case first_rule (Rules r) (EventName e) of Some ps \<Rightarrow> ps | None \<Rightarrow> Default r)"

section \<open>Ingest (receiver.go)\<close>

datatype ingest_error =
    ValidationError string
  | UnavailableError string

record receiver =
  rcv_Router :: "Event \<Rightarrow> string list"
  rcv_KnownProviders :: "string list option"

definition maxFutureTimestamp :: int where
  "maxFutureTimestamp = 24 * hour"

definition validate :: "Event \<Rightarrow> gotime \<Rightarrow> string option" where
  "validate e now =
     (if ID e = [] then Some ''event.id is required''
      else if CustomerID e = [] then Some ''event.customer_id is required''
      else if EventName e = [] then Some ''event.event_name is required''
      else if IsZero (Timestamp e) then Some ''event.timestamp is required''
      else if After (Timestamp e) (time_Add now maxFutureTimestamp)
      then Some ''event.timestamp is too far in the future''
      else None)"

definition enrich :: "Event \<Rightarrow> gotime \<Rightarrow> Event" where
  "enrich e now = e"

text \<open>The body of the first loop: where one event goes, or why it is refused.\<close>

definition route_event :: "receiver \<Rightarrow> gotime \<Rightarrow> Event \<Rightarrow> ingest_error + (Event \<times> string list)" where
  "route_event r now e =
     (case validate e now of
        Some msg \<Rightarrow> Inl (ValidationError msg)
      | None \<Rightarrow>
          (let e' = enrich e now;
               p = (if Route e' = [] then rcv_Router r e' else Route e')
           in if p = [] then Inl (ValidationError (''event '' @ str_text (ID e') @ '' (event_name=''
                   @ str_text (EventName e')
                   @ '') matches no provider route and no default route is configured''))
              else case rcv_KnownProviders r of
                None \<Rightarrow> Inr (e', p)
              | Some known \<Rightarrow>
                  (case List.find (\<lambda>name. name \<notin> set known) p of
                     Some name \<Rightarrow> Inl (ValidationError (''event '' @ str_text (ID e')
                       @ '' routes to unknown provider '' @ str_text name))
                   | None \<Rightarrow> Inr (e', p))))"

fun route_all :: "receiver \<Rightarrow> gotime \<Rightarrow> Event list \<Rightarrow> ingest_error + (Event \<times> string list) list" where
  "route_all r now [] = Inr []"
| "route_all r now (e # es) =
     (case route_event r now e of
        Inl err \<Rightarrow> Inl err
      | Inr x \<Rightarrow> (case route_all r now es of Inl err \<Rightarrow> Inl err | Inr xs \<Rightarrow> Inr (x # xs)))"

type_synonym 's sink = "Event \<Rightarrow> string list \<Rightarrow> 's \<Rightarrow> go_error option \<times> 's"

fun append_all :: "'s sink \<Rightarrow> (Event \<times> string list) list \<Rightarrow> 's \<Rightarrow> ingest_error option \<times> 's" where
  "append_all snk [] s = (None, s)"
| "append_all snk ((e, ps) # xs) s =
     (case snk e ps s of
        (Some err, s') \<Rightarrow>
          (Some (UnavailableError (''failed to durably persist event: '' @ error_text err)), s')
      | (None, s') \<Rightarrow> append_all snk xs s')"

text \<open>\<^verbatim>\<open>Ingest\<close>: the result, the sink after it, and what \<^verbatim>\<open>RecordEventsReceived\<close> adds.\<close>

definition Ingest ::
  "receiver \<Rightarrow> 's sink \<Rightarrow> gotime \<Rightarrow> Event list \<Rightarrow> 's \<Rightarrow> ingest_error option \<times> 's \<times> nat" where
  "Ingest r snk now es s =
     (if es = [] then (Some (ValidationError ''no events in request''), s, 0)
      else case route_all r now es of
        Inl err \<Rightarrow> (Some err, s, 0)
      | Inr xs \<Rightarrow>
          (case append_all snk xs s of
             (Some err, s') \<Rightarrow> (Some err, s', 0)
           | (None, s') \<Rightarrow> (None, s', length es)))"

section \<open>HTTP\<close>

definition decodeEvents :: "string \<Rightarrow> string + Event list" where
  "decodeEvents body =
     (case parse_value (length body) body of
        None \<Rightarrow> Inl ''invalid JSON body''
      | Some (raw, _) \<Rightarrow>
          (case events_of_json raw of
             Some es \<Rightarrow> Inr es
           | None \<Rightarrow>
               (case event_of_json raw of
                  Some e \<Rightarrow> Inr [e]
                | None \<Rightarrow> Inl ''body must be a single event object or an array of events'')))"

definition http_status :: "ingest_error option \<Rightarrow> int" where
  "http_status err =
     (case err of None \<Rightarrow> 202 | Some (ValidationError _) \<Rightarrow> 400 | Some (UnavailableError _) \<Rightarrow> 503)"

definition handleEvents ::
  "receiver \<Rightarrow> 's sink \<Rightarrow> gotime \<Rightarrow> string \<Rightarrow> 's \<Rightarrow> int \<times> 's" where
  "handleEvents r snk now body s =
     (case decodeEvents body of
        Inl msg \<Rightarrow> (400, s)
      | Inr es \<Rightarrow> (case Ingest r snk now es s of (err, s', _) \<Rightarrow> (http_status err, s')))"

section \<open>Validation and routing\<close>

definition routed :: "receiver \<Rightarrow> Event \<Rightarrow> string list" where
  "routed r e = (if Route e = [] then rcv_Router r e else Route e)"

text \<open>An event that may be persisted.\<close>

definition acceptable :: "receiver \<Rightarrow> gotime \<Rightarrow> Event \<Rightarrow> bool" where
  "acceptable r now e \<longleftrightarrow> ID e \<noteq> [] \<and> CustomerID e \<noteq> [] \<and> EventName e \<noteq> []
     \<and> \<not> IsZero (Timestamp e) \<and> \<not> After (Timestamp e) (time_Add now maxFutureTimestamp)
     \<and> routed r e \<noteq> []
     \<and> (\<forall>known. rcv_KnownProviders r = Some known \<longrightarrow> set (routed r e) \<subseteq> set known)"

lemma validate_None:
  "validate e now = None \<longleftrightarrow> ID e \<noteq> [] \<and> CustomerID e \<noteq> [] \<and> EventName e \<noteq> []
     \<and> \<not> IsZero (Timestamp e) \<and> \<not> After (Timestamp e) (time_Add now maxFutureTimestamp)"
  by (simp add: validate_def)

lemma find_unknown: "List.find (\<lambda>n. n \<notin> set known) p = None \<longleftrightarrow> set p \<subseteq> set known"
  by (auto simp: find_None_iff)

lemma route_event_Inr: "route_event r now e = Inr x \<longleftrightarrow> acceptable r now e \<and> x = (e, routed r e)"
proof (cases "validate e now")
  case (Some msg)
  then have "\<not> acceptable r now e" using validate_None [of e now] by (auto simp: acceptable_def)
  with Some show ?thesis by (simp add: route_event_def)
next
  case None
  then have a: "acceptable r now e \<longleftrightarrow> routed r e \<noteq> []
      \<and> (\<forall>known. rcv_KnownProviders r = Some known \<longrightarrow> set (routed r e) \<subseteq> set known)"
    unfolding acceptable_def validate_None by blast
  have e: "route_event r now e =
      (if routed r e = [] then Inl (ValidationError (''event '' @ str_text (ID e) @ '' (event_name=''
                   @ str_text (EventName e)
                   @ '') matches no provider route and no default route is configured''))
       else case rcv_KnownProviders r of
          None \<Rightarrow> Inr (e, routed r e)
        | Some known \<Rightarrow> (case List.find (\<lambda>name. name \<notin> set known) (routed r e) of
             Some name \<Rightarrow> Inl (ValidationError (''event '' @ str_text (ID e)
               @ '' routes to unknown provider '' @ str_text name))
           | None \<Rightarrow> Inr (e, routed r e)))"
    by (simp only: route_event_def None option.case enrich_def Let_def routed_def)
  show ?thesis
  proof (cases "rcv_KnownProviders r")
    case None
    then show ?thesis unfolding e a by auto
  next
    case (Some known)
    then show ?thesis
      unfolding e a using find_unknown [of known "routed r e"]
      by (cases "List.find (\<lambda>name. name \<notin> set known) (routed r e)") auto
  qed
qed

lemma route_event_Inl: "route_event r now e = Inl err \<Longrightarrow> \<exists>msg. err = ValidationError msg"
  by (auto simp: route_event_def Let_def split: option.splits if_splits)

lemma route_all_Inr:
  "route_all r now es = Inr xs \<longleftrightarrow>
     list_all (acceptable r now) es \<and> xs = map (\<lambda>e. (e, routed r e)) es"
proof (induction es arbitrary: xs)
  case (Cons e es)
  show ?case
  proof (cases "route_event r now e")
    case (Inl err)
    then have "\<not> acceptable r now e" using route_event_Inr [of r now e "(e, routed r e)"] by auto
    with Inl show ?thesis by simp
  next
    case (Inr x)
    then have "acceptable r now e" "x = (e, routed r e)" by (simp_all add: route_event_Inr)
    with Inr Cons.IH show ?thesis
      by (cases "route_all r now es") auto
  qed
qed auto

lemma route_all_Inl: "route_all r now es = Inl err \<Longrightarrow> \<exists>msg. err = ValidationError msg"
  by (induction es) (auto dest: route_event_Inl split: sum.splits)

lemma append_all_error: "append_all snk xs s = (Some err, s') \<Longrightarrow> \<exists>msg. err = UnavailableError msg"
  by (induction snk xs s rule: append_all.induct) (auto split: prod.splits option.splits)

lemma Ingest_refused:
  "Ingest r snk now es s = (Some (ValidationError msg), s', n) \<Longrightarrow>
     s' = s \<and> n = 0 \<and> \<not> (es \<noteq> [] \<and> list_all (acceptable r now) es)"
proof (cases "route_all r now es")
  case (Inl err)
  moreover assume "Ingest r snk now es s = (Some (ValidationError msg), s', n)"
  ultimately show ?thesis
    using route_all_Inr [of r now es] by (auto simp: Ingest_def split: if_splits)
next
  case (Inr xs)
  moreover assume "Ingest r snk now es s = (Some (ValidationError msg), s', n)"
  ultimately show ?thesis
    by (auto simp: Ingest_def dest: append_all_error split: if_splits prod.splits option.splits)
qed

lemma Ingest_routed:
  "Ingest r snk now es s = (err, s', n) \<Longrightarrow> (\<And>msg. err \<noteq> Some (ValidationError msg)) \<Longrightarrow>
     es \<noteq> [] \<and> list_all (acceptable r now) es \<and> n = (if err = None then length es else 0)
     \<and> append_all snk (map (\<lambda>e. (e, routed r e)) es) s = (err, s')"
proof (cases "route_all r now es")
  case (Inl err')
  moreover assume "Ingest r snk now es s = (err, s', n)" "\<And>msg. err \<noteq> Some (ValidationError msg)"
  ultimately show ?thesis
    using route_all_Inl [OF Inl] by (auto simp: Ingest_def split: if_splits)
next
  case (Inr xs)
  then have "list_all (acceptable r now) es" "xs = map (\<lambda>e. (e, routed r e)) es"
    by (simp_all add: route_all_Inr)
  moreover assume "Ingest r snk now es s = (err, s', n)" "\<And>msg. err \<noteq> Some (ValidationError msg)"
  ultimately show ?thesis
    using Inr by (auto simp: Ingest_def split: if_splits prod.splits option.splits)
qed

section \<open>The books\<close>

text \<open>What the books say of each ID once a list of events is on them: the last append counts.\<close>

definition book :: "(Event \<times> string list) list \<Rightarrow> (string \<Rightarrow> (Event \<times> string list) option)
    \<Rightarrow> (string \<Rightarrow> (Event \<times> string list) option)" where
  "book xs m = fold (\<lambda>(e, ps) m. m(ID e \<mapsto> (e, remdups ps))) xs m"

lemma book_simps [simp]:
  "book [] m = m" "book ((e, ps) # xs) m = book xs (m(ID e \<mapsto> (e, remdups ps)))"
  by (simp_all add: book_def)

lemma book_other: "i \<notin> (ID \<circ> fst) ` set xs \<Longrightarrow> book xs m i = m i"
  by (induction xs arbitrary: m) auto

lemma book_event:
  "distinct (map (ID \<circ> fst) xs) \<Longrightarrow> (e, ps) \<in> set xs \<Longrightarrow> book xs m (ID e) = Some (e, remdups ps)"
proof (induction xs arbitrary: m)
  case (Cons x xs)
  obtain e' ps' where x: "x = (e', ps')" by (cases x)
  show ?case
  proof (cases "(e, ps) \<in> set xs")
    case True
    with Cons show ?thesis by (simp add: x)
  next
    case False
    then have "e' = e" "ps' = ps" using Cons.prems(2) by (simp_all add: x)
    moreover have "ID e \<notin> (ID \<circ> fst) ` set xs"
      using Cons.prems(1) calculation by (simp add: x)
    ultimately show ?thesis by (simp add: x book_other)
  qed
qed simp

section \<open>What the receiver relies on\<close>

text \<open>
  The \<^verbatim>\<open>Sink\<close> contract: an append that succeeds has put the event on the books for
  its providers; one that fails has done so or has changed nothing.
\<close>

locale durable_sink =
  fixes snk :: "'s sink" and books :: "'s \<Rightarrow> string \<Rightarrow> (Event \<times> string list) option"
    and ready :: "'s \<Rightarrow> bool"
  assumes append_ok: "ready s \<Longrightarrow> snk e ps s = (None, s') \<Longrightarrow>
      ready s' \<and> books s' = (books s)(ID e \<mapsto> (e, remdups ps))"
    and append_failed: "ready s \<Longrightarrow> snk e ps s = (Some err, s') \<Longrightarrow>
      ready s' \<and> books s' \<in> {books s, (books s)(ID e \<mapsto> (e, remdups ps))}"
begin

lemma append_all_ok:
  "append_all snk xs s = (None, s') \<Longrightarrow> ready s \<Longrightarrow> ready s' \<and> books s' = book xs (books s)"
proof (induction xs arbitrary: s)
  case (Cons x xs)
  obtain e ps where x: "x = (e, ps)" by (cases x)
  obtain s1 where a: "snk e ps s = (None, s1)" "append_all snk xs s1 = (None, s')"
    using Cons.prems(1) by (auto simp: x split: prod.splits option.splits)
  note b = append_ok [OF Cons.prems(2) a(1)]
  show ?case using Cons.IH [OF a(2)] b by (simp add: x del: fun_upd_apply)
qed simp

lemma append_all_prefix:
  "append_all snk xs s = (res, s') \<Longrightarrow> ready s \<Longrightarrow>
     ready s' \<and> (\<exists>k \<le> length xs. books s' = book (take k xs) (books s))"
proof (induction xs arbitrary: s)
  case (Cons x xs)
  obtain e ps where x: "x = (e, ps)" by (cases x)
  obtain err s1 where a: "snk e ps s = (err, s1)" by fastforce
  show ?case
  proof (cases err)
    case None
    with Cons.prems(1) a have rest: "append_all snk xs s1 = (res, s')" by (simp add: x)
    note b = append_ok [OF Cons.prems(2) a [unfolded None]]
    obtain k where "k \<le> length xs" "books s' = book (take k xs) (books s1)" "ready s'"
      using Cons.IH [OF rest] b by blast
    then show ?thesis using b by (intro conjI exI [of _ "Suc k"]) (simp_all add: x)
  next
    case (Some er)
    then have "s' = s1" using Cons.prems(1) a by (simp add: x)
    with append_failed [OF Cons.prems(2) a [unfolded Some]] consider
      "ready s'" "books s' = books s" | "ready s'" "books s' = (books s)(ID e \<mapsto> (e, remdups ps))"
      by blast
    then show ?thesis
    proof cases
      case 1
      then show ?thesis by (intro conjI exI [of _ 0]) simp_all
    next
      case 2
      then show ?thesis by (intro conjI exI [of _ 1]) (simp_all add: x)
    qed
  qed
qed auto

end

end
