(* ===== verification/Admin.thy ===== *)
theory Admin
  imports Dlq_Spec Receiver
begin

text \<open>
  The admin endpoints: internal/dlqreplay (re-inject dead-lettered events),
  internal/dlqshow and internal/status, each a function of the request and of the
  state its \<^verbatim>\<open>Store\<close> and \<^verbatim>\<open>Sink\<close> work on.
\<close>

section \<open>Requests and stores\<close>

record admin_request =
  rq_Method :: string
  rq_provider :: string
  rq_include_poison :: string

record 's store =
  st_List :: "string \<Rightarrow> 's \<Rightarrow> (go_error + dlq_record list) \<times> 's"
  st_ListPoison :: "string \<Rightarrow> 's \<Rightarrow> (go_error + dlq_record list) \<times> 's"
  st_Remove :: "string \<Rightarrow> string list \<Rightarrow> 's \<Rightarrow> go_error option \<times> 's"

text \<open>A response: a status with, on success, a body.\<close>

datatype 'b response = Failure int | Success 'b

text \<open>The checks both DLQ endpoints open with.\<close>

definition admin_check :: "string \<Rightarrow> string list \<Rightarrow> admin_request \<Rightarrow> int option" where
  "admin_check verb known rq =
     (if rq_Method rq \<noteq> verb then Some 405
      else if rq_provider rq = [] then Some 400
      else if rq_provider rq \<notin> set known then Some 400
      else None)"

text \<open>The records both DLQ endpoints work on.\<close>

definition list_records ::
  "'s store \<Rightarrow> admin_request \<Rightarrow> 's \<Rightarrow> (go_error + dlq_record list) \<times> 's" where
  "list_records st rq s =
     (case st_List st (rq_provider rq) s of
        (Inl e, s1) \<Rightarrow> (Inl e, s1)
      | (Inr records, s1) \<Rightarrow>
          (if rq_include_poison rq = ''true'' then
             (case st_ListPoison st (rq_provider rq) s1 of
                (Inl e, s2) \<Rightarrow> (Inl e, s2)
              | (Inr poisoned, s2) \<Rightarrow> (Inr (records @ poisoned), s2))
           else (Inr records, s1)))"

section \<open>Replay (dlqreplay.go)\<close>

record replay_result =
  rr_Provider :: string
  rr_Replayed :: "string list"
  rr_Failed :: "string list"

fun replay_loop ::
  "'s sink \<Rightarrow> string \<Rightarrow> dlq_record list \<Rightarrow> replay_result \<times> 's \<Rightarrow> replay_result \<times> 's" where
  "replay_loop snk provider [] st = st"
| "replay_loop snk provider (r # rs) (res, s) =
     (case snk (rec_Event r) [provider] s of
        (Some err, s') \<Rightarrow>
          replay_loop snk provider rs (res\<lparr>rr_Failed := rr_Failed res @ [ID (rec_Event r)]\<rparr>, s')
      | (None, s') \<Rightarrow>
          replay_loop snk provider rs (res\<lparr>rr_Replayed := rr_Replayed res @ [ID (rec_Event r)]\<rparr>, s'))"

definition dlqreplay_ServeHTTP ::
  "'s sink \<Rightarrow> 's store \<Rightarrow> string list \<Rightarrow> admin_request \<Rightarrow> 's \<Rightarrow> replay_result response \<times> 's" where
  "dlqreplay_ServeHTTP snk st known rq s =
     (case admin_check ''POST'' known rq of
        Some code \<Rightarrow> (Failure code, s)
      | None \<Rightarrow>
          (case list_records st rq s of
             (Inl e, s1) \<Rightarrow> (Failure 500, s1)
           | (Inr records, s1) \<Rightarrow>
               (case replay_loop snk (rq_provider rq) records
                   (\<lparr>rr_Provider = rq_provider rq, rr_Replayed = [], rr_Failed = []\<rparr>, s1) of (res, s2) \<Rightarrow>
                if rr_Replayed res = [] then (Success res, s2)
                else case st_Remove st (rq_provider rq) (rr_Replayed res) s2 of
                  (Some e, s3) \<Rightarrow> (Failure 500, s3)
                | (None, s3) \<Rightarrow> (Success res, s3))))"

section \<open>Show (dlqshow.go)\<close>

definition dlqshow_ServeHTTP ::
  "'s store \<Rightarrow> string list \<Rightarrow> admin_request \<Rightarrow> 's \<Rightarrow> (string \<times> dlq_record list) response \<times> 's" where
  "dlqshow_ServeHTTP st known rq s =
     (case admin_check ''GET'' known rq of
        Some code \<Rightarrow> (Failure code, s)
      | None \<Rightarrow>
          (case list_records st rq s of
             (Inl e, s1) \<Rightarrow> (Failure 500, s1)
           | (Inr records, s1) \<Rightarrow> (Success (rq_provider rq, records), s1)))"

section \<open>Status (status.go)\<close>

record status_result =
  WALUnackedEntries :: nat
  sr_DLQ :: "(string, nat \<times> nat) gomap"

fun status_depths ::
  "'s store \<Rightarrow> string list \<Rightarrow> (string, nat \<times> nat) gomap \<Rightarrow> 's
    \<Rightarrow> (string, nat \<times> nat) gomap option \<times> 's" where
  "status_depths st [] m s = (Some m, s)"
| "status_depths st (p # ps) m s =
     (case st_List st p s of
        (Inl e, s1) \<Rightarrow> (None, s1)
      | (Inr records, s1) \<Rightarrow>
          (case st_ListPoison st p s1 of
             (Inl e, s2) \<Rightarrow> (None, s2)
           | (Inr poisoned, s2) \<Rightarrow>
               status_depths st ps (AList.update p (length records, length poisoned) m) s2))"

definition status_ServeHTTP ::
  "('s \<Rightarrow> nat) \<Rightarrow> 's store \<Rightarrow> string list \<Rightarrow> admin_request \<Rightarrow> 's \<Rightarrow> status_result response \<times> 's" where
  "status_ServeHTTP unacked st providers rq s =
     (if rq_Method rq \<noteq> ''GET'' then (Failure 405, s)
      else let n = unacked s in
        case status_depths st providers [] s of
          (None, s1) \<Rightarrow> (Failure 500, s1)
        | (Some m, s1) \<Rightarrow> (Success \<lparr>WALUnackedEntries = n, sr_DLQ = m\<rparr>, s1))"

section \<open>What the endpoints rely on\<close>

text \<open>
  The \<^verbatim>\<open>Store\<close> contract: listing returns what is parked and changes nothing,
  removal takes exactly the given events off both lists of one provider.
\<close>

locale dead_letter_store =
  fixes st :: "'s store" and well :: "'s \<Rightarrow> bool" and okp :: "string \<Rightarrow> bool"
    and regular poison :: "'s \<Rightarrow> string \<Rightarrow> dlq_record list"
  assumes list_regular: "well s \<Longrightarrow> okp p \<Longrightarrow> st_List st p s = (Inr (regular s p), s)"
    and list_poison: "well s \<Longrightarrow> okp p \<Longrightarrow> st_ListPoison st p s = (Inr (poison s p), s)"
    and remove_exact: "well s \<Longrightarrow> okp p \<Longrightarrow> ids \<noteq> [] \<Longrightarrow> st_Remove st p ids s = (err, s') \<Longrightarrow>
      err = None \<and> well s' \<and> regular s' p = without ids (regular s p)
      \<and> poison s' p = without ids (poison s p)
      \<and> (\<forall>q. okp q \<longrightarrow> q \<noteq> p \<longrightarrow> regular s' q = regular s q \<and> poison s' q = poison s q)"
begin

definition listed :: "admin_request \<Rightarrow> 's \<Rightarrow> dlq_record list" where
  "listed rq s = regular s (rq_provider rq)
     @ (if rq_include_poison rq = ''true'' then poison s (rq_provider rq) else [])"

lemma list_records_listed:
  "well s \<Longrightarrow> okp (rq_provider rq) \<Longrightarrow> list_records st rq s = (Inr (listed rq s), s)"
  by (simp add: list_records_def list_regular list_poison listed_def)

lemma show_lists:
  assumes "well s" "okp (rq_provider rq)" "admin_check ''GET'' known rq = None"
  shows "dlqshow_ServeHTTP st known rq s = (Success (rq_provider rq, listed rq s), s)"
  using assms by (simp add: dlqshow_ServeHTTP_def list_records_listed)

lemma status_depths_exact:
  "well s \<Longrightarrow> \<forall>p \<in> set ps. okp p \<Longrightarrow> distinct ps \<Longrightarrow>
     \<exists>m'. status_depths st ps m s = (Some m', s)
       \<and> map_of m' = (\<lambda>p. if p \<in> set ps then Some (length (regular s p), length (poison s p)) else map_of m p)"
proof (induction ps arbitrary: m)
  case (Cons p ps)
  let ?m = "AList.update p (length (regular s p), length (poison s p)) m"
  have okp: "okp p" and ps: "\<forall>p \<in> set ps. okp p" "distinct ps" "p \<notin> set ps"
    using Cons.prems by simp_all
  have "status_depths st (p # ps) m s = status_depths st ps ?m s"
    by (simp add: list_regular [OF Cons.prems(1) okp] list_poison [OF Cons.prems(1) okp])
  with Cons.IH [OF Cons.prems(1) ps(1,2), of ?m] ps(3) show ?case
    by (auto simp: fun_eq_iff)
qed auto

end

text \<open>Replay also appends; appending parks nothing and unparks nothing.\<close>

locale replay_store = dead_letter_store +
  fixes snk :: "'a sink"
  assumes append_parks_nothing: "well s \<Longrightarrow> snk e ps s = (err, s') \<Longrightarrow>
      well s' \<and> regular s' = regular s \<and> poison s' = poison s"
begin

lemma replay_loop_outcome:
  "replay_loop snk p rs (res, s) = (res', s') \<Longrightarrow> well s \<Longrightarrow>
     well s' \<and> regular s' = regular s \<and> poison s' = poison s
     \<and> (\<exists>moved failed. rr_Replayed res' = rr_Replayed res @ moved \<and> rr_Failed res' = rr_Failed res @ failed
          \<and> set moved \<union> set failed = (ID \<circ> rec_Event) ` set rs
          \<and> length moved + length failed = length rs)"
proof (induction rs arbitrary: res s)
  case (Cons r rs)
  obtain err s1 where a: "snk (rec_Event r) [p] s = (err, s1)" by fastforce
  note f = append_parks_nothing [OF Cons.prems(2) a]
  let ?i = "ID (rec_Event r)"
  show ?case
  proof (cases err)
    case None
    let ?res = "res\<lparr>rr_Replayed := rr_Replayed res @ [?i]\<rparr>"
    have "replay_loop snk p rs (?res, s1) = (res', s')" using Cons.prems(1) a None by simp
    from Cons.IH [OF this] f obtain moved failed where
      "well s'" "regular s' = regular s" "poison s' = poison s"
      "rr_Replayed res' = rr_Replayed ?res @ moved" "rr_Failed res' = rr_Failed ?res @ failed"
      "set moved \<union> set failed = (ID \<circ> rec_Event) ` set rs" "length moved + length failed = length rs"
      by auto
    then show ?thesis by (intro conjI exI [of _ "?i # moved"] exI [of _ failed]) auto
  next
    case (Some e)
    let ?res = "res\<lparr>rr_Failed := rr_Failed res @ [?i]\<rparr>"
    have "replay_loop snk p rs (?res, s1) = (res', s')" using Cons.prems(1) a Some by simp
    from Cons.IH [OF this] f obtain moved failed where
      "well s'" "regular s' = regular s" "poison s' = poison s"
      "rr_Replayed res' = rr_Replayed ?res @ moved" "rr_Failed res' = rr_Failed ?res @ failed"
      "set moved \<union> set failed = (ID \<circ> rec_Event) ` set rs" "length moved + length failed = length rs"
      by auto
    then show ?thesis by (intro conjI exI [of _ moved] exI [of _ "?i # failed"]) auto
  qed
qed simp

text \<open>A replay answers with every listed event, and parks exactly those not replayed.\<close>

lemma replay_outcome:
  assumes w: "well s" and p: "okp (rq_provider rq)" and c: "admin_check ''POST'' known rq = None"
    and h: "dlqreplay_ServeHTTP snk st known rq s = (resp, s')"
  shows "\<exists>res. resp = Success res \<and> well s'
     \<and> set (rr_Replayed res) \<union> set (rr_Failed res) = (ID \<circ> rec_Event) ` set (listed rq s)
     \<and> regular s' (rq_provider rq) = without (rr_Replayed res) (regular s (rq_provider rq))
     \<and> poison s' (rq_provider rq) = without (rr_Replayed res) (poison s (rq_provider rq))
     \<and> (\<forall>q. okp q \<longrightarrow> q \<noteq> rq_provider rq \<longrightarrow> regular s' q = regular s q \<and> poison s' q = poison s q)"
proof -
  let ?p = "rq_provider rq" and ?r0 = "\<lparr>rr_Provider = rq_provider rq, rr_Replayed = [], rr_Failed = []\<rparr>"
  obtain res s2 where l: "replay_loop snk ?p (listed rq s) (?r0, s) = (res, s2)" by fastforce
  from replay_loop_outcome [OF l w] have o: "well s2" "regular s2 = regular s" "poison s2 = poison s"
    "set (rr_Replayed res) \<union> set (rr_Failed res) = (ID \<circ> rec_Event) ` set (listed rq s)"
    by auto
  show ?thesis
  proof (cases "rr_Replayed res = []")
    case True
    with h c w p l have "resp = Success res" "s' = s2"
      by (simp_all add: dlqreplay_ServeHTTP_def list_records_listed)
    with o True show ?thesis by (simp add: without_def)
  next
    case False
    obtain err s3 where r: "st_Remove st ?p (rr_Replayed res) s2 = (err, s3)" by fastforce
    note re = remove_exact [OF o(1) p False r]
    with h c w p l r False have "resp = Success res" "s' = s3"
      by (simp_all add: dlqreplay_ServeHTTP_def list_records_listed)
    with re o show ?thesis by auto
  qed
qed

end

section \<open>The dead-letter queue as the store\<close>

definition dlq_store :: "dlq store" where
  "dlq_store = \<lparr>st_List = dlq_List, st_ListPoison = dlq_ListPoison, st_Remove = dlq_Remove\<rparr>"

text \<open>A state that answers without error: no faults ahead, whole files, exact depths.\<close>

definition dlq_well :: "dlq \<Rightarrow> bool" where
  "dlq_well d \<longleftrightarrow> dlq_ok d \<and> depth_exact d"

lemma dlq_list_none:
  "dlq_ok d \<Longrightarrow> dlq_List p d = (Inr (recs d (regularPath p)), d)"
  "dlq_ok d \<Longrightarrow> dlq_ListPoison p d = (Inr (recs d (poisonPath p)), d)"
  unfolding dlq_List_def dlq_ListPoison_def dlq_ok_def by (simp_all add: readRecords_none)

lemma depth_exact_change:
  assumes "depth_exact d" "plain p"
    and "\<forall>q. dlq_Depth q d' = (if q = p then int (length (recs d' (regularPath p)) + length (recs d' (poisonPath p)))
       else dlq_Depth q d)"
    and "\<forall>q. jsonl q \<longrightarrow> q \<noteq> regularPath p \<longrightarrow> q \<noteq> poisonPath p \<longrightarrow> recs d' q = recs d q"
  shows "depth_exact d'"
  unfolding depth_exact_def
proof (intro allI impI)
  fix q
  assume q: "plain q"
  show "dlq_Depth q d' = int (length (recs d' (regularPath q)) + length (recs d' (poisonPath q)))"
  proof (cases "q = p")
    case False
    with other_paths [OF assms(2) q False] assms q show ?thesis by (simp add: depth_exact_def)
  qed (use assms(3) in simp)
qed

lemma dlq_remove_well:
  assumes "dlq_well d" "plain p" "ids \<noteq> []" "dlq_Remove p ids d = (err, d')"
  shows "err = None \<and> dlq_well d' \<and> recs d' (regularPath p) = without ids (recs d (regularPath p))
      \<and> recs d' (poisonPath p) = without ids (recs d (poisonPath p))
      \<and> (\<forall>q. plain q \<longrightarrow> q \<noteq> p \<longrightarrow> recs d' (regularPath q) = recs d (regularPath q)
            \<and> recs d' (poisonPath q) = recs d (poisonPath q))"
proof -
  have ok: "dlq_ok d" and de: "depth_exact d" using assms(1) by (simp_all add: dlq_well_def)
  have "dlq_Depth p d = int (length (recs d (regularPath p)) + length (recs d (poisonPath p)))"
    using de assms(2) by (simp add: depth_exact_def)
  then obtain d'' where r: "dlq_Remove p ids d = (None, d'')" "dlq_ok d''"
    "recs d'' (regularPath p) = without ids (recs d (regularPath p))"
    "recs d'' (poisonPath p) = without ids (recs d (poisonPath p))"
    and o: "\<forall>q. jsonl q \<longrightarrow> q \<noteq> regularPath p \<longrightarrow> q \<noteq> poisonPath p \<longrightarrow> recs d'' q = recs d q"
    and dep: "\<forall>q. dlq_Depth q d'' = (if q = p
       then int (length (recs d'' (regularPath p)) + length (recs d'' (poisonPath p))) else dlq_Depth q d)"
    by (rule Remove_none [OF ok assms(3)]) (rule that)
  have "depth_exact d''" using de assms(2) dep o by (rule depth_exact_change)
  moreover have "d' = d''" "err = None" using r(1) assms(4) by simp_all
  moreover have "recs d'' (regularPath q) = recs d (regularPath q)
      \<and> recs d'' (poisonPath q) = recs d (poisonPath q)" if "plain q" "q \<noteq> p" for q
    using other_paths [OF assms(2) that] o by simp
  ultimately show ?thesis using r by (simp add: dlq_well_def)
qed

interpretation dlq: dead_letter_store dlq_store dlq_well plain
  "\<lambda>d p. recs d (regularPath p)" "\<lambda>d p. recs d (poisonPath p)"
proof unfold_locales
  fix s p ids err s'
  show "dlq_well s \<Longrightarrow> plain p \<Longrightarrow> st_List dlq_store p s = (Inr (recs s (regularPath p)), s)"
    "dlq_well s \<Longrightarrow> plain p \<Longrightarrow> st_ListPoison dlq_store p s = (Inr (recs s (poisonPath p)), s)"
    by (simp_all add: dlq_store_def dlq_list_none dlq_well_def)
  assume "dlq_well s" "plain p" "ids \<noteq> []" "st_Remove dlq_store p ids s = (err, s')"
  then show "err = None \<and> dlq_well s' \<and> recs s' (regularPath p) = without ids (recs s (regularPath p))
      \<and> recs s' (poisonPath p) = without ids (recs s (poisonPath p))
      \<and> (\<forall>q. plain q \<longrightarrow> q \<noteq> p \<longrightarrow> recs s' (regularPath q) = recs s (regularPath q)
            \<and> recs s' (poisonPath q) = recs s (poisonPath q))"
    by (intro dlq_remove_well) (simp_all add: dlq_store_def)
qed

end
