(* ===== verification/Samples.thy ===== *)
theory Samples
  imports Payload
begin

text \<open>
  A sample event, one second into the year 1, that the witnesses of the properties work on; the zero time
  is their clock.
\<close>

definition demo_time :: gotime where
  "demo_time = \<lparr>instant = 1000000000, zone = 0\<rparr>"

definition demo_event :: Event where
  "demo_event = \<lparr>ID = ''e1'', CustomerID = ''c1'', EventName = ''call'', Timestamp = demo_time,
     Properties = [], Route = []\<rparr>"

lemma demo_marshal: "marshal_event_ok demo_event"
  by code_simp

lemma zero_day: "split_year 0 (nat (local_day zero_time)) = (1, 0)"
  by (simp add: zero_time_def local_day_def local_ns_def
     split_year.simps[of 0 366] split_year.simps[of "Suc 0" 0] yearlen_def leap_def)

lemma zero_tod: "time_of_day zero_time = 0"
  by (simp add: zero_time_def time_of_day_def local_ns_def)

lemma zero_zone: "zone zero_time = 0" by (simp add: zero_time_def)

lemma zero_time_text: "rfc3339nano zero_time = ''0001-01-01T00:00:00Z''"
proof -
  have p: "pad 4 1 = ''0001''" "pad 2 0 = ''00''" "pad 2 (Suc 0) = ''01''" by code_simp+
  have m: "split_month (monthlens 1) 0 = (0, 0)" by code_simp
  show ?thesis
  unfolding rfc3339nano_def civil_text_def zero_day zero_tod zero_zone Let_def
  by (simp add: p [simplified] m [simplified] frac_text_def zone_text_def)
qed

lemma demo_day: "split_year 0 (nat (local_day demo_time)) = (1, 0)"
  by (simp add: demo_time_def local_day_def local_ns_def
     split_year.simps[of 0 366] split_year.simps[of "Suc 0" 0] yearlen_def leap_def)

lemma demo_tod: "time_of_day demo_time = 1000000000"
  by (simp add: demo_time_def time_of_day_def local_ns_def)

lemma demo_zone: "zone demo_time = 0" by (simp add: demo_time_def)

lemma demo_time_text: "rfc3339nano demo_time = ''0001-01-01T00:00:01Z''"
proof -
  have p: "pad 4 1 = ''0001''" "pad 2 0 = ''00''" "pad 2 (Suc 0) = ''01''" by code_simp+
  have m: "split_month (monthlens 1) 0 = (0, 0)" by code_simp
  show ?thesis
  unfolding rfc3339nano_def civil_text_def demo_day demo_tod demo_zone Let_def
  by (simp add: p [simplified] m [simplified] frac_text_def zone_text_def)
qed

end
