(* ===== verification/Dlq_Props.thy ===== *)
theory Dlq_Props
  imports Admin Samples
begin

text \<open>
  The properties of the dead-letter queue and of the endpoints over it, with a queue of
  one small record as their witness.
\<close>

section \<open>File names stay distinct\<close>

definition files_ok :: "dlq \<Rightarrow> bool" where
  "files_ok d \<longleftrightarrow> map_ok (dlq_files d)"

lemma files_ok_simps [simp]:
  "files_ok d \<Longrightarrow> files_ok (set_text path t d)"
  "files_ok (d\<lparr>handles := h\<rparr>) = files_ok d" "files_ok (d\<lparr>dlq_depth := c\<rparr>) = files_ok d"
  "files_ok (d\<lparr>dlq_attempts := a\<rparr>) = files_ok d" "files_ok (d\<lparr>dlq_faults := fl\<rparr>) = files_ok d"
  "files_ok (add_depth p n d) = files_ok d"
  by (simp_all add: files_ok_def set_text_def add_depth_def)

lemma dlq_call_files: "dlq_call d = (ok, d') \<Longrightarrow> files_ok d' = files_ok d"
  by (auto simp: dlq_call_def dlq_fault_def split: list.splits prod.splits)

lemma dlq_write_files: "dlq_write path t d = (ok, d') \<Longrightarrow> files_ok d \<Longrightarrow> files_ok d'"
  by (auto simp: dlq_write_def dlq_fault_def split: list.splits prod.splits fault.splits)

lemma openAppend_files: "dlq_openAppend path d = (ok, d') \<Longrightarrow> files_ok d \<Longrightarrow> files_ok d'"
  by (auto simp: dlq_openAppend_def dest: dlq_call_files split: prod.splits if_splits)

lemma appendRecord_files: "appendRecord path r d = (err, d') \<Longrightarrow> files_ok d \<Longrightarrow> files_ok d'"
  by (auto simp: appendRecord_def dest!: openAppend_files dlq_write_files dlq_call_files
      split: prod.splits if_splits option.splits)

lemma snd_call_files [simp]: "files_ok (snd (dlq_call d)) = files_ok d"
  by (metis dlq_call_files prod.collapse)

lemma write_kept_files: "write_kept tmp rs d = (err, d') \<Longrightarrow> files_ok d \<Longrightarrow> files_ok d'"
  by (induction rs arbitrary: d) (auto dest: dlq_write_files split: option.splits prod.splits bool.splits)

lemma rename_files: "rename_file tmp path d = (ok, d') \<Longrightarrow> files_ok d \<Longrightarrow> files_ok d'"
  by (auto simp: rename_file_def files_ok_def dest!: dlq_call_files split: prod.splits if_splits)

lemma drop_handle_files [simp]: "files_ok (drop_handle path d) = files_ok d"
  by (auto simp: drop_handle_def Let_def split: option.split)

lemma rewrite_files: "rewrite_file path kept d = (err, d') \<Longrightarrow> files_ok d \<Longrightarrow> files_ok d'"
  by (auto simp: rewrite_file_def Let_def dest!: dlq_call_files write_kept_files rename_files openAppend_files
      split: prod.splits if_splits option.splits)

lemma readRecords_files: "readRecords path d = (r, d') \<Longrightarrow> files_ok d' = files_ok d"
  by (auto simp: readRecords_def dest!: dlq_call_files split: prod.splits if_splits option.splits)

lemma removeFromFile_files: "removeFromFile path ids d = (r, d') \<Longrightarrow> files_ok d \<Longrightarrow> files_ok d'"
  by (auto simp: removeFromFile_def Let_def dest!: readRecords_files rewrite_files
      split: prod.splits if_splits option.splits sum.splits)

lemma dlq_Remove_files: "dlq_Remove p ids d = (err, d') \<Longrightarrow> files_ok d \<Longrightarrow> files_ok d'"
  by (auto simp: dlq_Remove_def Let_def dest!: removeFromFile_files split: prod.splits if_splits sum.splits)

lemma dlq_Put_files:
  assumes "dlq_Put now p e reason permanent d = (err, d')" "files_ok d"
  shows "files_ok d'"
proof -
  obtain n d1 where b: "bump_attempts p (ID e) d = (n, d1)" by fastforce
  then have "files_ok d1" using assms(2) by (auto simp: bump_attempts_def Let_def)
  with assms(1) b show ?thesis
    by (auto simp: dlq_Put_def Let_def dest!: removeFromFile_files appendRecord_files
        split: prod.splits if_splits sum.splits option.splits)
qed

section \<open>Restarting\<close>

lemma reopen:
  assumes ok: "dlq_ok d" and mo: "files_ok d"
  obtains d' where "dlq_Open (dlq_files d) [] = Inr d'" "dlq_well d'"
    "\<forall>path. jsonl path \<longrightarrow> recs d' path = recs d path"
    "\<forall>p i. plain p \<longrightarrow> attempts_of d' p i =
       max (max_attempts i (recs d (regularPath p))) (max_attempts i (recs d (poisonPath p)))"
proof -
  have g: "\<forall>path t. jsonl path \<longrightarrow> map_of (dlq_files d) path = Some t \<longrightarrow>
      (\<exists>rs. t = lines_of rs \<and> list_all good_rec rs)"
  proof (intro allI impI)
    fix path t
    assume "jsonl path" "map_of (dlq_files d) path = Some t"
    then show "\<exists>rs. t = lines_of rs \<and> list_all good_rec rs"
      using ok by (intro exI [of _ "recs d path"]) (force simp: dlq_ok_def holds_def text_of_def)
  qed
  have fo: "map_ok (dlq_files d)" using mo by (simp add: files_ok_def)
  obtain d' where d': "dlq_Open (dlq_files d) [] = Inr d'" "dlq_ok d'" "depth_exact d'"
    "recs d' = recs \<lparr>dlq_files = dlq_files d, dlq_faults = [], handles = [], dlq_depth = [], dlq_attempts = []\<rparr>"
    "\<forall>p i. plain p \<longrightarrow> attempts_of d' p i =
       max (max_attempts i (recs d' (regularPath p))) (max_attempts i (recs d' (poisonPath p)))"
    by (rule Open_none [OF fo g]) (rule that)
  have "recs d' = recs d" unfolding d'(4) by (simp add: recs_def text_of_def fun_eq_iff)
  then show ?thesis using that [OF d'(1)] d' by (simp add: dlq_well_def)
qed

section \<open>A small queue\<close>

definition empty_dlq :: dlq where
  "empty_dlq = \<lparr>dlq_files = [], dlq_faults = [], handles = [], dlq_depth = [], dlq_attempts = []\<rparr>"

lemma empty_dlq_well: "dlq_well empty_dlq" "files_ok empty_dlq" "recs empty_dlq path = []"
proof -
  show r: "recs empty_dlq path = []" for path by (simp add: recs_def text_of_def empty_dlq_def)
  show "files_ok empty_dlq" by (simp add: files_ok_def empty_dlq_def map_ok_def)
  show "dlq_well empty_dlq"
    by (simp add: dlq_well_def dlq_ok_def holds_def r depth_exact_def)
      (simp add: open_ok_def empty_dlq_def text_of_def dlq_Depth_def get0_def)
qed

lemma zero_UTC: "time_UTC zero_time = zero_time"
  by (simp add: time_UTC_def zero_time_def)

lemma zero_marshal: "marshal_time_ok zero_time"
  by code_simp

lemma show_one: "show_int 1 = ''1''"
  by code_simp

lemma demo_record_good: "good_rec (put_record zero_time ''p'' demo_event ''no'' True empty_dlq)"
proof -
  have r: "put_record zero_time ''p'' demo_event ''no'' True empty_dlq =
    \<lparr>rec_Provider = ''p'', rec_Event = demo_event, rec_Reason = ''no'', rec_Timestamp = zero_time,
     rec_Attempts = 1, rec_Poisoned = False\<rparr>"
    by (simp add: put_record_def attempts_of_def empty_dlq_def get0_def get_map_def zero_UTC
        poison_threshold_def permanentPoisonThreshold_def)
  have "length (line_of \<lparr>rec_Provider = ''p'', rec_Event = demo_event, rec_Reason = ''no'',
      rec_Timestamp = zero_time, rec_Attempts = 1, rec_Poisoned = False\<rparr>) < 1000"
    unfolding line_of_def record_json_def event_json_def demo_event_def Event.select_convs
      dlq_record.select_convs demo_time_text zero_time_text show_one
    by (simp only: if_False append_Nil2) code_simp
  then show ?thesis unfolding r using demo_marshal zero_marshal by (simp add: good_rec_def maxLine_def)
qed

definition demo_dlq :: dlq where
  "demo_dlq = snd (dlq_Put zero_time ''p'' demo_event ''no'' True empty_dlq)"

lemma dlq_put_well:
  assumes w: "dlq_well d" and g: "good_rec (put_record now p e reason permanent d)" and p: "plain p"
  obtains d' where "dlq_Put now p e reason permanent d = (None, d')" "dlq_well d'"
    "recs d' (regularPath p) =
       (if rec_Poisoned (put_record now p e reason permanent d) then without [ID e] (recs d (regularPath p))
        else recs d (regularPath p) @ [put_record now p e reason permanent d])"
    "recs d' (poisonPath p) =
       (if rec_Poisoned (put_record now p e reason permanent d)
        then recs d (poisonPath p) @ [put_record now p e reason permanent d] else recs d (poisonPath p))"
    "\<forall>q. plain q \<longrightarrow> q \<noteq> p \<longrightarrow> recs d' (regularPath q) = recs d (regularPath q)
       \<and> recs d' (poisonPath q) = recs d (poisonPath q)"
    "\<forall>q j. attempts_of d' q j = attempts_of d q j + (if q = p \<and> j = ID e then 1 else 0)"
proof -
  have ok: "dlq_ok d" and de: "depth_exact d" using w by (simp_all add: dlq_well_def)
  obtain d' where d': "dlq_Put now p e reason permanent d = (None, d')" "dlq_ok d'"
    "recs d' (regularPath p) =
       (if rec_Poisoned (put_record now p e reason permanent d) then without [ID e] (recs d (regularPath p))
        else recs d (regularPath p) @ [put_record now p e reason permanent d])"
    "recs d' (poisonPath p) =
       (if rec_Poisoned (put_record now p e reason permanent d)
        then recs d (poisonPath p) @ [put_record now p e reason permanent d] else recs d (poisonPath p))"
    and o: "\<forall>q. jsonl q \<longrightarrow> q \<noteq> regularPath p \<longrightarrow> q \<noteq> poisonPath p \<longrightarrow> recs d' q = recs d q"
    and a: "\<forall>q j. attempts_of d' q j = attempts_of d q j + (if q = p \<and> j = ID e then 1 else 0)"
    and dep: "\<forall>q. dlq_Depth q d' = dlq_Depth q d + (if q = p then
       int (length (recs d' (regularPath p)) + length (recs d' (poisonPath p)))
       - int (length (recs d (regularPath p)) + length (recs d (poisonPath p))) else 0)"
    by (rule Put_none [OF ok g]) (rule that)
  have "\<forall>q. dlq_Depth q d' = (if q = p then int (length (recs d' (regularPath p)) + length (recs d' (poisonPath p)))
       else dlq_Depth q d)"
    using dep de p by (simp add: depth_exact_def)
  from depth_exact_change [OF de p this o] have "dlq_well d'" using d'(2) by (simp add: dlq_well_def)
  moreover have "\<forall>q. plain q \<longrightarrow> q \<noteq> p \<longrightarrow> recs d' (regularPath q) = recs d (regularPath q)
       \<and> recs d' (poisonPath q) = recs d (poisonPath q)"
    using other_paths [OF p] o by simp
  ultimately show ?thesis using that d' a by blast
qed

lemma demo_plain [simp]: "plain ''p''"
  by (simp add: plain_def suffix_def)

lemma demo_dlq_well:
  "dlq_well demo_dlq" "files_ok demo_dlq"
  "recs demo_dlq (regularPath ''p'') = [put_record zero_time ''p'' demo_event ''no'' True empty_dlq]"
  "recs demo_dlq (poisonPath ''p'') = []" "attempts_of demo_dlq ''p'' ''e1'' = 1"
proof -
  have np: "\<not> rec_Poisoned (put_record zero_time ''p'' demo_event ''no'' True empty_dlq)"
    by (simp add: put_record_def attempts_of_def empty_dlq_def get0_def get_map_def
        poison_threshold_def permanentPoisonThreshold_def)
  obtain d' where d': "dlq_Put zero_time ''p'' demo_event ''no'' True empty_dlq = (None, d')" "dlq_well d'"
    "recs d' (regularPath ''p'') = [put_record zero_time ''p'' demo_event ''no'' True empty_dlq]"
    "recs d' (poisonPath ''p'') = []"
    "\<forall>q j. attempts_of d' q j = attempts_of empty_dlq q j + (if q = ''p'' \<and> j = ID demo_event then 1 else 0)"
    by (rule dlq_put_well [OF empty_dlq_well(1) demo_record_good demo_plain])
      (use np empty_dlq_well(3) that in auto)
  then have d: "demo_dlq = d'" by (simp add: demo_dlq_def)
  show "dlq_well demo_dlq" "recs demo_dlq (regularPath ''p'') = [put_record zero_time ''p'' demo_event ''no'' True empty_dlq]"
    "recs demo_dlq (poisonPath ''p'') = []" using d' by (simp_all add: d)
  show "files_ok demo_dlq" using dlq_Put_files [OF d'(1) empty_dlq_well(2)] by (simp add: d)
  show "attempts_of demo_dlq ''p'' ''e1'' = 1"
    using d'(5) by (simp add: d demo_event_def attempts_of_def empty_dlq_def get0_def get_map_def)
qed

section \<open>Parking, listing and removing\<close>

text \<open>
  C18. \<^verbatim>\<open>Put\<close>: an event below its poison threshold (two dead-letters for a permanent
  failure, three for an exhausted one) gets one more line, last in its provider's file; at the
  threshold its older lines leave that file and one line enters the poison file. The attempt counter
  of this event and provider goes up by one; other providers' files and counters stay, and
  the depths stay exact.
\<close>

theorem put_parks_one_record:
  assumes "dlq_well d" "plain p" "good_rec (put_record now p e reason permanent d)"
  shows "\<exists>d'. dlq_Put now p e reason permanent d = (None, d') \<and> dlq_well d'
     \<and> (if attempts_of d p (ID e) + 1 \<ge> (if permanent then 2 else 3)
        then recs d' (regularPath p) = filter (\<lambda>r. ID (rec_Event r) \<noteq> ID e) (recs d (regularPath p))
           \<and> recs d' (poisonPath p) = recs d (poisonPath p) @ [put_record now p e reason permanent d]
        else recs d' (regularPath p) = recs d (regularPath p) @ [put_record now p e reason permanent d]
           \<and> recs d' (poisonPath p) = recs d (poisonPath p))
     \<and> (\<forall>q. plain q \<longrightarrow> q \<noteq> p \<longrightarrow> recs d' (regularPath q) = recs d (regularPath q)
           \<and> recs d' (poisonPath q) = recs d (poisonPath q))
     \<and> (\<forall>q j. attempts_of d' q j = attempts_of d q j + (if q = p \<and> j = ID e then 1 else 0))"
proof -
  have po: "rec_Poisoned (put_record now p e reason permanent d) \<longleftrightarrow>
      attempts_of d p (ID e) + 1 \<ge> (if permanent then 2 else 3)"
    by (simp add: put_record_def Let_def poison_threshold_def permanentPoisonThreshold_def exhaustedPoisonThreshold_def)
  show ?thesis
    by (rule dlq_put_well [OF assms(1,3,2)])
      (intro exI conjI; (assumption | simp add: po [symmetric] without_def))
qed

theorem put_parks_one_record_witness:
  "\<exists>d'. dlq_Put zero_time ''p'' demo_event ''no'' True empty_dlq = (None, d')
     \<and> length (recs d' (regularPath ''p'')) = 1 \<and> attempts_of d' ''p'' ''e1'' = 1"
  using put_parks_one_record [OF empty_dlq_well(1) demo_plain demo_record_good]
  by (auto simp: attempts_of_def empty_dlq_def get0_def get_map_def demo_event_def recs_def text_of_def)

text \<open>
  C19. \<^verbatim>\<open>Remove\<close> takes exactly the records of the given events off both files of the provider,
  keeps the others in order, leaves other providers alone, and the state stays
  well (whole lines, exact depths).
\<close>

theorem remove_is_exact:
  assumes "dlq_well d" "plain p" "ids \<noteq> []"
  shows "\<exists>d'. dlq_Remove p ids d = (None, d') \<and> dlq_well d'
     \<and> recs d' (regularPath p) = filter (\<lambda>r. ID (rec_Event r) \<notin> set ids) (recs d (regularPath p))
     \<and> recs d' (poisonPath p) = filter (\<lambda>r. ID (rec_Event r) \<notin> set ids) (recs d (poisonPath p))
     \<and> dlq_Depth p d' = int (length (recs d' (regularPath p)) + length (recs d' (poisonPath p)))
     \<and> (\<forall>q. plain q \<longrightarrow> q \<noteq> p \<longrightarrow> recs d' (regularPath q) = recs d (regularPath q)
           \<and> recs d' (poisonPath q) = recs d (poisonPath q))"
proof -
  obtain err d' where r: "dlq_Remove p ids d = (err, d')" by fastforce
  note x = dlq_remove_well [OF assms r]
  then have "dlq_Depth p d' = int (length (recs d' (regularPath p)) + length (recs d' (poisonPath p)))"
    using assms(2) by (simp add: dlq_well_def depth_exact_def)
  with x r show ?thesis by (simp add: without_def)
qed

theorem remove_is_exact_witness:
  "\<exists>d'. dlq_Remove ''p'' [''e1''] demo_dlq = (None, d') \<and> recs d' (regularPath ''p'') = [] \<and> dlq_Depth ''p'' d' = 0"
  using remove_is_exact [OF demo_dlq_well(1) demo_plain, of "[''e1'']"] demo_dlq_well(3,4)
  by (auto simp: put_record_def Let_def demo_event_def)

text \<open>
  C20. A restart keeps the dead letters: \<^verbatim>\<open>Open\<close> on the files of a well queue succeeds, lists
  the same records in every file, counts exact depths, and knows of every event the
  highest attempt count among its remaining records.
\<close>

theorem restart_keeps_records:
  assumes "dlq_well d" "files_ok d"
  shows "\<exists>d'. dlq_Open (dlq_files d) [] = Inr d' \<and> dlq_well d'
     \<and> (\<forall>path. jsonl path \<longrightarrow> recs d' path = recs d path)
     \<and> (\<forall>p i. plain p \<longrightarrow> attempts_of d' p i =
          max (max_attempts i (recs d (regularPath p))) (max_attempts i (recs d (poisonPath p))))"
proof -
  have "dlq_ok d" using assms(1) by (simp add: dlq_well_def)
  then show ?thesis by (rule reopen [OF _ assms(2)]) (intro exI conjI)
qed

theorem restart_keeps_records_witness:
  "\<exists>d'. dlq_Open (dlq_files demo_dlq) [] = Inr d' \<and> length (recs d' (regularPath ''p'')) = 1
     \<and> attempts_of d' ''p'' ''e1'' = 1"
  using restart_keeps_records [OF demo_dlq_well(1,2)] demo_dlq_well(3,4)
  by (auto simp: max_attempts_def put_record_def Let_def demo_event_def attempts_of_def empty_dlq_def get0_def get_map_def)

text \<open>
  The attempt count does not span the queue's whole history: once an event's records were
  removed (as every replay does), a restart forgets how often it was dead-lettered, while the
  running process still counts it, so the poison threshold starts over.
\<close>

theorem restart_forgets_attempts:
  assumes "dlq_well d" "files_ok d" "plain p" "i \<in> set ids" "dlq_Remove p ids d = (err, d1)"
  shows "attempts_of d1 p i = attempts_of d p i
     \<and> (\<exists>d2. dlq_Open (dlq_files d1) [] = Inr d2 \<and> attempts_of d2 p i = 0)"
proof -
  have ne: "ids \<noteq> []" using assms(4) by auto
  note r = dlq_remove_well [OF assms(1,3) ne assms(5)]
  have ok: "dlq_ok d" using assms(1) by (simp add: dlq_well_def)
  have dep: "dlq_Depth p d = int (length (recs d (regularPath p)) + length (recs d (poisonPath p)))"
    using assms(1,3) by (simp add: dlq_well_def depth_exact_def)
  obtain d1' where "dlq_Remove p ids d = (None, d1')" "\<forall>q j. attempts_of d1' q j = attempts_of d q j"
    by (rule Remove_none [OF ok ne dep]) (rule that)
  then have a: "attempts_of d1 p i = attempts_of d p i" using assms(5) by simp
  have z: "max_attempts i (without ids rs) = 0" for rs
    using assms(4) by (induction rs) (auto simp: max_attempts_def without_def)
  have ok1: "dlq_ok d1" using r by (simp add: dlq_well_def)
  obtain d2 where "dlq_Open (dlq_files d1) [] = Inr d2"
    "\<forall>p i. plain p \<longrightarrow> attempts_of d2 p i =
       max (max_attempts i (recs d1 (regularPath p))) (max_attempts i (recs d1 (poisonPath p)))"
    by (rule reopen [OF ok1 dlq_Remove_files [OF assms(5,2)]]) (rule that)
  with a r z assms(3) show ?thesis by simp
qed

theorem restart_forgets_attempts_witness:
  "attempts_of (snd (dlq_Remove ''p'' [''e1''] demo_dlq)) ''p'' ''e1'' = 1
     \<and> (\<exists>d2. dlq_Open (dlq_files (snd (dlq_Remove ''p'' [''e1''] demo_dlq))) [] = Inr d2
          \<and> attempts_of d2 ''p'' ''e1'' = 0)"
  using restart_forgets_attempts [OF demo_dlq_well(1,2) demo_plain, of "''e1''" "[''e1'']"] demo_dlq_well(5)
  by (cases "dlq_Remove ''p'' [''e1''] demo_dlq") simp

section \<open>Status\<close>

text \<open>
  Status is exact: \<^verbatim>\<open>GET /v1/status\<close> reports the number of unresolved log entries and, for every
  configured provider, the number of records in its regular and in its poison file, and changes
  nothing.
\<close>

theorem status_is_exact:
  assumes "dlq_well d" "\<forall>p \<in> set ps. plain p" "distinct ps" "rq_Method rq = ''GET''"
  shows "\<exists>m. status_ServeHTTP (\<lambda>_. n) dlq_store ps rq d = (Success \<lparr>WALUnackedEntries = n, sr_DLQ = m\<rparr>, d)
     \<and> map_of m = (\<lambda>p. if p \<in> set ps
          then Some (length (recs d (regularPath p)), length (recs d (poisonPath p))) else None)"
  using dlq.status_depths_exact [OF assms(1,2,3), of "[]"] assms(4)
  by (auto simp: status_ServeHTTP_def fun_eq_iff)

theorem status_is_exact_witness:
  "\<exists>m. status_ServeHTTP (\<lambda>_. 0) dlq_store [''p''] \<lparr>rq_Method = ''GET'', rq_provider = [], rq_include_poison = []\<rparr> demo_dlq
      = (Success \<lparr>WALUnackedEntries = 0, sr_DLQ = m\<rparr>, demo_dlq) \<and> map_of m ''p'' = Some (1, 0)"
  using status_is_exact [OF demo_dlq_well(1), of "[''p'']"
      "\<lparr>rq_Method = ''GET'', rq_provider = [], rq_include_poison = []\<rparr>" 0] demo_dlq_well(3,4)
  by fastforce

end
