(* ===== verification/Json_Prefix.thy ===== *)
theory Json_Prefix
  imports Json
begin

text \<open>
  What the JSON reader makes of a text that was cut off: an object without its last byte is not
  a JSON text, however it is cut. The reader only looks at what it consumes, so a value read from a
  prefix would be read, with the rest left over, from the whole text.
\<close>

section \<open>Strings and keys\<close>

lemma hex4_extend: "hex4 s = Some n \<Longrightarrow> hex4 (s @ u) = Some n \<and> 4 \<le> length s"
  by (auto simp: hex4_def split: list.splits option.splits)

lemma parse_str_extend: "parse_str s = Some (t, r) \<Longrightarrow> parse_str (s @ u) = Some (t, r @ u)"
proof (induction s arbitrary: t rule: parse_str.induct)
  case (2 c cs)
  consider (quote) "c = CHR 0x22" | (esc) "c = CHR 0x5C" | (plain) "c \<noteq> CHR 0x22" "c \<noteq> CHR 0x5C" by blast
  then show ?case
  proof cases
    case quote
    with "2.prems" show ?thesis by (simp add: parse_str.simps)
  next
    case esc
    with "2.prems" obtain e r0 where cs: "cs = e # r0"
      by (cases cs) (simp_all add: parse_str.simps)
    show ?thesis
    proof (cases "e = CHR ''u''")
      case True
      with "2.prems" esc cs obtain n w t' where h: "hex4 r0 = Some n" "utf8 n = Some w"
        "parse_str (drop 4 r0) = Some (t', r)" "t = w @ t'"
        by (auto simp: parse_str_u prepend_def split: option.splits bind_splits)
      then have "parse_str (drop 4 r0 @ u) = Some (t', r @ u)"
        using "2.IH"(1) [of e r0] esc cs True by simp
      with h hex4_extend [OF h(1), of u] show ?thesis
        by (simp add: esc cs True parse_str_u)
    next
      case False
      with "2.prems" esc cs obtain d t' where "unesc e = Some d" "parse_str r0 = Some (t', r)" "t = d # t'"
        by (auto simp: parse_str.simps prepend_def split: option.splits)
      with "2.IH"(2) [of e r0] esc cs False show ?thesis by (simp add: parse_str_esc)
    qed
  next
    case plain
    with "2.prems" obtain t' where "parse_str cs = Some (t', r)" "t = c # t'" "\<not> (of_char c :: nat) < 32"
      by (auto simp: parse_str.simps prepend_def split: if_splits)
    with "2.IH"(3) plain show ?thesis by (simp add: parse_str_plain)
  qed
qed (simp add: parse_str.simps)

lemma skip_ws_extend: "skip_ws s \<noteq> [] \<Longrightarrow> skip_ws (s @ u) = skip_ws s @ u"
  by (induction s) (auto simp: skip_ws_def)

lemma parse_key_extend:
  assumes "parse_key s = Some (k, r)"
  shows "parse_key (s @ u) = Some (k, r @ u)"
proof -
  obtain cs r1 where k: "skip_ws s = CHR 0x22 # cs" "parse_str cs = Some (k, r1)" "skip_ws r1 = CHR '':'' # r"
    using assms by (auto simp: parse_key_def split: list.splits option.splits if_splits)
  then have "skip_ws (s @ u) = CHR 0x22 # cs @ u" "skip_ws (r1 @ u) = CHR '':'' # r @ u"
    using skip_ws_extend [of s u] skip_ws_extend [of r1 u] by simp_all
  with parse_str_extend [OF k(2), of u] show ?thesis by (simp add: parse_key_def)
qed

section \<open>Values\<close>

text \<open>A number, and only a number, may go on in what follows.\<close>

definition closed_value :: "string \<Rightarrow> bool" where
  "closed_value s \<longleftrightarrow> skip_ws s \<noteq> [] \<and> hd (skip_ws s) \<in> {CHR 0x22, CHR ''['', CHR ''{''}"

lemma parse_num_extend:
  assumes "parse_num s = Some (v, r)" "r \<noteq> []"
  shows "parse_num (s @ u) = Some (v, r @ u)"
proof -
  have r: "r = dropWhile num_char s" and ok: "valid_number (takeWhile num_char s)" "v = JNum (takeWhile num_char s)"
    using assms(1) by (auto simp: parse_num_def Let_def split: if_splits)
  have "\<not> list_all num_char s" using assms(2) unfolding r list_all_iff by (metis dropWhile_eq_Nil_conv)
  then obtain x where "x \<in> set s" "\<not> num_char x" by (auto simp: list_all_iff)
  then show ?thesis using ok by (simp add: parse_num_def takeWhile_append1 dropWhile_append1 r Let_def)
qed

lemma parse_lit_extend:
  assumes "parse_lit l v s = Some (w, r)"
  shows "parse_lit l v (s @ u) = Some (w, r @ u)"
proof -
  have t: "take (length l) s = l" using assms by (simp add: parse_lit_def split: if_splits)
  then have "length l \<le> length s" by (metis length_take min.cobounded1)
  with t assms show ?thesis by (simp add: parse_lit_def)
qed

text \<open>
  What the reader made of a text with fuel \<open>n\<close> it makes of the text with \<open>u\<close> after it and fuel \<open>m\<close>, and leaves \<open>u\<close>
  over. Only a number could go on into \<open>u\<close>.
\<close>

definition goes_on :: "string \<Rightarrow> nat \<Rightarrow> nat \<Rightarrow> bool" where
  "goes_on u n m \<longleftrightarrow>
     (\<forall>s v r. parse_value n s = Some (v, r) \<longrightarrow> u = [] \<or> r \<noteq> [] \<or> closed_value s \<longrightarrow> parse_value m (s @ u) = Some (v, r @ u))
     \<and> (\<forall>s vs r. parse_elems n s = Some (vs, r) \<longrightarrow> parse_elems m (s @ u) = Some (vs, r @ u))
     \<and> (\<forall>s ms r. parse_members n s = Some (ms, r) \<longrightarrow> parse_members m (s @ u) = Some (ms, r @ u))"

lemma goes_onD:
  assumes "goes_on u n m"
  shows "parse_value n s = Some (v, r) \<Longrightarrow> r \<noteq> [] \<Longrightarrow> parse_value m (s @ u) = Some (v, r @ u)"
    and "parse_elems n s = Some (vs, r) \<Longrightarrow> parse_elems m (s @ u) = Some (vs, r @ u)"
    and "parse_members n s = Some (ms, r) \<Longrightarrow> parse_members m (s @ u) = Some (ms, r @ u)"
  using assms by (simp_all add: goes_on_def)

lemma closed_goes_on:
  "goes_on u n m \<Longrightarrow> parse_value n s = Some (v, r) \<Longrightarrow> closed_value s \<Longrightarrow> parse_value m (s @ u) = Some (v, r @ u)"
  unfolding goes_on_def by blast

lemma nothing_read [simp]:
  "skip_ws s = [] \<Longrightarrow> parse_value n s = None" "skip_ws s = [] \<Longrightarrow> parse_elems n s = None"
  "skip_ws s = [] \<Longrightarrow> parse_members n s = None"
  by (cases n; simp)+

lemma rest_nonempty:
  "parse_elems n r = Some (vs, r') \<Longrightarrow> r \<noteq> []" "parse_members n r = Some (ms, r') \<Longrightarrow> r \<noteq> []"
  "parse_value n r = Some (v, r') \<Longrightarrow> skip_ws r \<noteq> []"
  using nothing_read(1) [of r n] nothing_read(2,3) [of "[]" n] by (auto simp: skip_ws_def)

lemma scalar_goes_on:
  assumes "parse_value (Suc n) s = Some (v, r)" "u = [] \<or> r \<noteq> [] \<or> closed_value s"
    and "skip_ws s = c # cs" "c \<noteq> CHR ''[''" "c \<noteq> CHR ''{''"
  shows "parse_value (Suc m) (s @ u) = Some (v, r @ u)"
proof -
  have cu: "skip_ws (s @ u) = c # cs @ u" using assms(3) skip_ws_extend [of s u] by simp
  consider (str) "c = CHR 0x22" | (lit) "c \<in> {CHR ''n'', CHR ''t'', CHR ''f''}"
    | (num) "c \<noteq> CHR 0x22" "c \<notin> {CHR ''n'', CHR ''t'', CHR ''f''}" by blast
  then show ?thesis
  proof cases
    case str
    with assms(1,3) cu show ?thesis by (auto dest: parse_str_extend)
  next
    case lit
    have "parse_lit l w (c # cs) = Some (v, r) \<Longrightarrow> parse_lit l w (c # cs @ u) = Some (v, r @ u)" for l w
      using parse_lit_extend [of l w "c # cs" v r u] by simp
    with lit assms(1,3) cu show ?thesis by auto
  next
    case num
    then have "parse_num (c # cs) = Some (v, r)" "u = [] \<or> r \<noteq> []"
      using assms by (auto simp: closed_value_def)
    then have "parse_num (c # cs @ u) = Some (v, r @ u)"
      using parse_num_extend [of "c # cs" v r u] by auto
    with num assms(4,5) cu show ?thesis by simp
  qed
qed

lemma array_goes_on:
  assumes "goes_on u n m" "parse_value (Suc n) s = Some (v, r)" "skip_ws s = CHR ''['' # cs"
  shows "parse_value (Suc m) (s @ u) = Some (v, r @ u)"
proof -
  have cu: "skip_ws (s @ u) = CHR ''['' # cs @ u" using assms(3) skip_ws_extend [of s u] by simp
  show ?thesis
  proof (cases "skip_ws cs \<noteq> [] \<and> hd (skip_ws cs) = CHR '']''")
    case True
    with assms(2,3) cu skip_ws_extend [of cs u] show ?thesis by (cases "skip_ws cs") auto
  next
    case False
    obtain w r1 ws where v: "parse_value n cs = Some (w, r1)" "parse_elems n r1 = Some (ws, r)" "v = JArr (w # ws)"
      using assms(2,3) False by (auto split: option.splits)
    have "parse_value m (cs @ u) = Some (w, r1 @ u)" "parse_elems m (r1 @ u) = Some (ws, r @ u)"
      using goes_onD [OF assms(1)] v rest_nonempty by blast+
    moreover have "\<not> (skip_ws (cs @ u) \<noteq> [] \<and> hd (skip_ws (cs @ u)) = CHR '']'')"
      using False rest_nonempty(3) [OF v(1)] skip_ws_extend [of cs u] by (cases "skip_ws cs") auto
    ultimately show ?thesis using cu v(3) by simp
  qed
qed

lemma object_goes_on:
  assumes "goes_on u n m" "parse_value (Suc n) s = Some (v, r)" "skip_ws s = CHR ''{'' # cs"
  shows "parse_value (Suc m) (s @ u) = Some (v, r @ u)"
proof -
  have cu: "skip_ws (s @ u) = CHR ''{'' # cs @ u" using assms(3) skip_ws_extend [of s u] by simp
  show ?thesis
  proof (cases "skip_ws cs \<noteq> [] \<and> hd (skip_ws cs) = CHR ''}''")
    case True
    with assms(2,3) cu skip_ws_extend [of cs u] show ?thesis by (cases "skip_ws cs") auto
  next
    case False
    obtain k r0 w r1 ws where v: "parse_key cs = Some (k, r0)" "parse_value n r0 = Some (w, r1)"
      "parse_members n r1 = Some (ws, r)" "v = JObj ((k, w) # ws)"
      using assms(2,3) False by (auto split: option.splits)
    have "parse_value m (r0 @ u) = Some (w, r1 @ u)" "parse_members m (r1 @ u) = Some (ws, r @ u)"
      using goes_onD [OF assms(1)] v rest_nonempty by blast+
    moreover have "skip_ws cs \<noteq> []" using v(1) by (auto simp: parse_key_def)
    then have "\<not> (skip_ws (cs @ u) \<noteq> [] \<and> hd (skip_ws (cs @ u)) = CHR ''}'')"
      using False skip_ws_extend [of cs u] by (cases "skip_ws cs") auto
    ultimately show ?thesis using cu v(4) parse_key_extend [OF v(1), of u] by simp
  qed
qed

lemma elems_go_on:
  assumes "goes_on u n m" "parse_elems (Suc n) s = Some (vs, r)"
  shows "parse_elems (Suc m) (s @ u) = Some (vs, r @ u)"
proof -
  obtain c cs where c: "skip_ws s = c # cs" using assms(2) by (cases "skip_ws s") simp_all
  then have cu: "skip_ws (s @ u) = c # cs @ u" using skip_ws_extend [of s u] by simp
  show ?thesis
  proof (cases "c = CHR '']''")
    case False
    then obtain w r1 ws where v: "c = CHR '',''" "parse_value n cs = Some (w, r1)" "parse_elems n r1 = Some (ws, r)" "vs = w # ws"
      using assms(2) c by (auto split: option.splits if_splits)
    then have "parse_value m (cs @ u) = Some (w, r1 @ u)" "parse_elems m (r1 @ u) = Some (ws, r @ u)"
      using goes_onD [OF assms(1)] rest_nonempty by blast+
    with v cu show ?thesis by simp
  qed (use assms(2) c cu in simp)
qed

lemma members_go_on:
  assumes "goes_on u n m" "parse_members (Suc n) s = Some (ms, r)"
  shows "parse_members (Suc m) (s @ u) = Some (ms, r @ u)"
proof -
  obtain c cs where c: "skip_ws s = c # cs" using assms(2) by (cases "skip_ws s") simp_all
  then have cu: "skip_ws (s @ u) = c # cs @ u" using skip_ws_extend [of s u] by simp
  show ?thesis
  proof (cases "c = CHR ''}''")
    case False
    then obtain k r0 w r1 ws where v: "c = CHR '',''" "parse_key cs = Some (k, r0)" "parse_value n r0 = Some (w, r1)"
      "parse_members n r1 = Some (ws, r)" "ms = (k, w) # ws"
      using assms(2) c by (auto split: option.splits if_splits)
    then have "parse_value m (r0 @ u) = Some (w, r1 @ u)" "parse_members m (r1 @ u) = Some (ws, r @ u)"
      using goes_onD [OF assms(1)] rest_nonempty by blast+
    with v cu parse_key_extend [OF v(2), of u] show ?thesis by simp
  qed (use assms(2) c cu in simp)
qed

lemma goes_on_Suc: "goes_on u n m \<Longrightarrow> goes_on u (Suc n) (Suc m)"
proof -
  assume g: "goes_on u n m"
  have "parse_value (Suc m) (s @ u) = Some (v, r @ u)"
    if v: "parse_value (Suc n) s = Some (v, r)" "u = [] \<or> r \<noteq> [] \<or> closed_value s" for s v r
  proof -
    obtain c cs where "skip_ws s = c # cs" using v(1) by (cases "skip_ws s") simp_all
    with v array_goes_on [OF g v(1)] object_goes_on [OF g v(1)] scalar_goes_on [OF v] show ?thesis by blast
  qed
  then show ?thesis using elems_go_on [OF g] members_go_on [OF g] by (simp only: goes_on_def) blast
qed

lemma parse_goes_on: "goes_on u n (n + d)"
  by (induction n) (simp_all add: goes_on_Suc, simp add: goes_on_def)

section \<open>Torn objects\<close>

lemma torn_object:
  assumes "printable (JObj ms)" "0 < k" "k < length (json_text (JObj ms))"
  shows "json_parse (take k (json_text (JObj ms))) = None"
proof (rule ccontr)
  let ?t = "json_text (JObj ms)" and ?p = "take k (json_text (JObj ms))"
  assume "json_parse ?p \<noteq> None"
  then obtain v r where v: "parse_value (length ?p) ?p = Some (v, r)"
    by (auto simp: json_parse_def split: option.splits)
  obtain m where "?t = CHR ''{'' # m" by (cases ms rule: list.exhaust) auto
  then have "closed_value ?p" using assms(2) by (cases k) (simp_all add: closed_value_def)
  moreover have "length ?p + (length ?t - k) = length ?t" using assms(3) by simp
  then have "goes_on (drop k ?t) (length ?p) (length ?t)" using parse_goes_on by metis
  ultimately have "parse_value (length ?t) (?p @ drop k ?t) = Some (v, r @ drop k ?t)"
    using v closed_goes_on by blast
  then have "parse_value (length ?t) ?t = Some (v, r @ drop k ?t)" by simp
  moreover have "parse_value (length ?t) (?t @ []) = Some (JObj ms, [])"
    using assms(1) by (intro parse_texts(1)) simp_all
  ultimately show False using assms(3) by simp
qed

end
