(* ===== verification/Dlq_Crash.thy ===== *)
theory Dlq_Crash
  imports Dlq_Props Json_Prefix
begin

text \<open>
  The dead-letter files when I/O fails or the process dies. A crash in the middle of an operation leaves the
  files as a schedule of faults does in which nothing works from some call on, so what holds
  under every schedule holds of every crash: a rewrite replaces a file whole or not at all, and an append
  leaves a prefix of its line.
\<close>

section \<open>Single calls under any faults\<close>

lemma call_texts: "dlq_call d = (ok, d') \<Longrightarrow> text_of d' = text_of d"
  by (auto simp: dlq_call_def dlq_fault_def text_of_def split: list.splits)

lemma snd_call_texts [simp]: "text_of (snd (dlq_call d)) = text_of d"
  using call_texts by (metis prod.collapse)

lemma text_of_set: "text_of (set_text path t d) = (text_of d)(path := t)"
  by (simp add: fun_eq_iff)

lemma write_texts:
  assumes "dlq_write path t d = (ok, d')"
  shows "\<exists>k \<le> length t. text_of d' = (text_of d)(path := text_of d path @ take k t) \<and> (ok \<longrightarrow> k = length t)"
proof (cases "dlq_fault d")
  case (Pair x d1)
  have t: "text_of d1 = text_of d"
    using Pair by (auto simp: dlq_fault_def text_of_def split: list.splits)
  show ?thesis
  proof (cases x)
    case NoFault
    then show ?thesis using assms Pair t by (intro exI [of _ "length t"]) (auto simp: dlq_write_def text_of_set)
  next
    case (Fault k)
    then show ?thesis using assms Pair t
      by (intro exI [of _ "min k (length t)"]) (auto simp: dlq_write_def text_of_set min_def)
  qed
qed

lemma openAppend_texts:
  assumes "dlq_openAppend path d = (ok, d')"
  shows "text_of d' = text_of d"
proof -
  obtain c d1 where c: "dlq_call d = (c, d1)" by fastforce
  have "text_of (if map_of (dlq_files d1) path = None then set_text path [] d1 else d1) q = text_of d1 q" for q
    by (simp add: text_of_none)
  then have "text_of d' = text_of d1"
    using assms c unfolding fun_eq_iff dlq_openAppend_def by (cases c) auto
  then show ?thesis using call_texts [OF c] by simp
qed

lemma append_any:
  assumes "appendRecord path r d = (err, d')" "good_rec r"
  shows "\<exists>k. text_of d' = (text_of d)(path := text_of d path @ take k (line_of r @ [newline]))
    \<and> (err = None \<longrightarrow> length (line_of r) < k)"
proof -
  let ?l = "line_of r @ [newline]"
  obtain ok d1 where o: "(case map_of (handles d) path of Some h \<Rightarrow> (True, d)
      | None \<Rightarrow> dlq_openAppend path d) = (ok, d1)" by fastforce
  then have t1: "text_of d1 = text_of d" by (auto dest: openAppend_texts split: option.splits)
  have none: ?thesis if "d' = d1" "err \<noteq> None"
    using that t1 by (intro exI [of _ 0]) (simp add: fun_eq_iff)
  obtain wok d2 where w: "dlq_write path ?l d1 = (wok, d2)" by fastforce
  then obtain k where k: "text_of d2 = (text_of d)(path := text_of d path @ take k ?l)" "wok \<longrightarrow> k = length ?l"
    using write_texts [OF w] t1 by auto
  have "text_of d' = text_of d2 \<and> (err = None \<longrightarrow> wok) \<or> d' = d1 \<and> err \<noteq> None"
    using assms o w marshal_line [OF assms(2)]
    by (auto simp: appendRecord_def dest: call_texts split: if_splits prod.splits)
  then show ?thesis
  proof
    assume "text_of d' = text_of d2 \<and> (err = None \<longrightarrow> wok)"
    with k show ?thesis by (intro exI [of _ k]) auto
  qed (use none in blast)
qed

lemma write_kept_any:
  "write_kept tmp rs d = (err, d') \<Longrightarrow> list_all good_rec rs \<Longrightarrow>
     (\<forall>q. q \<noteq> tmp \<longrightarrow> text_of d' q = text_of d q) \<and> (err = None \<longrightarrow> text_of d' tmp = text_of d tmp @ lines_of rs)"
proof (induction rs arbitrary: d)
  case (Cons r rs)
  obtain ok d1 where w: "dlq_write tmp (line_of r @ [newline]) d = (ok, d1)" by fastforce
  note t = write_texts [OF w]
  show ?case
  proof (cases ok)
    case True
    then have "write_kept tmp rs d1 = (err, d')" using Cons.prems w by (simp add: marshal_line)
    with Cons.IH Cons.prems(2) t True show ?thesis by auto
  next
    case False
    then show ?thesis using Cons.prems w t by (auto simp: marshal_line)
  qed
qed simp

lemma rename_any:
  assumes "rename_file tmp path d = (ok, d')" "tmp \<noteq> path"
  shows "(\<forall>q. q \<noteq> tmp \<longrightarrow> q \<noteq> path \<longrightarrow> text_of d' q = text_of d q)
     \<and> text_of d' path = (if ok then text_of d tmp else text_of d path)"
proof -
  obtain ok1 d1 where c: "dlq_call d = (ok1, d1)" by fastforce
  note t = call_texts [OF c]
  show ?thesis
  proof (cases ok1)
    case True
    then have "ok" "d' = d1\<lparr>dlq_files := AList.delete tmp (AList.update path (text_of d1 tmp) (dlq_files d1))\<rparr>"
      using assms c by (simp_all add: rename_file_def)
    then show ?thesis using assms(2) t unfolding fun_eq_iff by (simp add: text_of_def)
  next
    case False
    then show ?thesis using assms c t by (auto simp: rename_file_def)
  qed
qed

lemma drop_handle_texts [simp]: "text_of (drop_handle path d) = text_of d"
  by (auto simp: drop_handle_def Let_def fun_eq_iff split: option.split)

text \<open>A rewrite replaces the file whole, or leaves it alone.\<close>

lemma rewrite_any:
  assumes "rewrite_file path kept d = (err, d')" "list_all good_rec kept" "jsonl path"
  shows "(\<forall>q. jsonl q \<longrightarrow> q \<noteq> path \<longrightarrow> text_of d' q = text_of d q)
     \<and> (text_of d' path = text_of d path \<and> err \<noteq> None \<or> text_of d' path = lines_of kept)"
proof -
  let ?tmp = "path @ ''.tmp''"
  have tmp: "q \<noteq> ?tmp" if "jsonl q" for q using that tmp_not_jsonl by blast
  obtain ok2 d2 where c2: "dlq_call (drop_handle path d) = (ok2, d2)" by fastforce
  obtain e3 d3 where c3: "write_kept ?tmp kept (set_text ?tmp [] d2) = (e3, d3)" by fastforce
  obtain ok4 d4 where c4: "dlq_call d3 = (ok4, d4)" by fastforce
  obtain ok5 d5 where c5: "dlq_call d4 = (ok5, d5)" by fastforce
  obtain ok6 d6 where c6: "rename_file ?tmp path d5 = (ok6, d6)" by fastforce
  obtain ok7 d7 where c7: "dlq_openAppend path d6 = (ok7, d7)" by fastforce
  have t2: "text_of d2 = text_of d" using call_texts [OF c2] by simp
  have t3: "\<forall>q. q \<noteq> ?tmp \<longrightarrow> text_of d3 q = text_of d q" "e3 = None \<Longrightarrow> text_of d3 ?tmp = lines_of kept"
    using write_kept_any [OF c3 assms(2)] t2 by simp_all
  have t5: "text_of d4 = text_of d3" "text_of d5 = text_of d3"
    using call_texts [OF c4] call_texts [OF c5] by simp_all
  have t6: "\<forall>q. q \<noteq> ?tmp \<longrightarrow> q \<noteq> path \<longrightarrow> text_of d6 q = text_of d q"
    "text_of d6 path = (if ok6 then text_of d3 ?tmp else text_of d path)"
    using rename_any [OF c6] tmp [OF assms(3)] t5 t3(1) by auto
  have t7: "text_of d7 = text_of d6" using openAppend_texts [OF c7] .
  have cases: "err \<noteq> None \<and> (d' = d2 \<or> e3 \<noteq> None \<and> d' = d3 \<or> text_of d' = text_of d3 \<or> \<not> ok6 \<and> d' = d6)
      \<or> e3 = None \<and> ok6 \<and> d' = d7"
    using assms(1) c2 c3 c4 c5 c6 c7 t5
    by (auto simp: rewrite_file_def Let_def split: if_splits option.splits)
  have keep: ?thesis if "err \<noteq> None" "\<forall>q. q \<noteq> ?tmp \<longrightarrow> text_of d' q = text_of d q"
    using that tmp assms(3) by auto
  show ?thesis
  proof (cases "e3 = None \<and> ok6 \<and> d' = d7")
    case True
    then show ?thesis using t7 t6 t3(2) tmp by auto
  next
    case False
    then show ?thesis using cases t2 t3(1) t6 tmp [OF assms(3)] by (intro keep) auto
  qed
qed

section \<open>What a later read makes of a file\<close>

lemma split_lines_last: "newline \<notin> set u \<Longrightarrow> u \<noteq> [] \<Longrightarrow> split_lines u = [u]"
proof (induction u)
  case (Cons c u)
  then show ?case by (cases u) auto
qed simp

lemma decode_lines_tail:
  "list_all good_rec rs \<Longrightarrow> decode_lines (split_lines (lines_of rs @ u)) =
     (case decode_lines (split_lines u) of Inl e \<Rightarrow> Inl e | Inr qs \<Rightarrow> Inr (rs @ qs))"
proof (induction rs)
  case (Cons r rs)
  then have g: "good_rec r" by simp
  obtain m where m: "line_of r = CHR ''{'' # m @ ''}''" using line_shape by blast
  have "dropCR (line_of r) = line_of r" by (simp add: m dropCR_def)
  moreover have "\<not> list_all is_space (line_of r)" by (simp add: m is_space_def)
  moreover have "\<not> maxLine \<le> length (line_of r)" using g by (simp add: good_rec_def)
  ultimately show ?case
    using Cons unmarshal_line [OF g] by (simp add: split_line line_no_newline split: sum.split)
qed (simp split: sum.split)

lemma torn_line:
  assumes "good_rec r" "0 < k" "k < length (line_of r)"
  shows "unmarshal_record (take k (line_of r)) = None"
proof -
  obtain ms where ms: "record_json r = JObj ms" by (simp add: record_json_def)
  then have "json_parse (take k (line_of r)) = None"
    using torn_object [of ms k] printable_record [OF assms(1)] assms(2,3) by (simp add: line_of_def)
  then show ?thesis by (simp add: unmarshal_record_def)
qed

lemma dropCR_id: "CHR 0x0D \<notin> set u \<Longrightarrow> dropCR u = u"
  unfolding dropCR_def by (metis last_in_set)

text \<open>What an append leaves, by the number of bytes that reached the file.\<close>

lemma decode_append:
  assumes rs: "list_all good_rec rs" and r: "good_rec r"
  shows "decode_lines (split_lines (lines_of rs @ take k (line_of r @ [newline]))) =
    (if k = 0 then Inr rs else if k < length (line_of r) then Inl (GoError ''dlq: decode'') else Inr (rs @ [r]))"
proof -
  obtain m where m: "line_of r = CHR ''{'' # m @ ''}''" using line_shape by blast
  have line: "newline \<notin> set (take j (line_of r))" "\<not> maxLine \<le> length (take j (line_of r))" for j
    using line_no_newline [OF r] r by (auto simp: good_rec_def min_def dest: in_set_takeD)
  have head: "take j (line_of r) = CHR ''{'' # take (j - 1) (m @ ''}'')" if "0 < j" for j
    using that by (cases j) (simp_all add: m)
  have cr: "dropCR (take j (line_of r)) = take j (line_of r)" for j
  proof -
    have "no_ctrl (line_of r)" unfolding line_of_def using texts_no_ctrl(1) [OF printable_record [OF r]] .
    then have "CHR 0x0D \<notin> set (line_of r)" by (auto simp: no_ctrl_def list_all_iff)
    then have "CHR 0x0D \<notin> set (take j (line_of r))" by (auto dest: in_set_takeD)
    then show ?thesis by (rule dropCR_id)
  qed
  have one: "decode_lines (split_lines (take j (line_of r))) =
      (case unmarshal_record (take j (line_of r)) of None \<Rightarrow> Inl (GoError ''dlq: decode'') | Some q \<Rightarrow> Inr [q])"
    if "0 < j" for j
  proof -
    have "\<not> list_all is_space (take j (line_of r))" using head [OF that] by (simp add: is_space_def)
    moreover have "take j (line_of r) \<noteq> []" using head [OF that] by simp
    ultimately show ?thesis
      using line cr by (simp add: split_lines_last split: option.split)
  qed
  consider "k = 0" | "0 < k" "k < length (line_of r)" | "k = length (line_of r)" | "length (line_of r) < k" by linarith
  then show ?thesis
  proof cases
    case 2
    then show ?thesis using torn_line [OF r] one by (simp add: decode_lines_tail [OF rs])
  next
    case 3
    then show ?thesis using one [of k] unmarshal_line [OF r] m by (simp add: decode_lines_tail [OF rs])
  next
    case 4
    then have "take k (line_of r @ [newline]) = lines_of [r]" by simp
    then show ?thesis using 4 decode_lines_of [of "rs @ [r]"] rs r by simp
  qed (simp add: decode_lines_of [OF rs])
qed

section \<open>Whole files\<close>

text \<open>Every record file is a sequence of whole lines; nothing is asked of handles, faults or counters.\<close>

definition whole :: "dlq \<Rightarrow> bool" where
  "whole d \<longleftrightarrow> (\<forall>path. jsonl path \<longrightarrow> holds d path (recs d path))"

lemma whole_open:
  assumes "whole d" "files_ok d"
  obtains d' where "dlq_Open (dlq_files d) [] = Inr d'" "dlq_well d'" "\<forall>path. jsonl path \<longrightarrow> recs d' path = recs d path"
proof -
  let ?d = "d\<lparr>dlq_faults := [], handles := []\<rparr>"
  have t: "text_of ?d path = text_of d path" for path by (simp add: text_of_def)
  have r: "recs ?d path = recs d path" for path by (rule recs_cong [OF t])
  have ok: "dlq_ok ?d"
    using assms(1) r holds_cong [OF t] by (simp add: dlq_ok_def whole_def open_ok_def)
  have "files_ok ?d" using assms(2) by simp
  from reopen [OF ok this] obtain d' where d': "dlq_Open (dlq_files ?d) [] = Inr d'" "dlq_well d'"
    "\<forall>path. jsonl path \<longrightarrow> recs ?d path = recs d' path" by metis
  have "dlq_Open (dlq_files d) [] = Inr d'" using d'(1) by simp
  moreover have "\<forall>path. jsonl path \<longrightarrow> recs d' path = recs d path" using d'(3) unfolding r by metis
  ultimately show ?thesis using that d'(2) by blast
qed

lemma read_any:
  assumes "readRecords path d = (res, d')"
  shows "dlq_files d' = dlq_files d" "text_of d' = text_of d"
    "res = Inr rs \<Longrightarrow> decode_lines (split_lines (text_of d path)) = Inr rs"
proof -
  have f: "dlq_files (snd (dlq_call x)) = dlq_files x" for x
    by (simp add: dlq_call_def dlq_fault_def split: list.split)
  obtain ok d1 ok2 d2 where c: "dlq_call d = (ok, d1)" "dlq_call d1 = (ok2, d2)" by fastforce
  then have fs: "dlq_files d1 = dlq_files d" "dlq_files d2 = dlq_files d" using f [of d] f [of d1] by auto
  then show *: "dlq_files d' = dlq_files d"
    using assms c f [of d2] by (auto simp: readRecords_def split: if_splits option.splits)
  show "text_of d' = text_of d" unfolding fun_eq_iff text_of_def * by simp
  show "decode_lines (split_lines (text_of d path)) = Inr rs" if "res = Inr rs"
    using assms c fs that by (auto simp: readRecords_def text_of_def split: if_splits option.splits)
qed

section \<open>Remove\<close>

text \<open>One file: its records are all there, or exactly the removed ones are missing.\<close>

lemma remove_any:
  assumes rm: "removeFromFile path ids d = (res, d')" and h: "holds d path rs" and path: "jsonl path"
  shows "\<forall>q. jsonl q \<longrightarrow> q \<noteq> path \<longrightarrow> text_of d' q = text_of d q"
    and "holds d' path rs \<and> (\<exists>e. res = Inl e) \<or> holds d' path (without ids rs)"
proof -
  obtain rd d1 where r: "readRecords path d = (rd, d1)" by fastforce
  note t1 = read_any(2) [OF r]
  have h1: "holds d1 path rs" using h t1 holds_cong [of d1 path d rs] by simp
  have g: "list_all good_rec (without ids rs)" using h by (auto simp: holds_def without_def list_all_iff)
  have res: "(\<forall>q. jsonl q \<longrightarrow> q \<noteq> path \<longrightarrow> text_of d' q = text_of d q)
      \<and> (holds d' path rs \<and> (\<exists>e. res = Inl e) \<or> holds d' path (without ids rs))"
  proof (cases rd)
    case (Inl e)
    then show ?thesis using rm r t1 h1 by (auto simp: removeFromFile_def)
  next
    case (Inr qs)
    have qs: "qs = rs" using read_any(3) [OF r Inr] h by (simp add: holds_def decode_lines_of)
    obtain err d2 where w: "rewrite_file path (without ids rs) d1 = (err, d2)" by fastforce
    note rw = rewrite_any [OF w g path]
    show ?thesis
    proof (cases "length rs - length (without ids rs) = 0")
      case True
      then have "\<not> length (filter (\<lambda>r. ID (rec_Event r) \<notin> set ids) rs) < length rs" by (simp add: without_def)
      then have "without ids rs = rs" unfolding without_def by (metis filter_True length_filter_less)
      then show ?thesis using rm r Inr qs True t1 h1 by (auto simp: removeFromFile_def Let_def without_def)
    next
      case False
      then have d': "d' = d2" "res = (case err of Some e \<Rightarrow> Inl e | None \<Rightarrow> Inr (int (length rs - length (without ids rs))))"
        using rm r Inr qs w by (auto simp: removeFromFile_def Let_def without_def split: option.splits)
      have "holds d2 path rs \<and> err \<noteq> None \<or> holds d2 path (without ids rs)"
        using rw h g t1 by (auto simp: holds_def)
      then show ?thesis using d' rw t1 by auto
    qed
  qed
  then show "\<forall>q. jsonl q \<longrightarrow> q \<noteq> path \<longrightarrow> text_of d' q = text_of d q"
    "holds d' path rs \<and> (\<exists>e. res = Inl e) \<or> holds d' path (without ids rs)" by blast+
qed

text \<open>Record files that changed at most in one place.\<close>

lemma whole_change:
  assumes "whole d" "\<forall>q. jsonl q \<longrightarrow> q \<noteq> path \<longrightarrow> text_of d' q = text_of d q" "holds d' path rs"
  shows "whole d'" "recs d' path = rs" "\<And>q. jsonl q \<Longrightarrow> q \<noteq> path \<Longrightarrow> recs d' q = recs d q"
proof -
  show r: "recs d' path = rs" using assms(3) by (rule holds_recs)
  show o: "recs d' q = recs d q" if "jsonl q" "q \<noteq> path" for q
    using assms(2) that by (intro recs_cong) simp
  have "holds d' q (recs d' q)" if "jsonl q" for q
  proof (cases "q = path")
    case False
    with that assms(2) have "text_of d' q = text_of d q" by simp
    then show ?thesis
      using assms(1) that o [OF that False] by (simp add: whole_def holds_cong [of d' q d])
  qed (use assms(3) r in simp)
  then show "whole d'" by (simp add: whole_def)
qed

lemma remove_whole:
  assumes "removeFromFile path ids d = (res, d')" "whole d" "jsonl path"
  shows "whole d'" "\<And>q. jsonl q \<Longrightarrow> q \<noteq> path \<Longrightarrow> recs d' q = recs d q"
    "recs d' path = recs d path \<and> (\<exists>e. res = Inl e) \<or> recs d' path = without ids (recs d path)"
proof -
  have h: "holds d path (recs d path)" using assms(2,3) by (simp add: whole_def)
  note c = whole_change [OF assms(2) remove_any(1) [OF assms(1) h assms(3)]]
  from remove_any(2) [OF assms(1) h assms(3)] obtain rs where rs: "holds d' path rs"
    "rs = recs d path \<and> (\<exists>e. res = Inl e) \<or> rs = without ids (recs d path)" by blast
  show "whole d'" "\<And>q. jsonl q \<Longrightarrow> q \<noteq> path \<Longrightarrow> recs d' q = recs d q"
    "recs d' path = recs d path \<and> (\<exists>e. res = Inl e) \<or> recs d' path = without ids (recs d path)"
    using c [OF rs(1)] rs(2) by auto
qed

lemma Remove_any:
  assumes "dlq_Remove p ids d = (err, d')" "whole d"
  shows "whole d'"
    "\<And>q. jsonl q \<Longrightarrow> q \<noteq> regularPath p \<Longrightarrow> q \<noteq> poisonPath p \<Longrightarrow> recs d' q = recs d q"
    "q \<in> {regularPath p, poisonPath p} \<Longrightarrow> recs d' q = recs d q \<or> recs d' q = without ids (recs d q)"
    "err = None \<Longrightarrow> q \<in> {regularPath p, poisonPath p} \<Longrightarrow> recs d' q = without ids (recs d q)"
proof -
  obtain r1 d1 r2 d2 where rm: "removeFromFile (regularPath p) ids d = (r1, d1)"
    "removeFromFile (poisonPath p) ids d1 = (r2, d2)" by fastforce
  note a = remove_whole [OF rm(1) assms(2) paths(1)]
  note b = remove_whole [OF rm(2) a(1) paths(2)]
  have w: "whole (d\<lparr>dlq_depth := c\<rparr>) = whole d" "recs (d\<lparr>dlq_depth := c\<rparr>) = recs d" for c d
    by (simp_all add: whole_def holds_def recs_def text_of_def fun_eq_iff)
  have id: "without [] rs = rs" for rs by (simp add: without_def)
  consider "ids = []" "err = None" "d' = d"
    | e where "ids \<noteq> []" "r1 = Inl e" "d' = d1" "err \<noteq> None"
    | n e where "ids \<noteq> []" "r1 = Inr n" "r2 = Inl e" "d' = d2" "err \<noteq> None"
    | n m c where "ids \<noteq> []" "r1 = Inr n" "r2 = Inr m" "d' = d2\<lparr>dlq_depth := c\<rparr>"
    using assms(1) rm
    by (auto simp: dlq_Remove_def add_depth_def Let_def split: if_splits sum.splits)
  then have "whole d'
      \<and> (\<forall>q. jsonl q \<longrightarrow> q \<noteq> regularPath p \<longrightarrow> q \<noteq> poisonPath p \<longrightarrow> recs d' q = recs d q)
      \<and> (\<forall>q \<in> {regularPath p, poisonPath p}. recs d' q = recs d q \<and> err \<noteq> None \<or> recs d' q = without ids (recs d q))"
    using a b assms(2) id by cases (auto simp: w)
  then show "whole d'"
    "\<And>q. jsonl q \<Longrightarrow> q \<noteq> regularPath p \<Longrightarrow> q \<noteq> poisonPath p \<Longrightarrow> recs d' q = recs d q"
    "q \<in> {regularPath p, poisonPath p} \<Longrightarrow> recs d' q = recs d q \<or> recs d' q = without ids (recs d q)"
    "err = None \<Longrightarrow> q \<in> {regularPath p, poisonPath p} \<Longrightarrow> recs d' q = without ids (recs d q)"
    by blast+
qed

section \<open>Put\<close>

text \<open>One file gained a prefix of a line; every other record file is whole.\<close>

definition torn_at :: "string \<Rightarrow> dlq_record list \<Rightarrow> dlq_record \<Rightarrow> nat \<Rightarrow> dlq \<Rightarrow> bool" where
  "torn_at path rs r k d \<longleftrightarrow> text_of d path = lines_of rs @ take k (line_of r)
     \<and> (\<forall>q. jsonl q \<longrightarrow> q \<noteq> path \<longrightarrow> holds d q (recs d q))"

lemma scan_torn:
  "jsonl path \<Longrightarrow> path \<in> set names \<Longrightarrow> decode_lines (split_lines (text_of d path)) = Inl e \<Longrightarrow>
     \<exists>e' d'. scan_files names d = (Some e', d')"
proof (induction names arbitrary: d)
  case (Cons name names)
  obtain rd d1 where rd: "readRecords name d = (rd, d1)" by fastforce
  let ?p = "file_provider name"
  let ?d2 = "\<lambda>rs. fold (note_record ?p) rs (known_provider ?p d1)"
  have t: "text_of (?d2 rs) path = text_of d path" for rs
    using read_any(2) [OF rd] by (simp add: note_records)
  show ?case
  proof (cases "jsonl name")
    case False
    then have "path \<in> set names" using Cons.prems by auto
    with Cons False show ?thesis by simp
  next
    case True
    show ?thesis
    proof (cases rd)
      case (Inl a)
      then show ?thesis using True rd by simp
    next
      case (Inr rs)
      then have "name \<noteq> path" using read_any(3) [OF rd] Cons.prems(3) by auto
      then show ?thesis
        using Cons.IH [of "?d2 rs"] Cons.prems t True rd Inr by (simp add: Let_def)
    qed
  qed
qed simp

lemma open_torn:
  assumes torn: "torn_at path rs r k d" and path: "jsonl path" and g: "list_all good_rec rs" "good_rec r"
    and k: "0 < k" "k < length (line_of r)"
  shows "\<exists>e. dlq_Open (dlq_files d) flts = Inl e"
proof -
  let ?d0 = "\<lparr>dlq_files = dlq_files d, dlq_faults = flts, handles = [], dlq_depth = [], dlq_attempts = []\<rparr>"
  have t: "text_of d path = lines_of rs @ take k (line_of r @ [newline])"
    using torn k by (simp add: torn_at_def)
  have "line_of r \<noteq> []" using line_shape [of r] by auto
  then have "text_of d path \<noteq> []" using t k by auto
  then have "path \<in> set (map fst (dlq_files d))"
    by (metis text_of_none map_of_eq_None_iff set_map)
  moreover obtain ok1 d1 ok2 d2 where c: "dlq_call ?d0 = (ok1, d1)" "dlq_call d1 = (ok2, d2)" by fastforce
  then have "text_of d2 = text_of d"
    using call_texts [OF c(1)] call_texts [OF c(2)] by (simp add: text_of_def fun_eq_iff)
  then have "decode_lines (split_lines (text_of d2 path)) = Inl (GoError ''dlq: decode'')"
    using decode_append [OF g, of k] t k by simp
  ultimately obtain e d' where "scan_files (map fst (dlq_files d)) d2 = (Some e, d')"
    using scan_torn [OF path] by blast
  then show ?thesis using c by (simp add: dlq_Open_def Let_def)
qed

text \<open>An append under any faults.\<close>

lemma append_outcome:
  assumes ap: "appendRecord path r d = (err, d')" and w: "whole d" and path: "jsonl path" and g: "good_rec r"
  shows "(whole d' \<and> (\<forall>q. jsonl q \<longrightarrow> q \<noteq> path \<longrightarrow> recs d' q = recs d q) \<and> (recs d' path = recs d path \<and> err \<noteq> None \<or> recs d' path = recs d path @ [r]))
     \<or> (\<exists>k. 0 < k \<and> k \<le> length (line_of r) \<and> torn_at path (recs d path) r k d' \<and> err \<noteq> None
           \<and> (\<forall>q. jsonl q \<longrightarrow> q \<noteq> path \<longrightarrow> recs d' q = recs d q))"
proof -
  obtain k where k: "text_of d' = (text_of d)(path := text_of d path @ take k (line_of r @ [newline]))"
    and err: "err = None \<longrightarrow> length (line_of r) < k"
    using append_any [OF ap g] by blast
  have h: "holds d path (recs d path)" using w path by (simp add: whole_def)
  have o: "\<forall>q. jsonl q \<longrightarrow> q \<noteq> path \<longrightarrow> text_of d' q = text_of d q" using k by simp
  have ro: "recs d' q = recs d q" if "jsonl q" "q \<noteq> path" for q using o that by (intro recs_cong) simp
  consider "k = 0" | "0 < k" "k \<le> length (line_of r)" | "length (line_of r) < k" by linarith
  then show ?thesis
  proof cases
    case 1
    then have "holds d' path (recs d path)" using k h by (simp add: holds_def)
    from whole_change [OF w o this] err 1 show ?thesis by auto
  next
    case 2
    then have "torn_at path (recs d path) r k d'"
      using k h w ro by (auto simp: torn_at_def holds_def whole_def)
    with 2 ro err show ?thesis by auto
  next
    case 3
    then have "holds d' path (recs d path @ [r])" using k h g by (simp add: holds_def)
    from whole_change [OF w o this] show ?thesis by blast
  qed
qed

text \<open>\<open>Put\<close> under any faults. The file the record goes to has it whole, not at all, or torn; of the others
  only the regular file of a poisoned event may have lost that event's records.\<close>

definition put_path :: "string \<Rightarrow> dlq_record \<Rightarrow> string" where
  "put_path p r = (if rec_Poisoned r then poisonPath p else regularPath p)"

definition others_kept :: "string \<Rightarrow> dlq_record \<Rightarrow> dlq \<Rightarrow> dlq \<Rightarrow> bool" where
  "others_kept p r d d' \<longleftrightarrow> (\<forall>q. jsonl q \<longrightarrow> q \<noteq> put_path p r \<longrightarrow> recs d' q = recs d q
     \<or> q = regularPath p \<and> rec_Poisoned r \<and> recs d' q = without [ID (rec_Event r)] (recs d q))"

lemma whole_counts [simp]:
  "whole (add_depth p n d) = whole d" "recs (add_depth p n d) = recs d"
  by (simp_all add: whole_def holds_def recs_def fun_eq_iff)

lemma torn_counts [simp]: "torn_at q rs x k (add_depth p n d) = torn_at q rs x k d"
  by (simp add: torn_at_def holds_def)

lemma others_counts [simp]: "others_kept p r d (add_depth q n d') = others_kept p r d d'"
  by (simp add: others_kept_def)

text \<open>The outcome of a \<^verbatim>\<open>Put\<close> in the file it writes to: untouched, one record longer, or torn.\<close>

definition put_outcome :: "string \<Rightarrow> dlq_record \<Rightarrow> dlq \<Rightarrow> go_error option \<Rightarrow> dlq \<Rightarrow> bool" where
  "put_outcome p r d err d' \<longleftrightarrow> others_kept p r d d' \<and>
    (whole d' \<and> (recs d' (put_path p r) = recs d (put_path p r) \<and> err \<noteq> None
                  \<or> recs d' (put_path p r) = recs d (put_path p r) @ [r])
     \<or> (\<exists>k. 0 < k \<and> k \<le> length (line_of r) \<and> torn_at (put_path p r) (recs d (put_path p r)) r k d' \<and> err \<noteq> None))"

lemma recorded_outcome:
  assumes "appendRecord (put_path p r) r d1 = (err, d2)" "whole d1" "good_rec r"
    and "recs d1 (put_path p r) = recs d (put_path p r)" "others_kept p r d d1"
    and "d' = (if err = None then add_depth p 1 d2 else d2)"
  shows "put_outcome p r d err d'"
proof -
  have path: "jsonl (put_path p r)" using paths by (simp add: put_path_def)
  have "others_kept p r d d2" if "\<forall>q. jsonl q \<longrightarrow> q \<noteq> put_path p r \<longrightarrow> recs d2 q = recs d1 q"
    using assms(5) that by (simp add: others_kept_def)
  then show ?thesis
    using append_outcome [OF assms(1,2) path assms(3)] assms(4,6) by (auto simp: put_outcome_def)
qed

lemma Put_any:
  assumes put: "dlq_Put now p e reason permanent d = (err, d')" and w: "whole d"
    and r: "r = put_record now p e reason permanent d" and g: "good_rec r"
  shows "put_outcome p r d err d'"
proof -
  obtain n d1 where b: "bump_attempts p (ID e) d = (n, d1)" by fastforce
  note bn = bump_none [OF b]
  have w1: "whole d1" and r1: "recs d1 = recs d"
    using w bn(4) by (simp_all add: whole_def holds_def recs_def fun_eq_iff)
  have rr: "r = \<lparr>rec_Provider = p, rec_Event = e, rec_Reason = reason, rec_Timestamp = time_UTC now,
      rec_Attempts = n, rec_Poisoned = (n \<ge> poison_threshold permanent)\<rparr>"
    by (simp add: r put_record_def bn(1) Let_def)
  show ?thesis
  proof (cases "rec_Poisoned r")
    case False
    obtain err2 d2 where a: "appendRecord (regularPath p) r d1 = (err2, d2)" by fastforce
    have d': "d' = (if err2 = None then add_depth p 1 d2 else d2)" "err = err2"
      using put b a False by (auto simp: dlq_Put_def Let_def rr split: option.splits)
    show ?thesis
      by (rule recorded_outcome [of p r d1 err d2])
        (use a w1 g r1 d' False in \<open>simp_all add: put_path_def others_kept_def\<close>)
  next
    case True
    obtain res d2 where rm: "removeFromFile (regularPath p) [ID e] d1 = (res, d2)" by fastforce
    note rw = remove_whole [OF rm w1 paths(1)]
    have e: "ID (rec_Event r) = ID e" by (simp add: rr)
    have kept: "others_kept p r d d2"
      using rw(2) rw(3) r1 True e unfolding others_kept_def put_path_def by metis
    have p2: "recs d2 (poisonPath p) = recs d (poisonPath p)" using rw(2) [of "poisonPath p"] r1 by simp
    show ?thesis
    proof (cases res)
      case (Inl x)
      then have d': "d' = d2" "err = Some x"
        using put b rm True by (auto simp: dlq_Put_def Let_def rr)
      then show ?thesis using rw(1) kept p2 True by (simp add: put_outcome_def put_path_def)
    next
      case (Inr m)
      obtain err2 d4 where a: "appendRecord (poisonPath p) r (add_depth p (- m) d2) = (err2, d4)" by fastforce
      have d': "d' = (if err2 = None then add_depth p 1 d4 else d4)" "err = err2"
        using put b rm a True Inr by (auto simp: dlq_Put_def Let_def rr split: option.splits)
      show ?thesis
        by (rule recorded_outcome [of p r "add_depth p (- m) d2" err d4])
          (use a rw(1) g p2 kept d' True in \<open>simp_all add: put_path_def\<close>)
    qed
  qed
qed

lemma dlq_faults_cong [simp]:
  "whole (d\<lparr>dlq_faults := flts\<rparr>) = whole d" "recs (d\<lparr>dlq_faults := flts\<rparr>) = recs d"
  "text_of (d\<lparr>dlq_faults := flts\<rparr>) = text_of d"
  "put_record now p e reason permanent (d\<lparr>dlq_faults := flts\<rparr>) = put_record now p e reason permanent d"
  by (simp_all add: whole_def holds_def recs_def text_of_def fun_eq_iff put_record_def attempts_of_def)

lemma well_whole: "dlq_well d \<Longrightarrow> whole d"
  by (simp add: dlq_well_def dlq_ok_def whole_def)

text \<open>The write of an append is its first system call, or its second if the file has no handle yet.\<close>

definition fault_at_write :: "string \<Rightarrow> nat \<Rightarrow> dlq \<Rightarrow> fault list" where
  "fault_at_write path k d = (if map_of (handles d) path = None then [NoFault] else []) @ [Fault k]"

lemma append_torn:
  assumes "dlq_faults d = fault_at_write path k d" "map_of (handles d) path \<noteq> Some False" "good_rec r"
  obtains d' where "appendRecord path r d = (Some (GoError ''dlq: write''), d')"
    "text_of d' = (text_of d)(path := text_of d path @ take k (line_of r @ [newline]))"
proof -
  have wr: "\<exists>d'. dlq_write path (line_of r @ [newline]) x = (False, d')
      \<and> text_of d' = (text_of x)(path := text_of x path @ take k (line_of r @ [newline]))"
    if "dlq_faults x = [Fault k]" for x
    using that by (simp add: dlq_write_def dlq_fault_def text_of_set)
  show ?thesis
  proof (cases "map_of (handles d) path")
    case None
    then obtain d1 where o: "dlq_openAppend path d = (True, d1)" "map_of (handles d1) path = Some True"
      "dlq_faults d1 = [Fault k]"
      using assms(1)
      by (simp add: dlq_openAppend_def dlq_call_def dlq_fault_def fault_at_write_def set_text_def)
    from wr [OF o(3)] obtain d' where "dlq_write path (line_of r @ [newline]) d1 = (False, d')"
      "text_of d' = (text_of d1)(path := text_of d1 path @ take k (line_of r @ [newline]))" by blast
    then show ?thesis
      using o None openAppend_texts [OF o(1)] that marshal_line [OF assms(3)] by (simp add: appendRecord_def)
  next
    case (Some h)
    then have h: "h" using assms(2) by (cases h) auto
    have "dlq_faults d = [Fault k]" using Some assms(1) by (simp add: fault_at_write_def)
    from wr [OF this] obtain d' where "dlq_write path (line_of r @ [newline]) d = (False, d')"
      "text_of d' = (text_of d)(path := text_of d path @ take k (line_of r @ [newline]))" by blast
    then show ?thesis using Some h that marshal_line [OF assms(3)] by (simp add: appendRecord_def)
  qed
qed

lemma put_torn:
  assumes w: "dlq_well d" and g: "good_rec (put_record now p e reason permanent d)"
    and np: "\<not> rec_Poisoned (put_record now p e reason permanent d)"
    and k: "0 < k" "k < length (line_of (put_record now p e reason permanent d))"
  obtains d' where "dlq_Put now p e reason permanent (d\<lparr>dlq_faults := fault_at_write (regularPath p) k d\<rparr>)
      = (Some (GoError ''dlq: write''), d')" "\<And>flts. \<exists>x. dlq_Open (dlq_files d') flts = Inl x"
proof -
  let ?r = "put_record now p e reason permanent d" and ?f = "fault_at_write (regularPath p) k d"
  let ?d = "d\<lparr>dlq_faults := ?f\<rparr>"
  obtain n d1 where b: "bump_attempts p (ID e) ?d = (n, d1)" by fastforce
  have d1: "dlq_faults d1 = ?f" "handles d1 = handles d" "text_of d1 = text_of d"
    using b bump_none(4) [OF b] by (auto simp: bump_attempts_def Let_def fun_eq_iff)
  have rr: "?r = \<lparr>rec_Provider = p, rec_Event = e, rec_Reason = reason, rec_Timestamp = time_UTC now,
      rec_Attempts = n, rec_Poisoned = (n \<ge> poison_threshold permanent)\<rparr>"
    using bump_none(1) [OF b] by (simp add: put_record_def Let_def attempts_of_def)
  have ok: "map_of (handles d) q \<noteq> Some False" for q using w by (simp add: dlq_well_def dlq_ok_def open_ok_def)
  obtain d' where d': "appendRecord (regularPath p) ?r d1 = (Some (GoError ''dlq: write''), d')"
    "text_of d' = (text_of d)(regularPath p := text_of d (regularPath p) @ take k (line_of ?r @ [newline]))"
    using append_torn [of d1 "regularPath p" k ?r] d1 ok g by (auto simp: fault_at_write_def)
  have h: "\<forall>q. jsonl q \<longrightarrow> holds d q (recs d q)" using well_whole [OF w] by (simp add: whole_def)
  have o: "text_of d' q = text_of d q" if "q \<noteq> regularPath p" for q using d'(2) that by simp
  have "torn_at (regularPath p) (recs d (regularPath p)) ?r k d'"
    unfolding torn_at_def
  proof (intro conjI allI impI)
    show "text_of d' (regularPath p) = lines_of (recs d (regularPath p)) @ take k (line_of ?r)"
      using d'(2) h k by (simp add: holds_def)
    show "holds d' q (recs d' q)" if "jsonl q" "q \<noteq> regularPath p" for q
      using h that o [OF that(2)] recs_cong [of d' q d] by (simp add: holds_def)
  qed
  from open_torn [OF this paths(1) _ g k] h have "\<exists>x. dlq_Open (dlq_files d') flts = Inl x" for flts
    by (simp add: holds_def)
  moreover have "dlq_Put now p e reason permanent ?d = (Some (GoError ''dlq: write''), d')"
    using np b d'(1) by (simp add: dlq_Put_def rr Let_def)
  ultimately show ?thesis using that by blast
qed

section \<open>Properties\<close>

text \<open>
  C21. \<^verbatim>\<open>Remove\<close> is safe under failure: whichever of its system calls fail, and wherever the process dies in it,
  every record file is afterwards whole, the two files of the provider hold all their records or
  exactly those that were to stay, all other files hold theirs, and the next \<^verbatim>\<open>Open\<close>
  succeeds on them. Where it reports success both files are filtered.
\<close>

theorem remove_survives_faults:
  assumes "whole d" "files_ok d" "dlq_Remove p ids d = (err, d')"
  shows "\<exists>d2. dlq_Open (dlq_files d') [] = Inr d2 \<and> dlq_well d2
     \<and> (\<forall>q. jsonl q \<longrightarrow> recs d2 q = recs d q
          \<or> q \<in> {regularPath p, poisonPath p} \<and> recs d2 q = filter (\<lambda>r. ID (rec_Event r) \<notin> set ids) (recs d q))
     \<and> (err = None \<longrightarrow> (\<forall>q \<in> {regularPath p, poisonPath p}.
          recs d2 q = filter (\<lambda>r. ID (rec_Event r) \<notin> set ids) (recs d q)))"
proof -
  note r = Remove_any [OF assms(3,1)]
  obtain d2 where d2: "dlq_Open (dlq_files d') [] = Inr d2" "dlq_well d2"
    "\<forall>q. jsonl q \<longrightarrow> recs d2 q = recs d' q"
    using whole_open [OF r(1) dlq_Remove_files [OF assms(3,2)]] by blast
  then show ?thesis
    using r(2-4) by (intro exI [of _ d2]) (auto simp: without_def)
qed

theorem remove_survives_faults_witness:
  "\<exists>err d' d2. dlq_Remove ''p'' [''e1''] (demo_dlq\<lparr>dlq_faults := [NoFault, NoFault, NoFault, NoFault, NoFault, Fault 7]\<rparr>) = (err, d')
     \<and> dlq_Open (dlq_files d') [] = Inr d2 \<and> recs d2 (poisonPath ''p'') = []
     \<and> length (recs d2 (regularPath ''p'')) \<in> {0, 1}"
proof -
  let ?d = "demo_dlq\<lparr>dlq_faults := [NoFault, NoFault, NoFault, NoFault, NoFault, Fault 7]\<rparr>"
  obtain err d' where r: "dlq_Remove ''p'' [''e1''] ?d = (err, d')" by fastforce
  from remove_survives_faults [OF _ _ r] well_whole [OF demo_dlq_well(1)] demo_dlq_well(2)
  obtain d2 where d2: "dlq_Open (dlq_files d') [] = Inr d2"
    "\<forall>q. jsonl q \<longrightarrow> recs d2 q = recs demo_dlq q
       \<or> q \<in> {regularPath ''p'', poisonPath ''p''}
         \<and> recs d2 q = filter (\<lambda>r. ID (rec_Event r) \<notin> set [''e1'']) (recs demo_dlq q)" by auto
  have "recs d2 (poisonPath ''p'') = []"
    using d2(2) [rule_format, OF paths(2) [of "''p''"]] demo_dlq_well(4) by auto
  moreover have "length (recs d2 (regularPath ''p'')) \<in> {0, 1}"
    using d2(2) [rule_format, OF paths(1) [of "''p''"]] demo_dlq_well(3)
    by (auto simp: put_record_def Let_def demo_event_def)
  ultimately show ?thesis using r d2(1) by blast
qed

text \<open>
  C22. \<^verbatim>\<open>Put\<close> under failure, whichever of its system calls fail and wherever the process dies in it: either
  the next \<^verbatim>\<open>Open\<close> succeeds and lists the record's file with the record or as before
  (with it, where \<^verbatim>\<open>Put\<close> reports success), all others as before but for the earlier records of an event that
  moves to the poison file; or \<^verbatim>\<open>Put\<close> failed and left a prefix of the record's line, and unless that is the whole
  line no later \<^verbatim>\<open>Open\<close> succeeds, whatever else fails or works.
\<close>

theorem put_is_whole_or_torn:
  assumes "whole d" "files_ok d" "r = put_record now p e reason permanent d" "good_rec r"
    and "dlq_Put now p e reason permanent d = (err, d')"
  shows "(\<exists>d2. dlq_Open (dlq_files d') [] = Inr d2 \<and> dlq_well d2 \<and> others_kept p r d d2
         \<and> (recs d2 (put_path p r) = recs d (put_path p r) \<and> err \<noteq> None
            \<or> recs d2 (put_path p r) = recs d (put_path p r) @ [r]))
     \<or> (err \<noteq> None \<and> (\<exists>k. 0 < k \<and> k \<le> length (line_of r)
         \<and> text_of d' (put_path p r) = lines_of (recs d (put_path p r)) @ take k (line_of r)
         \<and> (k < length (line_of r) \<longrightarrow> (\<forall>flts. \<exists>x. dlq_Open (dlq_files d') flts = Inl x))))"
proof -
  have path: "jsonl (put_path p r)" by (simp add: put_path_def)
  consider (whole) "others_kept p r d d'" "whole d'" "recs d' (put_path p r) = recs d (put_path p r) \<and> err \<noteq> None
      \<or> recs d' (put_path p r) = recs d (put_path p r) @ [r]"
    | (torn) k where "0 < k" "k \<le> length (line_of r)" "torn_at (put_path p r) (recs d (put_path p r)) r k d'" "err \<noteq> None"
    using Put_any [OF assms(5,1,3,4)] unfolding put_outcome_def by blast
  then show ?thesis
  proof cases
    case whole
    obtain d2 where "dlq_Open (dlq_files d') [] = Inr d2" "dlq_well d2"
      "\<forall>q. jsonl q \<longrightarrow> recs d2 q = recs d' q"
      using whole_open [OF whole(2) dlq_Put_files [OF assms(5,2)]] by blast
    with whole(1,3) path show ?thesis by (auto simp: others_kept_def)
  next
    case torn
    have "list_all good_rec (recs d (put_path p r))" using assms(1) path by (simp add: whole_def holds_def)
    from open_torn [OF torn(3) path this assms(4) torn(1)] torn show ?thesis by (auto simp: torn_at_def)
  qed
qed

theorem put_is_whole_or_torn_witness:
  "\<exists>err d'. dlq_Put zero_time ''p'' demo_event ''no'' True (empty_dlq\<lparr>dlq_faults := [NoFault, Fault 5]\<rparr>) = (err, d')
     \<and> ((\<exists>d2. dlq_Open (dlq_files d') [] = Inr d2) \<or> err \<noteq> None)"
proof -
  let ?d = "empty_dlq\<lparr>dlq_faults := [NoFault, Fault 5]\<rparr>"
  obtain err d' where r: "dlq_Put zero_time ''p'' demo_event ''no'' True ?d = (err, d')" by fastforce
  from put_is_whole_or_torn [OF _ _ refl _ r] well_whole [OF empty_dlq_well(1)] empty_dlq_well(2) demo_record_good
  show ?thesis using r by auto
qed

end
