(* ===== verification/Wal.thy ===== *)
theory Wal
  imports Segment
begin

text \<open>
  internal/wal/wal.go: the write-ahead log's state and every operation on it.
  Locks and the writer goroutine serialise all changes, so an operation is a
  function on the state; the request channel, the batches the writer forms and
  the steps of \<^verbatim>\<open>Close\<close> are in \<open>Wal_System\<close>. The \<^verbatim>\<open>apply\<close> closure of a write request is the
  datatype \<open>applyOp\<close> and its interpreter \<open>apply_op\<close>.
\<close>

section \<open>State\<close>

record entryState =
  es_event :: Event
  es_pending :: "string list"
  es_segSeq :: nat

type_synonym index = "(string, entryState) gomap"

datatype applyOp =
    ApplyEvent Event "string list"
  | ApplyAck string string

record writeRequest =
  req_frame :: "byte list"
  req_apply :: applyOp

record wal =
  maxSegmentBytes :: int
  maxBytes :: int
  w_index :: index
  segments :: "segment list"
  nextSeq :: nat
  w_closed :: bool
  w_disk :: disk

definition defaultMaxSegmentBytes :: int where
  "defaultMaxSegmentBytes = 64 * 1024 * 1024"

definition active_segment :: "wal \<Rightarrow> segment" where
  "active_segment w = last (segments w)"

definition set_active :: "segment \<Rightarrow> wal \<Rightarrow> wal" where
  "set_active s w = w\<lparr>segments := butlast (segments w) @ [s]\<rparr>"

section \<open>The index\<close>

text \<open>A provider set is a list without repetitions.\<close>

definition index_event :: "Event \<Rightarrow> string list \<Rightarrow> nat \<Rightarrow> index \<Rightarrow> index" where
  "index_event e ps n idx =
     AList.update (ID e) \<lparr>es_event = e, es_pending = remdups ps, es_segSeq = n\<rparr> idx"

definition index_ack :: "string \<Rightarrow> string \<Rightarrow> index \<Rightarrow> index" where
  "index_ack i p idx =
     (case map_of idx i of None \<Rightarrow> idx
      | Some en \<Rightarrow>
          (let ps = removeAll p (es_pending en)
           in if ps = [] then AList.delete i idx
              else AList.update i (en\<lparr>es_pending := ps\<rparr>) idx))"

section \<open>Reference counts and segment collection\<close>

fun increfSegment :: "nat \<Rightarrow> segment list \<Rightarrow> segment list" where
  "increfSegment n [] = []"
| "increfSegment n (s # ss) =
     (if seg_seq s = n then s\<lparr>seg_refCount := seg_refCount s + 1\<rparr> # ss
      else s # increfSegment n ss)"

fun decrefSegment :: "nat \<Rightarrow> segment list \<Rightarrow> segment list" where
  "decrefSegment n [] = []"
| "decrefSegment n (s # ss) =
     (if seg_seq s = n then s\<lparr>seg_refCount := seg_refCount s - 1\<rparr> # ss
      else s # decrefSegment n ss)"

definition release_file :: "segment \<Rightarrow> disk \<Rightarrow> disk" where
  "release_file s d =
     (let d1 = (if seg_f s = NilFile then d else snd (snd (segment_close s d)))
      in snd (os_remove (seg_seq s) d1))"

fun gc_front :: "segment list \<Rightarrow> disk \<Rightarrow> segment list \<times> disk" where
  "gc_front (s # t # ss) d =
     (if seg_refCount s = 0 then gc_front (t # ss) (release_file s d) else (s # t # ss, d))"
| "gc_front ss d = (ss, d)"

definition gcSegments :: "wal \<Rightarrow> wal" where
  "gcSegments w =
     (case gc_front (segments w) (w_disk w) of (ss, d) \<Rightarrow> w\<lparr>segments := ss, w_disk := d\<rparr>)"

section \<open>Committing a batch\<close>

definition wal_rotate :: "wal \<Rightarrow> wal_error option \<times> wal" where
  "wal_rotate w =
     (let active = active_segment w in
      case segment_sync active (w_disk w) of
        (Some e, d1) \<Rightarrow> (Some e, w\<lparr>w_disk := d1\<rparr>)
      | (None, d1) \<Rightarrow>
          (case segment_close active d1 of
             (Some e, active', d2) \<Rightarrow> (Some e, set_active active' (w\<lparr>w_disk := d2\<rparr>))
           | (None, active', d2) \<Rightarrow>
               (case createSegment (nextSeq w) d2 of
                  (None, d3) \<Rightarrow> (Some ErrIO, set_active active' (w\<lparr>w_disk := d3\<rparr>))
                | (Some s, d3) \<Rightarrow>
                    (None, w\<lparr>segments := butlast (segments w) @ [active', s],
                             nextSeq := nextSeq w + 1, w_disk := d3\<rparr>))))"

text \<open>One request's row of \<^verbatim>\<open>writeErrs\<close>, \<^verbatim>\<open>segSeqs\<close> and \<^verbatim>\<open>synced\<close>.\<close>

record slot =
  sl_err :: "wal_error option"
  sl_seq :: nat
  sl_synced :: bool

definition mark_synced :: "slot \<Rightarrow> slot" where
  "mark_synced sl = (if sl_err sl = None then sl\<lparr>sl_synced := True\<rparr> else sl)"

definition write_slot :: "writeRequest \<Rightarrow> wal \<Rightarrow> slot \<times> wal" where
  "write_slot r w =
     (case segment_append (active_segment w) (req_frame r) (w_disk w) of (err, s, d) \<Rightarrow>
        (\<lparr>sl_err = err, sl_seq = seg_seq s, sl_synced = False\<rparr>, set_active s (w\<lparr>w_disk := d\<rparr>)))"

definition needs_rotation :: "writeRequest \<Rightarrow> wal \<Rightarrow> bool" where
  "needs_rotation r w \<longleftrightarrow>
     seg_size (active_segment w) + int (length (req_frame r)) > maxSegmentBytes w"

fun commit_writes :: "writeRequest list \<Rightarrow> slot list \<Rightarrow> wal \<Rightarrow> slot list \<times> wal" where
  "commit_writes [] slots w = (slots, w)"
| "commit_writes (r # rs) slots w =
     (if needs_rotation r w then
        (case wal_rotate w of
           (Some e, w1) \<Rightarrow>
             commit_writes rs (slots @ [\<lparr>sl_err = Some e, sl_seq = 0, sl_synced = True\<rparr>]) w1
         | (None, w1) \<Rightarrow>
             (case write_slot r w1 of (sl, w2) \<Rightarrow>
                commit_writes rs (map mark_synced slots @ [sl]) w2))
      else
        (case write_slot r w of (sl, w2) \<Rightarrow> commit_writes rs (slots @ [sl]) w2))"

definition apply_op :: "applyOp \<Rightarrow> nat \<Rightarrow> wal \<Rightarrow> wal" where
  "apply_op op n w =
     (case op of
        ApplyEvent e ps \<Rightarrow>
          (let ss = (case map_of (w_index w) (ID e) of
                       Some prev \<Rightarrow> decrefSegment (es_segSeq prev) (segments w)
                     | None \<Rightarrow> segments w)
           in w\<lparr>w_index := index_event e ps n (w_index w), segments := increfSegment n ss\<rparr>)
      | ApplyAck i p \<Rightarrow>
          (case map_of (w_index w) i of
             None \<Rightarrow> w
           | Some en \<Rightarrow>
               (if removeAll p (es_pending en) = []
                then w\<lparr>w_index := index_ack i p (w_index w),
                       segments := decrefSegment (es_segSeq en) (segments w)\<rparr>
                else w\<lparr>w_index := index_ack i p (w_index w)\<rparr>)))"

definition slot_result :: "wal_error option \<Rightarrow> slot \<Rightarrow> wal_error option" where
  "slot_result syncErr sl =
     (if sl_err sl = None \<and> \<not> sl_synced sl then syncErr else sl_err sl)"

fun apply_batch :: "wal_error option \<Rightarrow> (writeRequest \<times> slot) list \<Rightarrow> wal
    \<Rightarrow> wal_error option list \<times> wal" where
  "apply_batch syncErr [] w = ([], w)"
| "apply_batch syncErr ((r, sl) # rest) w =
     (let err = slot_result syncErr sl;
          w1 = (if err = None then apply_op (req_apply r) (sl_seq sl) w else w)
      in case apply_batch syncErr rest w1 of (errs, w2) \<Rightarrow> (err # errs, w2))"

definition commitBatch :: "writeRequest list \<Rightarrow> wal \<Rightarrow> wal_error option list \<times> wal" where
  "commitBatch batch w =
     (case commit_writes batch [] w of (slots, w1) \<Rightarrow>
      case segment_sync (active_segment w1) (w_disk w1) of (syncErr, d) \<Rightarrow>
      case apply_batch syncErr (zip batch slots) (w1\<lparr>w_disk := d\<rparr>) of (errs, w2) \<Rightarrow>
        (errs, gcSegments w2))"

section \<open>Append, Ack and the read-only operations\<close>

definition TotalBytes :: "wal \<Rightarrow> int" where
  "TotalBytes w = sum_list (map seg_size (segments w))"

text \<open>What \<^verbatim>\<open>Append\<close> does before it submits: check, marshal, check the size.\<close>

definition append_request :: "Event \<Rightarrow> string list \<Rightarrow> wal \<Rightarrow> wal_error + writeRequest" where
  "append_request e ps w =
     (if w_closed w then Inl ErrClosed
      else case marshal_eventPayload \<lparr>pl_Event = e, pl_Providers = ps\<rparr> of
        None \<Rightarrow> Inl ErrMarshal
      | Some pl \<Rightarrow>
          (let frame = encodeFrame recTypeEvent pl in
           if maxBytes w > 0 \<and> TotalBytes w + int (length frame) > maxBytes w
           then Inl ErrBufferFull
           else Inr \<lparr>req_frame = frame, req_apply = ApplyEvent e ps\<rparr>))"

definition ack_request :: "string \<Rightarrow> string \<Rightarrow> Disposition \<Rightarrow> wal \<Rightarrow> wal_error + writeRequest" where
  "ack_request i p disp w =
     (if w_closed w then Inl ErrClosed
      else case marshal_ackPayload
            \<lparr>ack_EventID = i, ack_Provider = p, ack_Disposition = int (Disposition_int disp)\<rparr> of
        None \<Rightarrow> Inl ErrMarshal
      | Some pl \<Rightarrow> Inr \<lparr>req_frame = encodeFrame recTypeAck pl, req_apply = ApplyAck i p\<rparr>)"

text \<open>A request that meets no other in the channel is committed alone.\<close>

definition submit :: "wal_error + writeRequest \<Rightarrow> wal \<Rightarrow> wal_error option \<times> wal" where
  "submit q w =
     (case q of Inl e \<Rightarrow> (Some e, w)
      | Inr r \<Rightarrow> (case commitBatch [r] w of (errs, w') \<Rightarrow> (hd errs, w')))"

definition wal_Append :: "Event \<Rightarrow> string list \<Rightarrow> wal \<Rightarrow> wal_error option \<times> wal" where
  "wal_Append e ps w = submit (append_request e ps w) w"

definition wal_Ack :: "string \<Rightarrow> string \<Rightarrow> Disposition \<Rightarrow> wal \<Rightarrow> wal_error option \<times> wal" where
  "wal_Ack i p disp w = submit (ack_request i p disp w) w"

definition wal_Pending :: "wal \<Rightarrow> (Event \<times> string list) list" where
  "wal_Pending w = map (\<lambda>(_, en). (es_event en, es_pending en)) (w_index w)"

definition UnackedCount :: "wal \<Rightarrow> nat" where
  "UnackedCount w = length (w_index w)"

text \<open>
  \<^verbatim>\<open>Close\<close>: what follows the wait for the writer, and the whole call when the
  writer has nothing left to do. Closing the channel twice panics.
\<close>

definition close_active :: "wal \<Rightarrow> wal_error option \<times> wal" where
  "close_active w =
     (case segment_sync (active_segment w) (w_disk w) of
        (Some e, d) \<Rightarrow> (Some e, w\<lparr>w_disk := d\<rparr>)
      | (None, d) \<Rightarrow>
          (case segment_close (active_segment w) d of (err, s, d2) \<Rightarrow>
             (err, set_active s (w\<lparr>w_disk := d2\<rparr>))))"

definition wal_Close :: "wal \<Rightarrow> (wal_error option \<times> wal) go" where
  "wal_Close w = (if w_closed w then Panics else Returns (close_active (w\<lparr>w_closed := True\<rparr>)))"

section \<open>Replay\<close>

datatype open_error = OpenPanic | OpenIO | OpenDecode

text \<open>
  \<^verbatim>\<open>os.Open\<close> and the reader's view of a file. A read error part way is not
  told apart from the end of the file: \<^verbatim>\<open>decodeRecords\<close> stops at either.
\<close>

definition os_read :: "nat \<Rightarrow> disk \<Rightarrow> byte list option \<times> disk" where
  "os_read n d =
     (case os_call d of (ok, d1) \<Rightarrow>
      if \<not> ok \<or> map_of (files d1) n = None then (None, d1)
      else (case next_fault d1 of
          (NoFault, d2) \<Rightarrow> (Some (file_bytes d2 n), d2)
        | (Fault k, d2) \<Rightarrow> (Some (take k (file_bytes d2 n)), d2)))"

text \<open>The body of the loop over records; \<open>None\<close> is a payload that does not decode.\<close>

definition replay_record :: "nat \<Rightarrow> decodedRecord \<Rightarrow> index \<Rightarrow> index option" where
  "replay_record n rec idx =
     (if recType rec = recTypeEvent then
        (case unmarshal_eventPayload (payload rec) of None \<Rightarrow> None
         | Some p \<Rightarrow> Some (index_event (pl_Event p) (pl_Providers p) n idx))
      else if recType rec = recTypeAck then
        (case unmarshal_ackPayload (payload rec) of None \<Rightarrow> None
         | Some a \<Rightarrow> Some (index_ack (ack_EventID a) (ack_Provider a) idx))
      else Some idx)"

fun replay_records :: "nat \<Rightarrow> decodedRecord list \<Rightarrow> index \<Rightarrow> index option" where
  "replay_records n [] idx = Some idx"
| "replay_records n (r # rs) idx =
     (case replay_record n r idx of None \<Rightarrow> None | Some idx' \<Rightarrow> replay_records n rs idx')"

fun replay_segments :: "nat list \<Rightarrow> index \<Rightarrow> disk \<Rightarrow> (open_error + index) \<times> disk" where
  "replay_segments [] idx d = (Inr idx, d)"
| "replay_segments (n # ns) idx d =
     (case os_read n d of
        (None, d1) \<Rightarrow> (Inl OpenIO, d1)
      | (Some bs, d1) \<Rightarrow>
          (let d2 = snd (os_call d1) in
           case decodeRecords bs of
             Panics \<Rightarrow> (Inl OpenPanic, d2)
           | Returns rs \<Rightarrow>
               (case replay_records n rs idx of
                  None \<Rightarrow> (Inl OpenDecode, d2)
                | Some idx' \<Rightarrow> replay_segments ns idx' d2)))"

definition next_seq_of :: "nat list \<Rightarrow> nat" where
  "next_seq_of ns = foldl (\<lambda>nxt n. if n \<ge> nxt then n + 1 else nxt) 0 ns"

text \<open>The segments before collection: no size is read, and no file is open.\<close>

definition replayed_segments :: "nat list \<Rightarrow> index \<Rightarrow> segment list" where
  "replayed_segments ns idx =
     map (\<lambda>n. \<lparr>seg_seq = n, seg_f = NilFile, seg_size = 0,
               seg_refCount = int (count_vals (\<lambda>en. es_segSeq en = n) idx)\<rparr>) ns"

text \<open>The collection loop of replay: unlike \<open>gc_front\<close> it stops at an error.\<close>

fun replay_gc :: "segment list \<Rightarrow> disk \<Rightarrow> segment list option \<times> disk" where
  "replay_gc (s # t # ss) d =
     (if seg_refCount s = 0 then
        (case os_remove (seg_seq s) d of
           (False, d1) \<Rightarrow> (None, d1)
         | (True, d1) \<Rightarrow> replay_gc (t # ss) d1)
      else (Some (s # t # ss), d))"
| "replay_gc ss d = (Some ss, d)"

text \<open>The segment list is completed with its active segment: a new one or the last one.\<close>

definition open_active :: "segment list \<Rightarrow> nat \<Rightarrow> disk \<Rightarrow> (segment list \<times> nat) option \<times> disk" where
  "open_active ss nxt d =
     (if ss = [] then
        (case createSegment nxt d of
           (None, d1) \<Rightarrow> (None, d1)
         | (Some s, d1) \<Rightarrow> (Some ([s], nxt + 1), d1))
      else
        (case openSegmentForAppend (seg_seq (last ss)) d of
           (None, d1) \<Rightarrow> (None, d1)
         | (Some s, d1) \<Rightarrow>
             (Some (butlast ss @ [s\<lparr>seg_refCount := seg_refCount (last ss)\<rparr>], nxt), d1)))"

text \<open>
  \<^verbatim>\<open>Open\<close> with its options: \<^verbatim>\<open>MkdirAll\<close>, the directory scan, replay, collection,
  and the active segment.
\<close>

definition wal_Open :: "int \<Rightarrow> int \<Rightarrow> disk \<Rightarrow> (open_error + wal) \<times> disk" where
  "wal_Open maxSeg maxB d0 =
     (case os_call d0 of (mk, d1) \<Rightarrow>
      if \<not> mk then (Inl OpenIO, d1) else
      case os_call d1 of (ls, d2) \<Rightarrow>
      if \<not> ls then (Inl OpenIO, d2) else
      let ns = segment_seqs d2 in
      case replay_segments ns [] d2 of
        (Inl e, d3) \<Rightarrow> (Inl e, d3)
      | (Inr idx, d3) \<Rightarrow>
          (case replay_gc (replayed_segments ns idx) d3 of
             (None, d4) \<Rightarrow> (Inl OpenIO, d4)
           | (Some ss, d4) \<Rightarrow>
               (case open_active ss (next_seq_of ns) d4 of
                  (None, d5) \<Rightarrow> (Inl OpenIO, d5)
                | (Some (ss', nxt), d5) \<Rightarrow>
                    (Inr \<lparr>maxSegmentBytes = maxSeg, maxBytes = maxB, w_index = idx,
                          segments = ss', nextSeq = nxt, w_closed = False, w_disk = d5\<rparr>, d5))))"

end
