(* ===== verification/Wal_Inv.thy ===== *)
theory Wal_Inv
  imports Wal
begin

text \<open>
  The structural invariant of the write-ahead log, kept by every operation under
  every fault schedule: the segment list is never empty and strictly
  ascending, every unresolved entry lives in a listed segment, and each
  reference count is the number of entries of its segment.
\<close>

section \<open>The invariant\<close>

abbreviation seqs :: "wal \<Rightarrow> nat list" where
  "seqs w \<equiv> map seg_seq (segments w)"

definition refs :: "nat \<Rightarrow> index \<Rightarrow> nat" where
  "refs n idx = count_vals (\<lambda>en. es_segSeq en = n) idx"

definition counts_ok :: "segment list \<Rightarrow> index \<Rightarrow> bool" where
  "counts_ok ss idx \<longleftrightarrow> (\<forall>s \<in> set ss. seg_refCount s = int (refs (seg_seq s) idx))"

definition entries_in :: "nat set \<Rightarrow> index \<Rightarrow> bool" where
  "entries_in N idx \<longleftrightarrow> (\<forall>i en. map_of idx i = Some en \<longrightarrow> es_segSeq en \<in> N)"

definition keyed :: "index \<Rightarrow> bool" where
  "keyed idx \<longleftrightarrow> (\<forall>i en. map_of idx i = Some en \<longrightarrow> ID (es_event en) = i)"

definition wal_inv :: "wal \<Rightarrow> bool" where
  "wal_inv w \<longleftrightarrow>
     segments w \<noteq> [] \<and> sorted_wrt (<) (seqs w) \<and> (\<forall>n \<in> set (seqs w). n < nextSeq w)
     \<and> map_ok (w_index w) \<and> keyed (w_index w)
     \<and> entries_in (set (seqs w)) (w_index w) \<and> counts_ok (segments w) (w_index w)"

text \<open>The index operation of a request, at the segment its frame landed in.\<close>

definition index_op :: "applyOp \<Rightarrow> nat \<Rightarrow> index \<Rightarrow> index" where
  "index_op op n idx =
     (case op of ApplyEvent e ps \<Rightarrow> index_event e ps n idx | ApplyAck i p \<Rightarrow> index_ack i p idx)"

section \<open>The index operations\<close>

lemma index_event_lookup:
  "map_of (index_event e ps n idx) =
     (map_of idx)(ID e \<mapsto> \<lparr>es_event = e, es_pending = remdups ps, es_segSeq = n\<rparr>)"
  by (simp add: index_event_def)

lemma index_ack_lookup:
  "map_of (index_ack i p idx) =
     (case map_of idx i of None \<Rightarrow> map_of idx
      | Some en \<Rightarrow>
          (if removeAll p (es_pending en) = [] then (map_of idx)(i := None)
           else (map_of idx)(i \<mapsto> en\<lparr>es_pending := removeAll p (es_pending en)\<rparr>)))"
  by (auto simp: index_ack_def Let_def split: option.splits)

lemma index_op_ok [simp]: "map_ok idx \<Longrightarrow> map_ok (index_op op n idx)"
  by (auto simp: index_op_def index_event_def index_ack_def Let_def split: applyOp.split option.split)

lemma index_op_cong:
  "map_of idx = map_of idx' \<Longrightarrow> map_of (index_op op n idx) = map_of (index_op op n idx')"
  by (cases op) (simp_all add: index_op_def index_event_lookup index_ack_lookup split: option.split)

lemma index_op_keyed [simp]: "keyed idx \<Longrightarrow> keyed (index_op op n idx)"
  by (cases op)
    (auto simp: keyed_def index_op_def index_event_lookup index_ack_lookup split: if_splits option.splits)

lemma index_op_entries:
  "entries_in N idx \<Longrightarrow> n \<in> N \<Longrightarrow> entries_in N (index_op op n idx)"
  by (cases op)
    (auto simp: entries_in_def index_op_def index_event_lookup index_ack_lookup
      split: if_splits option.splits)

lemma entries_in_mono: "entries_in N idx \<Longrightarrow> N \<subseteq> M \<Longrightarrow> entries_in M idx"
  by (auto simp: entries_in_def)

lemma refs_zero_iff:
  "map_ok idx \<Longrightarrow> refs n idx = 0 \<longleftrightarrow> (\<forall>i en. map_of idx i = Some en \<longrightarrow> es_segSeq en \<noteq> n)"
  using count_vals_pos_iff [of "\<lambda>en. es_segSeq en = n" idx]
  by (auto simp: refs_def map_ok_def)

lemma refs_outside: "entries_in N idx \<Longrightarrow> map_ok idx \<Longrightarrow> n \<notin> N \<Longrightarrow> refs n idx = 0"
  by (auto simp: refs_zero_iff entries_in_def)

section \<open>Counting references\<close>

lemma incref_map:
  "distinct (map seg_seq ss) \<Longrightarrow> increfSegment n ss =
     map (\<lambda>s. if seg_seq s = n then s\<lparr>seg_refCount := seg_refCount s + 1\<rparr> else s) ss"
  by (induction ss) (auto intro!: map_idI [symmetric], metis image_eqI)

lemma decref_map:
  "distinct (map seg_seq ss) \<Longrightarrow> decrefSegment n ss =
     map (\<lambda>s. if seg_seq s = n then s\<lparr>seg_refCount := seg_refCount s - 1\<rparr> else s) ss"
  by (induction ss) (auto intro!: map_idI [symmetric], metis image_eqI)

lemma incref_fields [simp]:
  "map seg_seq (increfSegment n ss) = map seg_seq ss"
  "map seg_seq (decrefSegment n ss) = map seg_seq ss"
  "map seg_f (increfSegment n ss) = map seg_f ss"
  "map seg_f (decrefSegment n ss) = map seg_f ss"
  "map seg_size (increfSegment n ss) = map seg_size ss"
  "map seg_size (decrefSegment n ss) = map seg_size ss"
  by (induction ss) auto


lemma refs_delete:
  "map_ok idx \<Longrightarrow> map_of idx i = Some en \<Longrightarrow>
     int (refs n (AList.delete i idx)) = int (refs n idx) - (if es_segSeq en = n then 1 else 0)"
  by (simp add: refs_def count_vals_delete [where k = i])

lemma refs_event:
  "map_ok idx \<Longrightarrow> int (refs n (index_event e ps m idx)) = int (refs n idx)
     - (case map_of idx (ID e) of Some pr \<Rightarrow> if es_segSeq pr = n then 1 else 0 | None \<Rightarrow> 0)
     + (if m = n then 1 else 0)"
proof (cases "map_of idx (ID e)")
  case None
  then show ?thesis
    by (simp add: refs_def index_event_def count_vals_update_new)
next
  case (Some pr)
  assume ok: "map_ok idx"
  let ?v = "\<lparr>es_event = e, es_pending = remdups ps, es_segSeq = m\<rparr>"
  have "count_vals (\<lambda>en. es_segSeq en = n) (AList.update (ID e) ?v idx)
      + (if es_segSeq pr = n then 1 else 0)
      = count_vals (\<lambda>en. es_segSeq en = n) idx + (if m = n then 1 else 0)"
    using count_vals_update_old [OF ok Some, of "\<lambda>en. es_segSeq en = n" ?v] by simp
  with Some show ?thesis
    unfolding refs_def index_event_def by (simp split: if_splits)
qed

lemma refs_ack_keep:
  assumes "map_ok idx" "map_of idx i = Some en" "removeAll p (es_pending en) \<noteq> []"
  shows "refs n (index_ack i p idx) = refs n idx"
proof -
  let ?en = "en\<lparr>es_pending := removeAll p (es_pending en)\<rparr>"
  have "refs n (AList.update i ?en idx) = refs n idx"
    using count_vals_update_old [OF assms(1,2), of "\<lambda>en. es_segSeq en = n" ?en]
    by (simp add: refs_def split: if_splits)
  with assms(2,3) show ?thesis by (simp add: index_ack_def Let_def)
qed

definition counts_as :: "segment list \<Rightarrow> (nat \<Rightarrow> int) \<Rightarrow> bool" where
  "counts_as ss c \<longleftrightarrow> (\<forall>s \<in> set ss. seg_refCount s = c (seg_seq s))"

lemma counts_ok_as: "counts_ok ss idx \<longleftrightarrow> counts_as ss (\<lambda>m. int (refs m idx))"
  by (simp add: counts_ok_def counts_as_def)

lemma counts_incref:
  "distinct (map seg_seq ss) \<Longrightarrow> counts_as ss c \<Longrightarrow>
     counts_as (increfSegment n ss) (\<lambda>m. c m + (if m = n then 1 else 0))"
  by (auto simp: incref_map counts_as_def)

lemma counts_decref:
  "distinct (map seg_seq ss) \<Longrightarrow> counts_as ss c \<Longrightarrow>
     counts_as (decrefSegment n ss) (\<lambda>m. c m - (if n = m then 1 else 0))"
  by (auto simp: decref_map counts_as_def)

section \<open>Applying a request\<close>

lemma apply_op_seqs [simp]: "seqs (apply_op op n w) = seqs w"
  by (cases op) (auto simp: apply_op_def Let_def split: option.splits)

lemma apply_op_nonempty [simp]: "segments (apply_op op n w) = [] \<longleftrightarrow> segments w = []"
  using apply_op_seqs [of op n w] by (metis map_is_Nil_conv)

lemma apply_op_frame [simp]:
  "nextSeq (apply_op op n w) = nextSeq w" "w_disk (apply_op op n w) = w_disk w"
  "maxSegmentBytes (apply_op op n w) = maxSegmentBytes w" "maxBytes (apply_op op n w) = maxBytes w"
  "w_closed (apply_op op n w) = w_closed w"
  "map seg_f (segments (apply_op op n w)) = map seg_f (segments w)"
  "map seg_size (segments (apply_op op n w)) = map seg_size (segments w)"
  by (cases op; auto simp: apply_op_def Let_def split: option.splits)+

lemma apply_op_index [simp]: "w_index (apply_op op n w) = index_op op n (w_index w)"
  by (cases op) (auto simp: apply_op_def index_op_def index_ack_def Let_def split: option.splits)

lemma counts_apply_op:
  assumes d: "distinct (seqs w)" and ok: "map_ok (w_index w)"
    and c: "counts_ok (segments w) (w_index w)"
  shows "counts_ok (segments (apply_op op n w)) (index_op op n (w_index w))"
proof (cases op)
  case (ApplyEvent e ps)
  let ?c = "\<lambda>m. int (refs m (w_index w))"
  let ?dec = "\<lambda>m. case map_of (w_index w) (ID e) of Some pr \<Rightarrow> if es_segSeq pr = m then 1 else 0 | None \<Rightarrow> 0"
  let ?ss = "case map_of (w_index w) (ID e) of
       Some prev \<Rightarrow> decrefSegment (es_segSeq prev) (segments w) | None \<Rightarrow> segments w"
  have "counts_as ?ss (\<lambda>m. ?c m - ?dec m)"
    using c d by (auto simp: counts_ok_as intro: counts_decref split: option.splits)
  moreover have "distinct (map seg_seq ?ss)"
    using d by (auto split: option.splits)
  ultimately have "counts_as (increfSegment n ?ss)
      (\<lambda>m. ?c m - ?dec m + (if m = n then 1 else 0))"
    by (rule counts_incref [rotated])
  then show ?thesis
    by (simp add: ApplyEvent apply_op_def index_op_def counts_ok_as refs_event [OF ok] eq_commute [of n])
next
  case (ApplyAck i p)
  show ?thesis
  proof (cases "map_of (w_index w) i")
    case None
    with c ApplyAck show ?thesis
      by (simp add: apply_op_def index_op_def index_ack_def)
  next
    case (Some en)
    show ?thesis
    proof (cases "removeAll p (es_pending en) = []")
      case True
      with Some c ApplyAck counts_decref [OF d] show ?thesis
        by (simp add: counts_ok_as apply_op_def index_op_def index_ack_def refs_delete [OF ok Some])
    next
      case False
      with Some c ApplyAck refs_ack_keep [OF ok Some False] show ?thesis
        by (simp add: counts_ok_def apply_op_def index_op_def)
    qed
  qed
qed

lemma wal_inv_distinct: "wal_inv w \<Longrightarrow> distinct (seqs w)"
  by (simp add: wal_inv_def strict_sorted_iff)

lemma apply_op_inv:
  "wal_inv w \<Longrightarrow> n \<in> set (seqs w) \<Longrightarrow> wal_inv (apply_op op n w)"
  using wal_inv_distinct [of w] counts_apply_op [of w op n]
  unfolding wal_inv_def apply_op_index apply_op_frame apply_op_nonempty apply_op_seqs
  by (simp add: index_op_entries)


section \<open>Writing and rotating\<close>

text \<open>All the invariant sees of the segments: sequence numbers and counts.\<close>

definition skel :: "wal \<Rightarrow> (nat \<times> int) list" where
  "skel w = map (\<lambda>s. (seg_seq s, seg_refCount s)) (segments w)"

lemma seqs_skel: "seqs w = map fst (skel w)"
  by (simp add: skel_def o_def)

lemma counts_ok_skel: "counts_ok (segments w) idx \<longleftrightarrow> (\<forall>(n, c) \<in> set (skel w). c = int (refs n idx))"
  by (auto simp: counts_ok_def skel_def)

lemma skel_nonempty: "segments w = [] \<longleftrightarrow> skel w = []"
  by (simp add: skel_def)

lemma wal_inv_skel:
  "skel w' = skel w \<Longrightarrow> nextSeq w' = nextSeq w \<Longrightarrow> w_index w' = w_index w \<Longrightarrow>
     wal_inv w' = wal_inv w"
  unfolding wal_inv_def counts_ok_skel skel_nonempty seqs_skel by simp

lemma segment_append_fields:
  "segment_append s data d = (err, s', d') \<Longrightarrow>
     seg_seq s' = seg_seq s \<and> seg_refCount s' = seg_refCount s \<and> seg_f s' = seg_f s"
  by (auto simp: segment_append_def split: if_splits prod.splits)

lemma segment_close_fields:
  "segment_close s d = (err, s', d') \<Longrightarrow>
     seg_seq s' = seg_seq s \<and> seg_refCount s' = seg_refCount s \<and> seg_size s' = seg_size s"
  by (auto simp: segment_close_def split: if_splits prod.splits)

lemma createSegment_fields:
  "createSegment n d = (Some s, d') \<Longrightarrow>
     s = \<lparr>seg_seq = n, seg_f = OpenFile, seg_size = 0, seg_refCount = 0\<rparr>"
  by (auto simp: createSegment_def split: if_splits prod.splits)

lemma skel_set_active:
  "segments w \<noteq> [] \<Longrightarrow> seg_seq s = seg_seq (active_segment w) \<Longrightarrow>
     seg_refCount s = seg_refCount (active_segment w) \<Longrightarrow> skel (set_active s w) = skel w"
  unfolding skel_def set_active_def active_segment_def
  by (cases "segments w" rule: rev_cases) simp_all

lemma set_active_frame [simp]:
  "nextSeq (set_active s w) = nextSeq w" "w_index (set_active s w) = w_index w"
  "maxSegmentBytes (set_active s w) = maxSegmentBytes w" "maxBytes (set_active s w) = maxBytes w"
  "w_closed (set_active s w) = w_closed w" "w_disk (set_active s w) = w_disk w"
  "segments (set_active s w) \<noteq> []" "active_segment (set_active s w) = s"
  by (simp_all add: set_active_def active_segment_def)

lemma skel_disk [simp]: "skel (w\<lparr>w_disk := d\<rparr>) = skel w"
  by (simp add: skel_def)

lemma active_segment_disk [simp]: "active_segment (w\<lparr>w_disk := d\<rparr>) = active_segment w"
  by (simp add: active_segment_def)

lemma write_slot_skel:
  assumes "segments w \<noteq> []" "write_slot r w = (sl, w')"
  shows "skel w' = skel w" "nextSeq w' = nextSeq w" "w_index w' = w_index w"
    "sl_seq sl = seg_seq (active_segment w)" "segments w' \<noteq> []"
proof -
  obtain err s d where a: "segment_append (active_segment w) (req_frame r) (w_disk w) = (err, s, d)"
    by (metis prod_cases3)
  then have w': "w' = set_active s (w\<lparr>w_disk := d\<rparr>)" and sl: "sl_seq sl = seg_seq s"
    using assms(2) by (auto simp: write_slot_def)
  from segment_append_fields [OF a] assms(1) show "skel w' = skel w"
    unfolding w' by (subst skel_set_active) simp_all
  show "nextSeq w' = nextSeq w" "w_index w' = w_index w" "segments w' \<noteq> []"
    by (simp_all add: w')
  show "sl_seq sl = seg_seq (active_segment w)"
    using segment_append_fields [OF a] sl by simp
qed

lemma rotate_skel:
  assumes "segments w \<noteq> []" "wal_rotate w = (err, w')"
  shows "w_index w' = w_index w"
    and "err \<noteq> None \<Longrightarrow> skel w' = skel w \<and> nextSeq w' = nextSeq w"
    and "err = None \<Longrightarrow> skel w' = skel w @ [(nextSeq w, 0)] \<and> nextSeq w' = nextSeq w + 1"
proof -
  have skel: "skel (set_active s (w\<lparr>w_disk := d\<rparr>)) = skel w"
    if "segment_close (active_segment w) d' = (e, s, d'')" for s d d' d'' e
    using segment_close_fields [OF that] assms(1) by (subst skel_set_active) simp_all
  have new: "map (\<lambda>s. (seg_seq s, seg_refCount s)) (butlast (segments w) @ [a, s]) =
      skel w @ [(nextSeq w, 0)]"
    if "segment_close (active_segment w) d = (e, a, d')" "createSegment (nextSeq w) d2 = (Some s, d3)"
    for a s d d' e d2 d3
    using segment_close_fields [OF that(1)] createSegment_fields [OF that(2)] assms(1)
    unfolding skel_def active_segment_def by (cases "segments w" rule: rev_cases) simp_all
  show "w_index w' = w_index w"
    using assms(2) by (auto simp: wal_rotate_def Let_def split: prod.splits option.splits)
  show "err \<noteq> None \<Longrightarrow> skel w' = skel w \<and> nextSeq w' = nextSeq w"
    using assms(2) by (auto simp: wal_rotate_def Let_def skel split: prod.splits option.splits)
  show "err = None \<Longrightarrow> skel w' = skel w @ [(nextSeq w, 0)] \<and> nextSeq w' = nextSeq w + 1"
    using assms(2)
    by (auto simp: wal_rotate_def Let_def split: prod.splits option.splits)
      (subst skel_def, simp add: new [simplified])
qed

lemma wal_inv_new_segment:
  assumes "wal_inv w" "skel w' = skel w @ [(nextSeq w, 0)]" "nextSeq w' = nextSeq w + 1"
    "w_index w' = w_index w"
  shows "wal_inv w'"
proof -
  have out: "nextSeq w \<notin> set (seqs w)" using assms(1) by (auto simp: wal_inv_def)
  then have "refs (nextSeq w) (w_index w) = 0"
    using assms(1) by (intro refs_outside [where N = "set (seqs w)"]) (simp_all add: wal_inv_def)
  moreover have "entries_in (set (map fst (skel w'))) (w_index w)"
    using assms(1,2) by (auto simp: wal_inv_def seqs_skel intro: entries_in_mono)
  ultimately show ?thesis
    using assms unfolding wal_inv_def counts_ok_skel skel_nonempty seqs_skel
    by (auto simp: sorted_wrt_append less_Suc_eq)
qed

lemma rotate_inv:
  assumes "wal_inv w" "wal_rotate w = (err, w')"
  shows "wal_inv w'"
proof -
  have ne: "segments w \<noteq> []" using assms(1) by (simp add: wal_inv_def)
  show ?thesis
  proof (cases err)
    case None
    with rotate_skel [OF ne assms(2)] assms(1) show ?thesis
      by (auto intro: wal_inv_new_segment)
  next
    case (Some e)
    with rotate_skel [OF ne assms(2)] assms(1) wal_inv_skel [of w' w] show ?thesis by simp
  qed
qed

lemma rotate_seqs:
  assumes "segments w \<noteq> []" "wal_rotate w = (err, w')"
  shows "set (seqs w) \<subseteq> set (seqs w')"
  using rotate_skel [OF assms] by (cases err) (auto simp: seqs_skel)

lemma active_in_seqs: "segments w \<noteq> [] \<Longrightarrow> seg_seq (active_segment w) \<in> set (seqs w)"
  by (simp add: active_segment_def)

definition slots_in :: "nat set \<Rightarrow> slot list \<Rightarrow> bool" where
  "slots_in N sls \<longleftrightarrow> (\<forall>sl \<in> set sls. sl_err sl = None \<longrightarrow> sl_seq sl \<in> N)"

lemma slots_in_mark [simp]: "slots_in N (map mark_synced sls) = slots_in N sls"
  by (induction sls) (auto simp: slots_in_def mark_synced_def)

lemma slots_in_append [simp]: "slots_in N (xs @ ys) \<longleftrightarrow> slots_in N xs \<and> slots_in N ys"
  by (auto simp: slots_in_def)

lemma slots_in_mono: "slots_in N xs \<Longrightarrow> N \<subseteq> M \<Longrightarrow> slots_in M xs"
  by (auto simp: slots_in_def)

lemma write_slot_in:
  assumes "segments w \<noteq> []" "write_slot r w = (sl, w')"
  shows "slots_in (set (seqs w')) [sl]" "set (seqs w') = set (seqs w)"
  using write_slot_skel [OF assms] active_in_seqs [OF assms(1)]
  by (simp_all add: slots_in_def seqs_skel)

lemma write_slot_inv:
  assumes "wal_inv w" "write_slot r w = (sl, w')"
  shows "wal_inv w'"
proof -
  have "segments w \<noteq> []" using assms(1) by (simp add: wal_inv_def)
  from write_slot_skel [OF this assms(2)] wal_inv_skel [of w' w] assms(1) show ?thesis by simp
qed

lemma wal_inv_nonempty: "wal_inv w \<Longrightarrow> segments w \<noteq> []"
  by (simp add: wal_inv_def)

text \<open>One request of a commit: its slot joins those before it.\<close>

lemma write_step_inv:
  assumes "wal_inv w" "slots_in (set (seqs w)) sls" "write_slot r w = (sl, w')"
  shows "wal_inv w'" "slots_in (set (seqs w')) (sls @ [sl])" "w_index w' = w_index w"
proof -
  note ne = wal_inv_nonempty [OF assms(1)]
  show "wal_inv w'" using assms(1,3) by (rule write_slot_inv)
  show "slots_in (set (seqs w')) (sls @ [sl])" using write_slot_in [OF ne assms(3)] assms(2) by simp
  show "w_index w' = w_index w" using write_slot_skel [OF ne assms(3)] by simp
qed

lemma commit_writes_inv:
  "commit_writes rs sls w = (sls', w') \<Longrightarrow> wal_inv w \<Longrightarrow> slots_in (set (seqs w)) sls \<Longrightarrow>
     wal_inv w' \<and> w_index w' = w_index w \<and> slots_in (set (seqs w')) sls'
     \<and> length sls' = length sls + length rs"
proof (induction rs sls w rule: commit_writes.induct)
  case (1 sls w)
  then show ?case by simp
next
  case (2 r rs sls w)
  note ne = wal_inv_nonempty [OF "2.prems"(2)]
  show ?case
  proof (cases "needs_rotation r w")
    case False
    obtain sl w2 where ws: "write_slot r w = (sl, w2)" by fastforce
    with "2.prems"(1) False "2.IH"(3) [OF False ws [symmetric]] write_step_inv [OF "2.prems"(2,3) ws]
    show ?thesis by simp
  next
    case True
    obtain err w1 where ro: "wal_rotate w = (err, w1)" by fastforce
    have w1: "wal_inv w1" using "2.prems"(2) ro by (rule rotate_inv)
    have sls1: "slots_in (set (seqs w1)) sls"
      using "2.prems"(3) rotate_seqs [OF ne ro] by (rule slots_in_mono)
    show ?thesis
    proof (cases err)
      case (Some e)
      have "slots_in (set (seqs w1)) (sls @ [\<lparr>sl_err = Some e, sl_seq = 0, sl_synced = True\<rparr>])"
        using sls1 by (simp add: slots_in_def)
      with "2.prems"(1) True ro Some "2.IH"(2) [OF True ro [symmetric] Some] w1 rotate_skel(1) [OF ne ro]
      show ?thesis by simp
    next
      case None
      obtain sl w2 where ws: "write_slot r w1 = (sl, w2)" by fastforce
      have "slots_in (set (seqs w1)) (map mark_synced sls)" using sls1 by simp
      with "2.prems"(1) True ro None ws "2.IH"(1) [OF True ro [symmetric] None ws [symmetric]]
        write_step_inv [OF w1 _ ws, of "map mark_synced sls"] rotate_skel(1) [OF ne ro]
      show ?thesis by simp
    qed
  qed
qed


section \<open>Applying and collecting\<close>

lemma apply_batch_inv:
  "apply_batch se rsl w = (errs, w') \<Longrightarrow> wal_inv w \<Longrightarrow> slots_in (set (seqs w)) (map snd rsl) \<Longrightarrow>
     wal_inv w' \<and> seqs w' = seqs w \<and> length errs = length rsl"
proof (induction se rsl w arbitrary: errs rule: apply_batch.induct)
  case (1 se w)
  then show ?case by simp
next
  case (2 se r sl rest w)
  let ?err = "slot_result se sl"
  let ?w1 = "if ?err = None then apply_op (req_apply r) (sl_seq sl) w else w"
  obtain errs2 where rest: "apply_batch se rest ?w1 = (errs2, w')" "errs = ?err # errs2"
    using "2.prems"(1) by (auto simp: Let_def split: prod.splits)
  have "sl_seq sl \<in> set (seqs w)" if "?err = None"
    using that "2.prems"(3) by (auto simp: slots_in_def slot_result_def split: if_splits)
  then have "wal_inv ?w1"
    using "2.prems"(2) by (simp add: apply_op_inv)
  moreover have "seqs ?w1 = seqs w" by simp
  ultimately show ?case
    using "2.IH" [OF refl refl rest(1)] "2.prems"(3) rest(2) by (simp add: slots_in_def)
qed

lemma gc_front_suffix:
  "gc_front ss d = (ss', d') \<Longrightarrow>
     \<exists>pre. ss = pre @ ss' \<and> (\<forall>s \<in> set pre. seg_refCount s = 0) \<and> (ss \<noteq> [] \<longrightarrow> ss' \<noteq> [])"
proof (induction ss d rule: gc_front.induct)
  case (1 s t ss d)
  show ?case
  proof (cases "seg_refCount s = 0")
    case True
    with 1 obtain pre where "t # ss = pre @ ss'" "\<forall>x \<in> set pre. seg_refCount x = 0" "ss' \<noteq> []"
      by auto
    with True show ?thesis by (intro exI [of _ "s # pre"]) simp
  next
    case False
    with "1.prems" show ?thesis by simp
  qed
qed simp_all

text \<open>Collection stops at the first segment in use, so the head of the list is in use.\<close>

lemma gc_front_head:
  "gc_front ss d = (ss', d') \<Longrightarrow> 1 < length ss' \<Longrightarrow> seg_refCount (hd ss') \<noteq> 0"
  by (induction ss d rule: gc_front.induct) (auto split: if_splits)

text \<open>No entry is lost with a prefix of segments that none refers to.\<close>

lemma drop_unreferenced:
  assumes "map_ok idx" "counts_ok (pre @ ss) idx" "\<forall>s \<in> set pre. seg_refCount s = 0"
    "entries_in (set (map seg_seq (pre @ ss))) idx"
  shows "entries_in (set (map seg_seq ss)) idx"
  unfolding entries_in_def
proof (intro allI impI)
  fix i en
  assume i: "map_of idx i = Some en"
  have "refs (seg_seq s) idx = 0" if "s \<in> set pre" for s
    using assms(2,3) that by (auto simp: counts_ok_def)
  then have "es_segSeq en \<noteq> seg_seq s" if "s \<in> set pre" for s
    using i that refs_zero_iff [OF assms(1)] by blast
  moreover have "es_segSeq en \<in> set (map seg_seq (pre @ ss))"
    using assms(4) i by (simp only: entries_in_def)
  ultimately show "es_segSeq en \<in> set (map seg_seq ss)" by auto
qed

lemma gcSegments_inv:
  assumes "wal_inv w"
  shows "wal_inv (gcSegments w)"
proof -
  obtain ss d where gc: "gc_front (segments w) (w_disk w) = (ss, d)" by fastforce
  from gc_front_suffix [OF gc] obtain pre where
    pre: "segments w = pre @ ss" "\<forall>s \<in> set pre. seg_refCount s = 0" "ss \<noteq> []"
    using assms by (auto simp: wal_inv_def)
  have "map_ok (w_index w)" "counts_ok (pre @ ss) (w_index w)"
    "entries_in (set (map seg_seq (pre @ ss))) (w_index w)"
    using assms unfolding wal_inv_def pre(1) by blast+
  then have "entries_in (set (map seg_seq ss)) (w_index w)"
    using pre(2) by (metis drop_unreferenced)
  moreover have "w_index (gcSegments w) = w_index w" "segments (gcSegments w) = ss"
    "nextSeq (gcSegments w) = nextSeq w"
    by (simp_all add: gcSegments_def gc)
  ultimately show ?thesis
    using assms pre(1,3) unfolding wal_inv_def counts_ok_def
    by (simp add: sorted_wrt_append)
qed

theorem commitBatch_inv:
  assumes "wal_inv w"
  shows "wal_inv (snd (commitBatch batch w))"
    and "length (fst (commitBatch batch w)) = length batch"
proof -
  obtain sls w1 where cw: "commit_writes batch [] w = (sls, w1)" by fastforce
  obtain se d where sy: "segment_sync (active_segment w1) (w_disk w1) = (se, d)" by fastforce
  obtain errs w2 where ab: "apply_batch se (zip batch sls) (w1\<lparr>w_disk := d\<rparr>) = (errs, w2)"
    by fastforce
  from commit_writes_inv [OF cw assms] have w1: "wal_inv w1"
    and sls: "slots_in (set (seqs w1)) sls" and len: "length sls = length batch"
    by (simp_all add: slots_in_def)
  have "wal_inv (w1\<lparr>w_disk := d\<rparr>)"
    using w1 wal_inv_skel [of "w1\<lparr>w_disk := d\<rparr>" w1] by simp
  with apply_batch_inv [OF ab] sls len have "wal_inv w2" "length errs = length batch"
    by simp_all
  then show "wal_inv (snd (commitBatch batch w))" "length (fst (commitBatch batch w)) = length batch"
    by (simp_all add: commitBatch_def cw sy ab gcSegments_inv)
qed

lemma submit_inv: "wal_inv w \<Longrightarrow> wal_inv (snd (submit q w))"
  using commitBatch_inv(1) by (auto simp: submit_def split: sum.splits prod.splits) (metis snd_conv)

section \<open>Replay establishes the invariant\<close>

lemma replay_record_ok:
  "replay_record n r idx = Some idx' \<Longrightarrow>
     (map_ok idx \<longrightarrow> map_ok idx') \<and> (keyed idx \<longrightarrow> keyed idx')
     \<and> (\<forall>N. entries_in N idx \<longrightarrow> n \<in> N \<longrightarrow> entries_in N idx')"
  using index_op_ok [of idx "ApplyEvent _ _" n] index_op_ok [of idx "ApplyAck _ _" n]
    index_op_keyed [of idx "ApplyEvent _ _" n] index_op_keyed [of idx "ApplyAck _ _" n]
    index_op_entries [of _ idx n "ApplyEvent _ _"] index_op_entries [of _ idx n "ApplyAck _ _"]
  by (auto simp: replay_record_def index_op_def split: if_splits option.splits)

lemma replay_records_ok:
  "replay_records n rs idx = Some idx' \<Longrightarrow> map_ok idx \<Longrightarrow> keyed idx \<Longrightarrow> entries_in N idx \<Longrightarrow> n \<in> N \<Longrightarrow>
     map_ok idx' \<and> keyed idx' \<and> entries_in N idx'"
proof (induction n rs idx rule: replay_records.induct)
  case (2 n r rs idx)
  then show ?case
    using replay_record_ok [of n r idx] by (auto split: option.splits)
qed simp

lemma replay_segments_ok:
  "replay_segments ns idx d = (Inr idx', d') \<Longrightarrow> map_ok idx \<Longrightarrow> keyed idx \<Longrightarrow> entries_in N idx \<Longrightarrow>
     set ns \<subseteq> N \<Longrightarrow> map_ok idx' \<and> keyed idx' \<and> entries_in N idx'"
proof (induction ns idx d rule: replay_segments.induct)
  case (2 n ns idx d)
  from "2.prems"(1) obtain bs d1 rs idx1 where
    "os_read n d = (Some bs, d1)" "decodeRecords bs = Returns rs"
    "replay_records n rs idx = Some idx1" "replay_segments ns idx1 (snd (os_call d1)) = (Inr idx', d')"
    by (auto simp: Let_def split: prod.splits option.splits go.splits)
  moreover from this have "map_ok idx1 \<and> keyed idx1 \<and> entries_in N idx1"
    using "2.prems"(2-5) by (intro replay_records_ok) auto
  ultimately show ?case
    using "2.IH" "2.prems"(5) by simp
qed simp

lemma replay_gc_suffix:
  "replay_gc ss d = (Some ss', d') \<Longrightarrow>
     \<exists>pre. ss = pre @ ss' \<and> (\<forall>s \<in> set pre. seg_refCount s = 0) \<and> (ss \<noteq> [] \<longrightarrow> ss' \<noteq> [])"
proof (induction ss d rule: replay_gc.induct)
  case (1 s t ss d)
  show ?case
  proof (cases "seg_refCount s = 0")
    case True
    with "1.prems" obtain d1 where rm: "os_remove (seg_seq s) d = (True, d1)"
      and rest: "replay_gc (t # ss) d1 = (Some ss', d')"
      by (auto split: prod.splits bool.splits)
    from "1.IH" [OF True rm [symmetric] refl rest] obtain pre where
      "t # ss = pre @ ss'" "\<forall>x \<in> set pre. seg_refCount x = 0" "ss' \<noteq> []" by auto
    with True show ?thesis by (intro exI [of _ "s # pre"]) simp
  next
    case False
    with "1.prems" show ?thesis by simp
  qed
qed simp_all

lemma next_seq_bound: "n \<in> set ns \<Longrightarrow> n < next_seq_of ns"
proof (induction ns rule: rev_induct)
  case (snoc m ns)
  then show ?case by (auto simp: next_seq_of_def)
qed simp

lemma open_active_skel:
  assumes "open_active ss nxt d = (Some (ss', nxt'), d')"
  shows "ss' \<noteq> []"
    and "ss = [] \<Longrightarrow> map (\<lambda>s. (seg_seq s, seg_refCount s)) ss' = [(nxt, 0)] \<and> nxt' = nxt + 1"
    and "ss \<noteq> [] \<Longrightarrow> map (\<lambda>s. (seg_seq s, seg_refCount s)) ss'
           = map (\<lambda>s. (seg_seq s, seg_refCount s)) ss \<and> nxt' = nxt"
proof -
  have seq: "seg_seq s = n" if "openSegmentForAppend n d = (Some s, d'')" for n s d''
    using that by (auto simp: openSegmentForAppend_def split: prod.splits if_splits)
  show "ss' \<noteq> []"
    using assms by (auto simp: open_active_def split: if_splits prod.splits option.splits)
  show "ss = [] \<Longrightarrow> map (\<lambda>s. (seg_seq s, seg_refCount s)) ss' = [(nxt, 0)] \<and> nxt' = nxt + 1"
    using assms by (auto simp: open_active_def dest: createSegment_fields split: prod.splits option.splits)
  show "ss \<noteq> [] \<Longrightarrow> map (\<lambda>s. (seg_seq s, seg_refCount s)) ss'
           = map (\<lambda>s. (seg_seq s, seg_refCount s)) ss \<and> nxt' = nxt"
    using assms by (cases ss rule: rev_cases)
      (auto simp: open_active_def dest: seq split: prod.splits option.splits)
qed


lemma sorted_segment_seqs: "map_ok (files d) \<Longrightarrow> sorted_wrt (<) (segment_seqs d)"
  by (simp add: segment_seqs_def map_ok_def strict_sorted_iff distinct_sort)

lemma next_fault_files [simp]: "files (snd (next_fault d)) = files d"
  by (simp add: next_fault_def split: list.split)

lemma os_call_files [simp]: "files (snd (os_call d)) = files d"
  by (simp add: os_call_def case_prod_beta)

text \<open>What replay and the collection of its segments hand to the opening of the active one.\<close>

lemma replayed_inv:
  assumes "sorted_wrt (<) ns" "map_ok idx" "entries_in (set ns) idx"
    and "replay_gc (replayed_segments ns idx) d = (Some ss, d')"
  shows "counts_ok ss idx" "entries_in (set (map seg_seq ss)) idx" "sorted_wrt (<) (map seg_seq ss)"
    and "set (map seg_seq ss) \<subseteq> set ns" "ns \<noteq> [] \<longrightarrow> ss \<noteq> []"
proof -
  from replay_gc_suffix [OF assms(4)] obtain pre where
    pre: "replayed_segments ns idx = pre @ ss" "\<forall>s \<in> set pre. seg_refCount s = 0"
    and ne: "ns \<noteq> [] \<longrightarrow> ss \<noteq> []"
    by (auto simp: replayed_segments_def)
  have seqs: "map seg_seq (pre @ ss) = ns" and counts: "counts_ok (pre @ ss) idx"
    unfolding pre(1) [symmetric]
    by (simp_all add: replayed_segments_def o_def counts_ok_def refs_def)
  show "entries_in (set (map seg_seq ss)) idx"
    using drop_unreferenced [OF assms(2) counts pre(2)] assms(3) unfolding seqs .
  show "counts_ok ss idx" using counts by (simp add: counts_ok_def)
  show "sorted_wrt (<) (map seg_seq ss)" using assms(1) seqs by (metis map_append sorted_wrt_append)
  show "set (map seg_seq ss) \<subseteq> set ns" using seqs by auto
  show "ns \<noteq> [] \<longrightarrow> ss \<noteq> []" by (rule ne)
qed

theorem wal_Open_inv:
  assumes "map_ok (files d)" "wal_Open maxSeg maxB d = (Inr w, d')"
  shows "wal_inv w"
proof -
  define d2 where "d2 = snd (os_call (snd (os_call d)))"
  define ns where "ns = segment_seqs d2"
  from assms(2) obtain idx d3 ss d4 ss' nxt where
    re: "replay_segments ns [] d2 = (Inr idx, d3)"
    and gc: "replay_gc (replayed_segments ns idx) d3 = (Some ss, d4)"
    and oa: "open_active ss (next_seq_of ns) d4 = (Some (ss', nxt), d')"
    and w: "w = \<lparr>maxSegmentBytes = maxSeg, maxBytes = maxB, w_index = idx, segments = ss',
      nextSeq = nxt, w_closed = False, w_disk = d'\<rparr>"
    unfolding wal_Open_def d2_def ns_def
    by (auto simp: Let_def split: prod.splits sum.splits option.splits if_splits)
  have sorted: "sorted_wrt (<) ns"
    using assms(1) by (simp add: ns_def d2_def sorted_segment_seqs)
  have idx: "map_ok idx" "keyed idx" "entries_in (set ns) idx"
    using replay_segments_ok [OF re, of "set ns"] by (simp_all add: keyed_def entries_in_def)
  note rep = replayed_inv [OF sorted idx(1,3) gc]
  have ent: "entries_in (set (map seg_seq ss)) idx" by (rule rep(2))
  have sk: "ss \<noteq> [] \<Longrightarrow> skel w = map (\<lambda>s. (seg_seq s, seg_refCount s)) ss \<and> nxt = next_seq_of ns"
    "ss = [] \<Longrightarrow> skel w = [(next_seq_of ns, 0)] \<and> nxt = next_seq_of ns + 1" "segments w \<noteq> []"
    using open_active_skel [OF oa] by (simp_all add: skel_def w)
  show ?thesis
  proof (cases "ss = []")
    case True
    then have "refs (next_seq_of ns) idx = 0"
      using refs_outside [of "{}" idx] ent idx(1) by simp
    then show ?thesis
      using sk(2,3) True idx ent unfolding wal_inv_def counts_ok_skel seqs_skel
      by (auto simp: w entries_in_def)
  next
    case False
    have "\<forall>n \<in> set (map seg_seq ss). n < next_seq_of ns" using next_seq_bound rep(4) by blast
    moreover note rep(1,3)
    ultimately show ?thesis
      using sk(1,3) False idx ent unfolding wal_inv_def counts_ok_skel seqs_skel
      by (auto simp: w counts_ok_def o_def image_image)
  qed
qed

end
