(* ===== verification/Wal_Recovery.thy ===== *)
theory Wal_Recovery
  imports Wal_Inv
begin

text \<open>
  Durability. The log a disk holds is the sequence of its records, segment by
  segment, each tagged with its segment. \<open>wal_durable\<close> says that the index in
  memory is the replay of that log. Without faults every commit keeps it
  (collection included: a prefix of segments without live entries can be
  forgotten), so \<^verbatim>\<open>Open\<close> after a crash rebuilds exactly the entries whose
  appends and acks had returned.
\<close>

named_theorems no_fault

section \<open>Records as index operations\<close>

definition record_op :: "decodedRecord \<Rightarrow> applyOp option" where
  "record_op r =
     (if recType r = recTypeEvent then
        map_option (\<lambda>p. ApplyEvent (pl_Event p) (pl_Providers p)) (unmarshal_eventPayload (payload r))
      else if recType r = recTypeAck then
        map_option (\<lambda>a. ApplyAck (ack_EventID a) (ack_Provider a)) (unmarshal_ackPayload (payload r))
      else None)"

definition good :: "decodedRecord \<Rightarrow> bool" where
  "good r \<longleftrightarrow> fits r \<and> record_op r \<noteq> None"

type_synonym log = "(nat \<times> decodedRecord) list"

definition index_rec :: "nat \<times> decodedRecord \<Rightarrow> index \<Rightarrow> index" where
  "index_rec nr idx =
     (case record_op (snd nr) of Some op \<Rightarrow> index_op op (fst nr) idx | None \<Rightarrow> idx)"

definition log_index :: "log \<Rightarrow> index" where
  "log_index L = fold index_rec L []"

lemma replay_record_good: "good r \<Longrightarrow> replay_record n r idx = Some (index_rec (n, r) idx)"
  by (auto simp: good_def record_op_def index_rec_def replay_record_def index_op_def
      split: if_splits option.splits)

lemma replay_records_good:
  "list_all good rs \<Longrightarrow> replay_records n rs idx = Some (fold index_rec (map (Pair n) rs) idx)"
  by (induction rs arbitrary: idx) (simp_all add: replay_record_good)

lemma index_rec_cong:
  "map_of idx = map_of idx' \<Longrightarrow> map_of (index_rec nr idx) = map_of (index_rec nr idx')"
  by (cases "record_op (snd nr)") (auto simp: index_rec_def intro: index_op_cong)

lemma fold_index_cong:
  "map_of idx = map_of idx' \<Longrightarrow> map_of (fold index_rec L idx) = map_of (fold index_rec L idx')"
proof (induction L arbitrary: idx idx')
  case (Cons nr L)
  from Cons.IH [OF index_rec_cong [OF Cons.prems]] show ?case by simp
qed simp

lemma log_index_append: "log_index (L @ M) = fold index_rec M (log_index L)"
  by (simp add: log_index_def)

section \<open>Forgetting a prefix of the log\<close>

text \<open>
  Two indexes that agree except for entries of forgotten segments: no operation
  makes them differ otherwise, since an event replaces its entry in both and an
  ack of a forgotten entry touches nothing else.
\<close>

definition agree_but :: "nat set \<Rightarrow> index \<Rightarrow> index \<Rightarrow> bool" where
  "agree_but X idx idx' \<longleftrightarrow>
     (\<forall>i. map_of idx i = map_of idx' i
        \<or> (map_of idx' i = None \<and> (\<exists>en. map_of idx i = Some en \<and> es_segSeq en \<in> X)))"

lemma agree_index_op: "agree_but X idx idx' \<Longrightarrow> agree_but X (index_op op n idx) (index_op op n idx')"
proof (cases op)
  case (ApplyEvent e ps)
  moreover assume "agree_but X idx idx'"
  ultimately show ?thesis
    by (simp add: agree_but_def index_op_def index_event_lookup)
next
  case (ApplyAck i p)
  assume a: "agree_but X idx idx'"
  then consider "map_of idx i = map_of idx' i"
    | en where "map_of idx' i = None" "map_of idx i = Some en" "es_segSeq en \<in> X"
    unfolding agree_but_def by blast
  then show ?thesis
  proof cases
    case 1
    with a show ?thesis
      by (cases "map_of idx' i")
        (simp_all add: ApplyAck agree_but_def index_op_def index_ack_lookup)
  next
    case 2
    with a show ?thesis
      by (simp add: ApplyAck agree_but_def index_op_def index_ack_lookup)
  qed
qed

lemma agree_index_rec: "agree_but X idx idx' \<Longrightarrow> agree_but X (index_rec nr idx) (index_rec nr idx')"
  by (cases "record_op (snd nr)") (simp_all add: index_rec_def agree_index_op)

lemma agree_fold: "agree_but X idx idx' \<Longrightarrow> agree_but X (fold index_rec L idx) (fold index_rec L idx')"
  by (induction L arbitrary: idx idx') (simp_all add: agree_index_rec)

lemma index_rec_entries:
  "entries_in N idx \<Longrightarrow> fst nr \<in> N \<Longrightarrow> entries_in N (index_rec nr idx)"
  by (cases "record_op (snd nr)") (simp_all add: index_rec_def index_op_entries)

lemma fold_index_entries:
  "entries_in N idx \<Longrightarrow> fst ` set L \<subseteq> N \<Longrightarrow> entries_in N (fold index_rec L idx)"
  by (induction L arbitrary: idx) (auto intro: index_rec_entries)

lemma entries_in_Nil [simp]: "entries_in N []"
  by (simp add: entries_in_def)

lemma log_index_entries: "entries_in (fst ` set L) (log_index L)"
  by (simp add: log_index_def fold_index_entries)

theorem forget_prefix:
  assumes A: "fst ` set A \<subseteq> X" and live: "entries_in N (log_index (A @ B))" and N: "N \<inter> X = {}"
  shows "map_of (log_index (A @ B)) = map_of (log_index B)"
proof
  fix i
  have "entries_in X (log_index A)"
    using log_index_entries A by (rule entries_in_mono)
  then have "agree_but X (log_index A) []"
    unfolding agree_but_def entries_in_def by (metis map_of.simps(1) not_None_eq)
  then have "agree_but X (log_index (A @ B)) (log_index B)"
    by (simp only: log_index_append) (simp add: log_index_def agree_fold)
  then show "map_of (log_index (A @ B)) i = map_of (log_index B) i"
    using live N unfolding agree_but_def entries_in_def by blast
qed

section \<open>The log on disk\<close>

definition seg_records :: "disk \<Rightarrow> nat \<Rightarrow> decodedRecord list" where
  "seg_records d n =
     (case decodeRecords (file_bytes d n) of Returns rs \<Rightarrow> rs | Panics \<Rightarrow> [])"

definition disk_log :: "disk \<Rightarrow> nat list \<Rightarrow> log" where
  "disk_log d ns = concat (map (\<lambda>n. map (Pair n) (seg_records d n)) ns)"

text \<open>The reader gets only records it can apply; the file may end in a torn frame.\<close>

definition readable :: "disk \<Rightarrow> nat \<Rightarrow> bool" where
  "readable d n \<longleftrightarrow> (\<exists>rs. decodeRecords (file_bytes d n) = Returns rs \<and> list_all good rs)"

text \<open>The file is a sequence of whole frames.\<close>

definition intact :: "disk \<Rightarrow> nat \<Rightarrow> bool" where
  "intact d n \<longleftrightarrow> (\<exists>rs. file_bytes d n = frames rs \<and> list_all good rs)"

lemma good_fits: "list_all good rs \<Longrightarrow> list_all fits rs"
  by (auto simp: list_all_iff good_def)

lemma intact_bytes: "intact d n \<Longrightarrow> file_bytes d n = frames (seg_records d n) \<and> list_all good (seg_records d n)"
  by (auto simp: intact_def seg_records_def decode_frames good_fits)

lemma intact_readable: "intact d n \<Longrightarrow> readable d n"
  by (auto simp: intact_def readable_def decode_frames good_fits)

lemma readable_records:
  "readable d n \<Longrightarrow> decodeRecords (file_bytes d n) = Returns (seg_records d n)
     \<and> list_all good (seg_records d n)"
  by (auto simp: readable_def seg_records_def)

lemma disk_log_simps [simp]:
  "disk_log d [] = []"
  "disk_log d (n # ns) = map (Pair n) (seg_records d n) @ disk_log d ns"
  "disk_log d (ns @ ms) = disk_log d ns @ disk_log d ms"
  by (simp_all add: disk_log_def)

lemma disk_log_tags: "fst ` set (disk_log d ns) \<subseteq> set ns"
  by (auto simp: disk_log_def)

lemma disk_log_cong: "(\<And>n. n \<in> set ns \<Longrightarrow> file_bytes d n = file_bytes d' n) \<Longrightarrow>
    disk_log d ns = disk_log d' ns"
  by (simp add: disk_log_def seg_records_def cong: map_cong)

section \<open>The disk without faults\<close>

lemma next_fault_none [no_fault]: "faults d = [] \<Longrightarrow> next_fault d = (NoFault, d)"
  by (simp add: next_fault_def)

lemma os_call_none [no_fault]: "faults d = [] \<Longrightarrow> os_call d = (True, d)"
  by (simp add: os_call_def no_fault)

lemma os_remove_none [no_fault]:
  "faults d = [] \<Longrightarrow> os_remove n d = (True, d\<lparr>files := AList.delete n (files d)\<rparr>)"
  by (simp add: os_remove_def no_fault)

lemma os_write_none [no_fault]:
  "faults d = [] \<Longrightarrow> map_of (files d) n = Some fl \<Longrightarrow>
     os_write n bs d = (length bs, True, set_file n (fl\<lparr>contents := contents fl @ bs\<rparr>) d)"
  by (simp add: os_write_def no_fault)

lemma os_sync_none [no_fault]:
  "faults d = [] \<Longrightarrow> map_of (files d) n = Some fl \<Longrightarrow>
     os_sync n d = (True, set_file n (fl\<lparr>durable := length (contents fl)\<rparr>) d)"
  by (simp add: os_sync_def no_fault)

lemma os_create_none [no_fault]:
  "faults d = [] \<Longrightarrow> map_of (files d) n = None \<Longrightarrow>
     os_create n d = (True, set_file n \<lparr>contents = [], durable = 0\<rparr> d)"
  by (simp add: os_create_def no_fault)

lemma os_read_none [no_fault]:
  "faults d = [] \<Longrightarrow> n \<in> dom (map_of (files d)) \<Longrightarrow> os_read n d = (Some (file_bytes d n), d)"
  by (auto simp: os_read_def no_fault)

lemma set_file_simps [simp]:
  "faults (set_file n fl d) = faults d"
  "map_of (files (set_file n fl d)) = (map_of (files d))(n \<mapsto> fl)"
  "map_ok (files d) \<Longrightarrow> map_ok (files (set_file n fl d))"
  "file_bytes (set_file n fl d) m = (if m = n then contents fl else file_bytes d m)"
  by (simp_all add: set_file_def file_bytes_def)

lemma release_file_none [no_fault]:
  "faults d = [] \<Longrightarrow> release_file s d = d\<lparr>files := AList.delete (seg_seq s) (files d)\<rparr>"
  by (simp add: release_file_def segment_close_def no_fault Let_def)

definition drop_files :: "nat set \<Rightarrow> disk \<Rightarrow> disk \<Rightarrow> bool" where
  "drop_files X d d' \<longleftrightarrow> faults d' = [] \<and> (map_ok (files d) \<longrightarrow> map_ok (files d'))
     \<and> map_of (files d') = (map_of (files d)) |` (- X)"

lemma drop_files_refl: "faults d = [] \<Longrightarrow> drop_files {} d d"
  by (simp add: drop_files_def restrict_map_def)

lemma drop_files_step:
  "faults d = [] \<Longrightarrow> drop_files X (d\<lparr>files := AList.delete n (files d)\<rparr>) d' \<Longrightarrow>
     drop_files (insert n X) d d'"
  by (auto simp: drop_files_def restrict_map_def fun_eq_iff)

lemma gc_front_none:
  "gc_front ss d = (ss', d') \<Longrightarrow> faults d = [] \<Longrightarrow>
     \<exists>pre. ss = pre @ ss' \<and> drop_files (seg_seq ` set pre) d d'"
proof (induction ss d rule: gc_front.induct)
  case (1 s t ss d)
  show ?case
  proof (cases "seg_refCount s = 0")
    case True
    with 1 obtain pre where "t # ss = pre @ ss'"
      "drop_files (seg_seq ` set pre) (d\<lparr>files := AList.delete (seg_seq s) (files d)\<rparr>) d'"
      by (auto simp: release_file_none)
    then show ?thesis
      using "1.prems"(2) by (intro exI [of _ "s # pre"]) (simp add: drop_files_step)
  next
    case False
    with "1.prems" show ?thesis by (simp add: drop_files_refl)
  qed
qed (simp_all add: drop_files_refl)


section \<open>Requests\<close>

text \<open>The record a request's frame holds, and that it is the request's own.\<close>

definition req_record :: "writeRequest \<Rightarrow> decodedRecord" where
  "req_record q = (case decodeRecords (req_frame q) of Returns [r] \<Rightarrow> r | _ \<Rightarrow> undefined)"

definition req_good :: "writeRequest \<Rightarrow> bool" where
  "req_good q \<longleftrightarrow> (\<exists>r. req_frame q = frame_of r \<and> good r \<and> record_op r = Some (req_apply q))"

lemma req_good_record:
  assumes "req_good q"
  shows "req_frame q = frame_of (req_record q)" "good (req_record q)"
    "record_op (req_record q) = Some (req_apply q)"
proof -
  obtain r where r: "req_frame q = frame_of r" "good r" "record_op r = Some (req_apply q)"
    using assms by (auto simp: req_good_def)
  have "decodeRecords (frame_of r) = Returns [r]"
    using decode_frames [of "[r]"] r(2) by (simp add: good_def)
  then have "req_record q = r" by (simp add: req_record_def r(1))
  with r show "req_frame q = frame_of (req_record q)" "good (req_record q)"
    "record_op (req_record q) = Some (req_apply q)" by simp_all
qed

lemma index_rec_request:
  "req_good q \<Longrightarrow> index_rec (n, req_record q) idx = index_op (req_apply q) n idx"
  by (simp add: index_rec_def req_good_record(3))

text \<open>Payloads below 4 GiB, the capacity of a frame's length field.\<close>

definition append_fits :: "Event \<Rightarrow> string list \<Rightarrow> bool" where
  "append_fits e ps \<longleftrightarrow>
     (\<forall>bs. marshal_eventPayload \<lparr>pl_Event = e, pl_Providers = ps\<rparr> = Some bs \<longrightarrow> length bs + 1 < 2 ^ 32)"

definition ack_fits :: "string \<Rightarrow> string \<Rightarrow> Disposition \<Rightarrow> bool" where
  "ack_fits i p disp \<longleftrightarrow>
     (\<forall>bs. marshal_ackPayload \<lparr>ack_EventID = i, ack_Provider = p,
        ack_Disposition = int (Disposition_int disp)\<rparr> = Some bs \<longrightarrow> length bs + 1 < 2 ^ 32)"

lemma append_request_good:
  assumes "append_request e ps w = Inr q" "append_fits e ps"
  shows "req_good q" "req_apply q = ApplyEvent e ps"
proof -
  obtain pl where pl: "marshal_eventPayload \<lparr>pl_Event = e, pl_Providers = ps\<rparr> = Some pl"
    and q: "q = \<lparr>req_frame = encodeFrame recTypeEvent pl, req_apply = ApplyEvent e ps\<rparr>"
    using assms(1) by (auto simp: append_request_def Let_def split: if_splits option.splits)
  show "req_good q"
    using assms(2) pl event_codec.unmarshal_marshal [OF pl] unfolding req_good_def q
    by (intro exI [of _ "\<lparr>recType = recTypeEvent, payload = pl\<rparr>"])
      (simp add: frame_of_def good_def fits_def record_op_def append_fits_def)
  show "req_apply q = ApplyEvent e ps" by (simp add: q)
qed

lemma ack_request_good:
  assumes "ack_request i p disp w = Inr q" "ack_fits i p disp"
  shows "req_good q" "req_apply q = ApplyAck i p"
proof -
  obtain pl where pl: "marshal_ackPayload \<lparr>ack_EventID = i, ack_Provider = p,
      ack_Disposition = int (Disposition_int disp)\<rparr> = Some pl"
    and q: "q = \<lparr>req_frame = encodeFrame recTypeAck pl, req_apply = ApplyAck i p\<rparr>"
    using assms(1) by (auto simp: ack_request_def split: if_splits option.splits)
  show "req_good q"
    using assms(2) pl ack_codec.unmarshal_marshal [OF pl] unfolding req_good_def q
    by (intro exI [of _ "\<lparr>recType = recTypeAck, payload = pl\<rparr>"])
      (simp add: frame_of_def good_def fits_def record_op_def ack_fits_def recTypeEvent_def recTypeAck_def)
  show "req_apply q = ApplyAck i p" by (simp add: q)
qed

section \<open>The durable state\<close>

definition disk_ok :: "wal \<Rightarrow> bool" where
  "disk_ok w \<longleftrightarrow> faults (w_disk w) = [] \<and> map_ok (files (w_disk w))
     \<and> dom (map_of (files (w_disk w))) = set (seqs w)
     \<and> (\<forall>n \<in> set (seqs w). intact (w_disk w) n) \<and> seg_f (active_segment w) = OpenFile"

text \<open>Everything but possibly the file \<^term>\<open>n\<close> is durable.\<close>

definition synced_but :: "nat set \<Rightarrow> disk \<Rightarrow> bool" where
  "synced_but N d \<longleftrightarrow>
     (\<forall>n fl. map_of (files d) n = Some fl \<longrightarrow> n \<notin> N \<longrightarrow> durable fl = length (contents fl))"

text \<open>Files are only appended to, and what is durable stays durable.\<close>

definition grows :: "disk \<Rightarrow> disk \<Rightarrow> bool" where
  "grows d d' \<longleftrightarrow> (\<forall>n fl. map_of (files d) n = Some fl \<longrightarrow>
     (\<exists>fl'. map_of (files d') n = Some fl' \<and> durable fl \<le> durable fl'
        \<and> (\<exists>x. contents fl' = contents fl @ x)))"

lemma grows_refl [simp]: "grows d d"
  by (simp add: grows_def)

lemma grows_trans:
  assumes "grows d d'" "grows d' d''"
  shows "grows d d''"
  unfolding grows_def
proof (intro allI impI)
  fix n fl
  assume "map_of (files d) n = Some fl"
  then obtain fl' x where 1: "map_of (files d') n = Some fl'" "durable fl \<le> durable fl'"
    "contents fl' = contents fl @ x"
    using assms(1) unfolding grows_def by blast
  then obtain fl'' y where "map_of (files d'') n = Some fl''" "durable fl' \<le> durable fl''"
    "contents fl'' = contents fl' @ y"
    using assms(2) unfolding grows_def by blast
  with 1 show "\<exists>fl''. map_of (files d'') n = Some fl'' \<and> durable fl \<le> durable fl''
      \<and> (\<exists>z. contents fl'' = contents fl @ z)"
    by (intro exI [of _ fl'']) simp
qed

abbreviation w_log :: "wal \<Rightarrow> log" where
  "w_log w \<equiv> disk_log (w_disk w) (seqs w)"

definition wal_durable :: "wal \<Rightarrow> bool" where
  "wal_durable w \<longleftrightarrow> wal_inv w \<and> disk_ok w \<and> synced_but {} (w_disk w)
     \<and> map_of (w_index w) = map_of (log_index (w_log w))"

lemma seqs_active:
  "segments w \<noteq> [] \<Longrightarrow> seqs w = map seg_seq (butlast (segments w)) @ [seg_seq (active_segment w)]"
  unfolding active_segment_def by (metis append_butlast_last_id list.simps(8,9) map_append)

lemma seqs_set_active [simp]:
  "seqs (set_active s w) = map seg_seq (butlast (segments w)) @ [seg_seq s]"
  by (simp add: set_active_def)

lemma seg_records_frames: "file_bytes d n = frames rs \<Longrightarrow> list_all good rs \<Longrightarrow> seg_records d n = rs"
  by (simp add: seg_records_def decode_frames good_fits)

lemma append_frame:
  fixes d :: disk
  defines "d' n fl r \<equiv> set_file n (fl\<lparr>contents := contents fl @ frame_of r\<rparr>) d"
  assumes int: "intact d n" and fl: "map_of (files d) n = Some fl" and g: "good r"
  shows "intact (d' n fl r) n" "intact d m \<Longrightarrow> intact (d' n fl r) m"
    "n \<notin> set ns \<Longrightarrow> disk_log (d' n fl r) (ns @ [n]) = disk_log d (ns @ [n]) @ [(n, r)]"
proof -
  have "file_bytes d n = contents fl" using fl by (simp add: file_bytes_def)
  then have new: "file_bytes (d' n fl r) n = frames (seg_records d n @ [r])"
    "list_all good (seg_records d n @ [r])"
    using intact_bytes [OF int] g by (simp_all add: d'_def)
  then show i: "intact (d' n fl r) n" unfolding intact_def by blast
  show "intact (d' n fl r) m" if "intact d m"
    using i that by (cases "m = n") (simp_all add: intact_def d'_def)
  have "seg_records (d' n fl r) n = seg_records d n @ [r]"
    using new by (rule seg_records_frames)
  moreover have "disk_log (d' n fl r) ns = disk_log d ns" if n: "n \<notin> set ns"
  proof (rule disk_log_cong)
    fix m
    assume "m \<in> set ns"
    with n have "m \<noteq> n" by blast
    then show "file_bytes (d' n fl r) m = file_bytes d m" by (simp add: d'_def)
  qed
  ultimately show "n \<notin> set ns \<Longrightarrow> disk_log (d' n fl r) (ns @ [n]) = disk_log d (ns @ [n]) @ [(n, r)]"
    by simp
qed

lemma write_slot_durable:
  assumes inv: "wal_inv w" and ok: "disk_ok w" and q: "req_good q"
    and ws: "write_slot q w = (sl, w')"
  shows "sl = \<lparr>sl_err = None, sl_seq = seg_seq (active_segment w), sl_synced = False\<rparr>"
    and "disk_ok w'" "w_log w' = w_log w @ [(seg_seq (active_segment w), req_record q)]"
    and "seg_seq (active_segment w') = seg_seq (active_segment w)"
    and "synced_but {seg_seq (active_segment w)} (w_disk w) \<Longrightarrow>
      synced_but {seg_seq (active_segment w')} (w_disk w')"
    and "grows (w_disk w) (w_disk w')"
proof -
  let ?a = "active_segment w" and ?d = "w_disk w"
  let ?n = "seg_seq ?a" and ?fr = "frame_of (req_record q)"
  have ne: "segments w \<noteq> []" using inv by (rule wal_inv_nonempty)
  have dist: "?n \<notin> set (map seg_seq (butlast (segments w)))"
    using wal_inv_distinct [OF inv] by (simp only: seqs_active [OF ne]) simp
  have nf: "faults ?d = []" and op: "seg_f ?a = OpenFile"
    using ok by (simp_all add: disk_ok_def)
  have "?n \<in> dom (map_of (files ?d))"
    using ok active_in_seqs [OF ne] by (simp add: disk_ok_def)
  then obtain fl where fl: "map_of (files ?d) ?n = Some fl" by auto
  let ?d' = "set_file ?n (fl\<lparr>contents := contents fl @ ?fr\<rparr>) ?d"
  let ?s = "?a\<lparr>seg_size := seg_size ?a + int (length ?fr)\<rparr>"
  have sa: "segment_append ?a (req_frame q) ?d = (None, ?s, ?d')"
    using nf fl op req_good_record(1) [OF q] by (simp add: segment_append_def os_write_none)
  then have w': "w' = set_active ?s (w\<lparr>w_disk := ?d'\<rparr>)"
    and sl: "sl = \<lparr>sl_err = None, sl_seq = ?n, sl_synced = False\<rparr>"
    using ws by (simp_all add: write_slot_def)
  show "sl = \<lparr>sl_err = None, sl_seq = ?n, sl_synced = False\<rparr>" by (rule sl)
  have seqs': "seqs w' = seqs w"
    by (simp add: w' seqs_active [OF ne])
  have int: "intact ?d ?n" using ok active_in_seqs [OF ne] unfolding disk_ok_def by blast
  note app = append_frame [OF int fl req_good_record(2) [OF q]]
  have "\<forall>n \<in> set (seqs w). intact ?d' n"
    using ok app(2) unfolding disk_ok_def by blast
  then show "disk_ok w'"
    using ok seqs' active_in_seqs [OF ne] unfolding disk_ok_def
    by (simp add: w' op insert_absorb)
  show "w_log w' = w_log w @ [(?n, req_record q)]"
    using app(3) [OF dist] unfolding seqs' seqs_active [OF ne] by (simp only: w') simp
  show "seg_seq (active_segment w') = ?n" by (simp add: w')
  show "synced_but {seg_seq (active_segment w)} (w_disk w) \<Longrightarrow>
      synced_but {seg_seq (active_segment w')} (w_disk w')"
    by (auto simp: w' synced_but_def)
  show "grows (w_disk w) (w_disk w')"
    using fl by (auto simp: w' grows_def)
qed


lemma disk_okD:
  assumes "disk_ok w" "segments w \<noteq> []"
  obtains fl where "map_of (files (w_disk w)) (seg_seq (active_segment w)) = Some fl"
    "faults (w_disk w) = []" "seg_f (active_segment w) = OpenFile"
  using assms active_in_seqs [OF assms(2)] unfolding disk_ok_def by blast

lemma rotate_none:
  assumes "faults (w_disk w) = []" "map_of (files (w_disk w)) (seg_seq (active_segment w)) = Some fl"
    and "seg_f (active_segment w) = OpenFile" "map_of (files (w_disk w)) (nextSeq w) = None"
    and "nextSeq w \<noteq> seg_seq (active_segment w)"
  shows "wal_rotate w = (None, w\<lparr>segments := butlast (segments w) @ [(active_segment w)\<lparr>seg_f := ClosedFile\<rparr>,
        \<lparr>seg_seq = nextSeq w, seg_f = OpenFile, seg_size = 0, seg_refCount = 0\<rparr>],
      nextSeq := nextSeq w + 1,
      w_disk := set_file (nextSeq w) \<lparr>contents = [], durable = 0\<rparr>
        (set_file (seg_seq (active_segment w)) (fl\<lparr>durable := length (contents fl)\<rparr>) (w_disk w))\<rparr>)"
  using assms by (simp add: wal_rotate_def segment_sync_def segment_close_def createSegment_def no_fault Let_def)

lemma rotate_durable:
  assumes inv: "wal_inv w" and ok: "disk_ok w" and ro: "wal_rotate w = (err, w')"
    and sy: "synced_but {seg_seq (active_segment w)} (w_disk w)"
    and len: "\<forall>n fl. map_of (files (w_disk w)) n = Some fl \<longrightarrow> durable fl \<le> length (contents fl)"
  shows "err = None" "disk_ok w'" "w_log w' = w_log w" "synced_but {} (w_disk w')"
    "grows (w_disk w) (w_disk w')"
proof -
  let ?a = "active_segment w" and ?d = "w_disk w"
  let ?n = "seg_seq ?a"
  have ne: "segments w \<noteq> []" using inv by (rule wal_inv_nonempty)
  obtain fl where fl: "map_of (files ?d) ?n = Some fl"
    and nf: "faults ?d = []" and op: "seg_f ?a = OpenFile"
    using ok ne by (rule disk_okD)
  let ?d1 = "set_file ?n (fl\<lparr>durable := length (contents fl)\<rparr>) ?d"
  have fresh: "nextSeq w \<notin> set (seqs w)" using inv by (auto simp: wal_inv_def)
  then have nd: "map_of (files ?d1) (nextSeq w) = None"
    using ok active_in_seqs [OF ne] unfolding disk_ok_def by (auto simp: domIff)
  let ?d2 = "set_file (nextSeq w) \<lparr>contents = [], durable = 0\<rparr> ?d1"
  let ?s = "\<lparr>seg_seq = nextSeq w, seg_f = OpenFile, seg_size = 0, seg_refCount = 0\<rparr>"
  have "wal_rotate w = (None, w\<lparr>segments := butlast (segments w) @ [?a\<lparr>seg_f := ClosedFile\<rparr>, ?s],
      nextSeq := nextSeq w + 1, w_disk := ?d2\<rparr>)"
    using rotate_none [OF nf fl op] nd fresh active_in_seqs [OF ne] by (auto split: if_splits)
  then have e: "err = None" and w': "w' = w\<lparr>segments := butlast (segments w) @
      [?a\<lparr>seg_f := ClosedFile\<rparr>, ?s], nextSeq := nextSeq w + 1, w_disk := ?d2\<rparr>"
    using ro by simp_all
  show "err = None" by (rule e)
  have seqs': "seqs w' = seqs w @ [nextSeq w]"
    by (simp add: w' seqs_active [OF ne])
  have bytes: "file_bytes ?d2 m = file_bytes ?d m" if m: "m \<in> set (seqs w)" for m
  proof -
    from m fresh have "m \<noteq> nextSeq w" by blast
    then show ?thesis using fl by (simp add: file_bytes_def)
  qed
  have "\<forall>m \<in> set (seqs w'). intact ?d2 m"
    using ok bytes unfolding seqs' disk_ok_def intact_def by (auto intro: exI [of _ "[]"])
  moreover have "dom (map_of (files ?d2)) = set (seqs w')"
    using ok active_in_seqs [OF ne] unfolding seqs' disk_ok_def by auto
  moreover have "active_segment w' = ?s" by (simp add: w' active_segment_def)
  ultimately show "disk_ok w'"
    using ok by (simp add: disk_ok_def w')
  have "seg_records ?d2 (nextSeq w) = []"
    by (simp add: seg_records_def)
  moreover have "disk_log ?d2 (seqs w) = disk_log ?d (seqs w)"
    using bytes by (rule disk_log_cong)
  ultimately show "w_log w' = w_log w"
    unfolding seqs' by (simp add: w')
  show "synced_but {} (w_disk w')"
    using sy by (auto simp: w' synced_but_def)
  show "grows (w_disk w) (w_disk w')"
    using fl len nd by (auto simp: w' grows_def domIff)
qed

definition durable_bound :: "disk \<Rightarrow> bool" where
  "durable_bound d \<longleftrightarrow>
     (\<forall>n fl. map_of (files d) n = Some fl \<longrightarrow> durable fl \<le> length (contents fl))"

definition slots_fine :: "slot list \<Rightarrow> bool" where
  "slots_fine sls \<longleftrightarrow> (\<forall>sl \<in> set sls. sl_err sl = None)"

lemma slots_fine_simps [simp]:
  "slots_fine []" "slots_fine (xs @ ys) \<longleftrightarrow> slots_fine xs \<and> slots_fine ys"
  "slots_fine [sl] \<longleftrightarrow> sl_err sl = None"
  by (auto simp: slots_fine_def)

lemma mark_synced_seq [simp]: "map sl_seq (map mark_synced sls) = map sl_seq sls"
  by (simp add: mark_synced_def)

lemma slots_fine_mark [simp]: "slots_fine (map mark_synced sls) = slots_fine sls"
  by (induction sls) (auto simp: slots_fine_def mark_synced_def)

lemma write_slot_bound:
  assumes "wal_inv w" "disk_ok w" "req_good q" "write_slot q w = (sl, w')" "durable_bound (w_disk w)"
  shows "durable_bound (w_disk w')"
proof -
  have ne: "segments w \<noteq> []" using assms(1) by (rule wal_inv_nonempty)
  obtain fl where "map_of (files (w_disk w)) (seg_seq (active_segment w)) = Some fl"
    "faults (w_disk w) = []" "seg_f (active_segment w) = OpenFile"
    using assms(2) ne by (rule disk_okD)
  with assms(4,5) show ?thesis
    by (auto simp: write_slot_def segment_append_def os_write_none durable_bound_def trans_le_add1
      split: if_splits)
qed

lemma rotate_bound:
  assumes "wal_inv w" "disk_ok w" "wal_rotate w = (err, w')" "durable_bound (w_disk w)"
    "synced_but {seg_seq (active_segment w)} (w_disk w)"
  shows "durable_bound (w_disk w')"
  using rotate_durable(4) [OF assms(1,2,3,5)] assms(4) by (auto simp: durable_bound_def synced_but_def)

text \<open>What a run of \<open>commit_writes\<close> has done: \<^term>\<open>ns\<close> are the segments written to.\<close>

definition wrote :: "writeRequest list \<Rightarrow> slot list \<Rightarrow> wal \<Rightarrow> slot list \<Rightarrow> wal \<Rightarrow> bool" where
  "wrote qs sls w sls' w' \<longleftrightarrow>
     (\<exists>ns. map sl_seq sls' = map sl_seq sls @ ns \<and> length ns = length qs
        \<and> w_log w' = w_log w @ zip ns (map req_record qs))
     \<and> slots_fine sls' \<and> disk_ok w' \<and> durable_bound (w_disk w')
     \<and> synced_but {seg_seq (active_segment w')} (w_disk w') \<and> grows (w_disk w) (w_disk w')"

lemma synced_but_mono: "synced_but {} d \<Longrightarrow> synced_but N d"
  by (simp add: synced_but_def)

lemma wrote_step:
  assumes w: "wal_inv w" "disk_ok w" "durable_bound (w_disk w)"
      "synced_but {seg_seq (active_segment w)} (w_disk w)"
    and q: "req_good q" and ws: "write_slot q w = (sl, w2)" and sls: "map sl_seq sls1 = map sl_seq sls"
    and rest: "wrote qs (sls1 @ [sl]) w2 sls' w'"
  shows "wrote (q # qs) sls w sls' w'"
proof -
  note wd = write_slot_durable [OF w(1,2) q ws]
  obtain ns where ns: "map sl_seq sls' = map sl_seq (sls1 @ [sl]) @ ns" "length ns = length qs"
    "w_log w' = w_log w2 @ zip ns (map req_record qs)"
    using rest unfolding wrote_def by blast
  have "map sl_seq sls' = map sl_seq sls @ sl_seq sl # ns"
    using ns(1) sls by simp
  moreover have "w_log w' = w_log w @ zip (sl_seq sl # ns) (map req_record (q # qs))"
    unfolding ns(3) wd(3) by (simp add: wd(1))
  ultimately have "\<exists>ns. map sl_seq sls' = map sl_seq sls @ ns \<and> length ns = length (q # qs)
      \<and> w_log w' = w_log w @ zip ns (map req_record (q # qs))"
    using ns(2) by (intro exI [of _ "sl_seq sl # ns"]) simp
  moreover have "grows (w_disk w) (w_disk w')"
    using wd(6) rest unfolding wrote_def by (blast intro: grows_trans)
  ultimately show ?thesis using rest unfolding wrote_def by blast
qed

lemma commit_writes_durable:
  "commit_writes qs sls w = (sls', w') \<Longrightarrow> wal_inv w \<Longrightarrow> disk_ok w \<Longrightarrow> durable_bound (w_disk w) \<Longrightarrow>
     synced_but {seg_seq (active_segment w)} (w_disk w) \<Longrightarrow> list_all req_good qs \<Longrightarrow>
     slots_fine sls \<Longrightarrow> wrote qs sls w sls' w'"
proof (induction qs sls w rule: commit_writes.induct)
  case (1 sls w)
  then show ?case by (simp add: wrote_def)
next
  case (2 q qs sls w)
  have q: "req_good q" and qs: "list_all req_good qs" using "2.prems"(6) by simp_all
  show ?case
  proof (cases "needs_rotation q w")
    case False
    obtain sl w2 where ws: "write_slot q w = (sl, w2)" by fastforce
    note wd = write_slot_durable [OF "2.prems"(2,3) q ws]
    have "commit_writes qs (sls @ [sl]) w2 = (sls', w')"
      using "2.prems"(1) False ws by simp
    then have "wrote qs (sls @ [sl]) w2 sls' w'"
      using "2.IH"(3) [OF False ws [symmetric]] "2.prems" qs wd
        write_slot_inv [OF "2.prems"(2) ws] write_slot_bound [OF "2.prems"(2,3) q ws] by simp
    then show ?thesis
      using wrote_step [OF "2.prems"(2-5) q ws refl] by simp
  next
    case True
    obtain err w1 where ro: "wal_rotate w = (err, w1)" by fastforce
    note rd = rotate_durable [OF "2.prems"(2,3) ro "2.prems"(5)
        "2.prems"(4) [unfolded durable_bound_def]]
    have w1: "wal_inv w1" "durable_bound (w_disk w1)" "synced_but {seg_seq (active_segment w1)} (w_disk w1)"
      using "2.prems" ro rd by (simp_all add: rotate_inv rotate_bound synced_but_mono)
    obtain sl w2 where ws: "write_slot q w1 = (sl, w2)" by fastforce
    note wd = write_slot_durable [OF w1(1) rd(2) q ws]
    have "commit_writes qs (map mark_synced sls @ [sl]) w2 = (sls', w')"
      using "2.prems"(1) True ro rd(1) ws by simp
    then have "wrote qs (map mark_synced sls @ [sl]) w2 sls' w'"
      using "2.IH"(1) [OF True ro [symmetric] rd(1) ws [symmetric]] "2.prems" qs wd rd(2) w1
        write_slot_inv [OF w1(1) ws] write_slot_bound [OF w1(1) rd(2) q ws] by simp
    then have "wrote (q # qs) sls w1 sls' w'"
      by (rule wrote_step [OF w1(1) rd(2) w1(2,3) q ws mark_synced_seq])
    then show ?thesis
      using rd(3,5) unfolding wrote_def by (metis grows_trans)
  qed
qed

end
