(* ===== verification/Wal_Commit.thy ===== *)
theory Wal_Commit
  imports Wal_Recovery
begin

text \<open>
  The contract of the log is a map from event IDs to the event and the providers
  still to answer (\<open>outstanding\<close>). A batch applies its operations to it in
  order and keeps the durable state; opening a readable disk replays its log.
\<close>

section \<open>The contract: outstanding deliveries\<close>

type_synonym outstanding = "string \<Rightarrow> (Event \<times> string list) option"

definition outstanding :: "index \<Rightarrow> outstanding" where
  "outstanding idx i = map_option (\<lambda>en. (es_event en, es_pending en)) (map_of idx i)"

definition spec_op :: "applyOp \<Rightarrow> outstanding \<Rightarrow> outstanding" where
  "spec_op op m =
     (case op of
        ApplyEvent e ps \<Rightarrow> m(ID e \<mapsto> (e, remdups ps))
      | ApplyAck i p \<Rightarrow>
          (case m i of None \<Rightarrow> m
           | Some (e, ps) \<Rightarrow>
               (if removeAll p ps = [] then m(i := None) else m(i \<mapsto> (e, removeAll p ps)))))"

lemma outstanding_op: "outstanding (index_op op n idx) = spec_op op (outstanding idx)"
  by (cases op)
    (auto simp: outstanding_def spec_op_def index_op_def index_event_lookup index_ack_lookup
      fun_eq_iff split: option.splits)

lemma outstanding_cong: "map_of idx = map_of idx' \<Longrightarrow> outstanding idx = outstanding idx'"
  by (simp add: outstanding_def fun_eq_iff)

lemma outstanding_requests:
  "list_all req_good qs \<Longrightarrow> length ns = length qs \<Longrightarrow>
     outstanding (fold index_rec (zip ns (map req_record qs)) idx)
       = fold spec_op (map req_apply qs) (outstanding idx)"
proof (induction qs arbitrary: ns idx)
  case (Cons q qs)
  then obtain n ns' where "ns = n # ns'" "length ns' = length qs" by (cases ns) auto
  with Cons show ?case by (simp add: index_rec_request outstanding_op)
qed simp

text \<open>
  Under any faults: the index moves by exactly the operations of the requests that
  were told they succeeded.
\<close>

lemma apply_batch_effect:
  "apply_batch se rsl w = (errs, w') \<Longrightarrow> length errs = length rsl \<and>
     outstanding (w_index w') = fold spec_op
       (map (\<lambda>(rsl, err). req_apply (fst rsl)) (filter (\<lambda>(rsl, err). err = None) (zip rsl errs)))
       (outstanding (w_index w))"
proof (induction rsl arbitrary: w errs)
  case (Cons x rsl)
  obtain q sl where x: "x = (q, sl)" by (cases x)
  let ?err = "slot_result se sl"
  let ?w1 = "if ?err = None then apply_op (req_apply q) (sl_seq sl) w else w"
  obtain errs' where rest: "apply_batch se rsl ?w1 = (errs', w')" "errs = ?err # errs'"
    using Cons.prems by (auto simp: x Let_def split: prod.splits)
  show ?case
    using Cons.IH [OF rest(1)] rest(2) by (simp add: x outstanding_op)
qed simp

lemma filter_zip_snd:
  "length xs = length sls \<Longrightarrow> length xs = length errs \<Longrightarrow>
     map (\<lambda>(rsl, err). g (fst rsl)) (filter (\<lambda>(rsl, err). P err) (zip (zip xs sls) errs))
       = map (\<lambda>(r, err). g r) (filter (\<lambda>(r, err). P err) (zip xs errs))"
proof (induction xs arbitrary: sls errs)
  case (Cons x xs)
  obtain sl sls' where sls: "sls = sl # sls'" using Cons.prems(1) by (cases sls) auto
  obtain err errs' where errs: "errs = err # errs'" using Cons.prems(2) by (cases errs) auto
  show ?case using Cons.IH [of sls' errs'] Cons.prems by (simp add: sls errs)
qed simp

lemma commitBatch_effect:
  assumes inv: "wal_inv w" and cb: "commitBatch batch w = (errs, w')"
  shows "outstanding (w_index w') = fold spec_op
       (map (\<lambda>(r, err). req_apply r) (filter (\<lambda>(r, err). err = None) (zip batch errs)))
       (outstanding (w_index w))"
proof -
  obtain sls w1 where cw: "commit_writes batch [] w = (sls, w1)" by fastforce
  obtain se d where sy: "segment_sync (active_segment w1) (w_disk w1) = (se, d)" by fastforce
  obtain es w2 where ab: "apply_batch se (zip batch sls) (w1\<lparr>w_disk := d\<rparr>) = (es, w2)" by fastforce
  have c: "w_index w1 = w_index w" "length sls = length batch"
    using commit_writes_inv [OF cw inv] by (simp_all add: slots_in_def)
  have e: "w' = gcSegments w2" "errs = es"
    using cb by (simp_all add: commitBatch_def cw sy ab)
  have i: "w_index w' = w_index w2"
    by (simp add: e gcSegments_def split: prod.splits)
  have wi: "w_index (w1\<lparr>w_disk := d\<rparr>) = w_index w1" by simp
  have eff: "length es = length (zip batch sls)" "outstanding (w_index w2) = fold spec_op
      (map (\<lambda>(rsl, err). req_apply (fst rsl)) (filter (\<lambda>(rsl, err). err = None) (zip (zip batch sls) es)))
      (outstanding (w_index w1))"
    using apply_batch_effect [OF ab] by (simp_all only: wi simp_thms)
  have "length batch = length sls" "length batch = length es" using c(2) eff(1) by simp_all
  from filter_zip_snd [OF this, of req_apply "\<lambda>err. err = None"]
  show ?thesis unfolding i e(2) eff(2) c(1) by (simp only:)
qed

lemma submit_effect:
  assumes "wal_inv w" "submit q w = (err, w')"
  shows "wal_inv w'"
    and "outstanding (w_index w') = (case (q, err) of
      (Inr r, None) \<Rightarrow> spec_op (req_apply r) (outstanding (w_index w)) | _ \<Rightarrow> outstanding (w_index w))"
proof -
  show "wal_inv w'" using submit_inv [OF assms(1), of q] assms(2) by simp
  show "outstanding (w_index w') = (case (q, err) of
      (Inr r, None) \<Rightarrow> spec_op (req_apply r) (outstanding (w_index w)) | _ \<Rightarrow> outstanding (w_index w))"
  proof (cases q)
    case (Inl e)
    with assms(2) show ?thesis by (simp add: submit_def)
  next
    case (Inr r)
    obtain errs where cb: "commitBatch [r] w = (errs, w')" and err: "err = hd errs"
      using assms(2) Inr by (auto simp: submit_def split: prod.splits)
    have "length errs = 1" using commitBatch_inv(2) [OF assms(1), of "[r]"] cb by simp
    then have "errs = [err]" using err by (cases errs) auto
    with commitBatch_effect [OF assms(1) cb] Inr show ?thesis by (cases err) simp_all
  qed
qed

section \<open>A commit keeps the durable state\<close>

lemma sync_durable:
  assumes inv: "wal_inv w" and ok: "disk_ok w" and bd: "durable_bound (w_disk w)"
    and sy: "synced_but {seg_seq (active_segment w)} (w_disk w)"
    and ss: "segment_sync (active_segment w) (w_disk w) = (err, d)"
  shows "err = None" "disk_ok (w\<lparr>w_disk := d\<rparr>)" "disk_log d (seqs w) = w_log w" "synced_but {} d"
    "grows (w_disk w) d"
proof -
  let ?n = "seg_seq (active_segment w)"
  have ne: "segments w \<noteq> []" using inv by (rule wal_inv_nonempty)
  obtain fl where fl: "map_of (files (w_disk w)) ?n = Some fl"
    and nf: "faults (w_disk w) = []" and op: "seg_f (active_segment w) = OpenFile"
    using ok ne by (rule disk_okD)
  have e: "err = None" and d: "d = set_file ?n (fl\<lparr>durable := length (contents fl)\<rparr>) (w_disk w)"
    using ss fl nf op by (simp_all add: segment_sync_def no_fault)
  have bytes: "file_bytes d m = file_bytes (w_disk w) m" for m
    using fl by (simp add: d file_bytes_def)
  show "err = None" by (rule e)
  have "dom (map_of (files d)) = dom (map_of (files (w_disk w)))"
    using fl by (auto simp: d)
  moreover have "intact d m = intact (w_disk w) m" for m
    by (simp add: intact_def bytes)
  ultimately show "disk_ok (w\<lparr>w_disk := d\<rparr>)"
    using ok unfolding disk_ok_def by (simp add: d)
  show "disk_log d (seqs w) = w_log w" by (rule disk_log_cong) (rule bytes)
  show "synced_but {} d" using sy by (simp add: d synced_but_def)
  show "grows (w_disk w) d"
    using fl bd by (auto simp: d grows_def durable_bound_def)
qed

lemma apply_batch_none:
  "apply_batch None rsl w = (errs, w') \<Longrightarrow> slots_fine (map snd rsl) \<Longrightarrow>
     errs = replicate (length rsl) None
     \<and> w_index w' = fold (\<lambda>(q, sl). index_op (req_apply q) (sl_seq sl)) rsl (w_index w)
     \<and> w_disk w' = w_disk w \<and> map seg_f (segments w') = map seg_f (segments w)"
proof (induction rsl arbitrary: w errs)
  case (Cons x rsl)
  obtain q sl where x: "x = (q, sl)" by (cases x)
  have fine: "slot_result None sl = None" "slots_fine (map snd rsl)"
    using Cons.prems(2) by (simp_all add: x slots_fine_def slot_result_def)
  obtain errs' where "apply_batch None rsl (apply_op (req_apply q) (sl_seq sl) w) = (errs', w')"
    "errs = None # errs'"
    using Cons.prems(1) fine(1) by (auto simp: x Let_def split: prod.splits)
  with Cons.IH [OF this(1) fine(2)] show ?case by (simp add: x)
qed simp

lemma fold_slots:
  "list_all req_good qs \<Longrightarrow> length sls = length qs \<Longrightarrow>
     fold (\<lambda>(q, sl). index_op (req_apply q) (sl_seq sl)) (zip qs sls) idx
       = fold index_rec (zip (map sl_seq sls) (map req_record qs)) idx"
proof (induction qs arbitrary: sls idx)
  case (Cons q qs)
  then obtain sl sls' where "sls = sl # sls'" "length sls' = length qs" by (cases sls) auto
  with Cons show ?case by (simp add: index_rec_request)
qed simp

lemma active_f: "segments w \<noteq> [] \<Longrightarrow> seg_f (active_segment w) = last (map seg_f (segments w))"
  by (simp add: active_segment_def last_map)

lemma disk_ok_cong:
  assumes "disk_ok w" "seqs w' = seqs w" "w_disk w' = w_disk w"
    "map seg_f (segments w') = map seg_f (segments w)" "segments w \<noteq> []"
  shows "disk_ok w'"
proof -
  have "segments w' \<noteq> []" using assms(2,5) by (metis map_is_Nil_conv)
  then have "seg_f (active_segment w') = seg_f (active_segment w)"
    using active_f [of w'] active_f [OF assms(5)] assms(4) by simp
  with assms(1-3) show ?thesis unfolding disk_ok_def by simp
qed

lemma drop_files_bytes: "drop_files X d d' \<Longrightarrow> n \<notin> X \<Longrightarrow> file_bytes d' n = file_bytes d n"
  by (simp add: drop_files_def file_bytes_def)

lemma drop_files_synced: "drop_files X d d' \<Longrightarrow> synced_but N d \<Longrightarrow> synced_but N d'"
  by (auto simp: drop_files_def synced_but_def restrict_map_def split: if_splits)

text \<open>Collecting segments no entry refers to leaves the log with the same index.\<close>

lemma drop_prefix_log:
  assumes split: "ns = ms @ ns'" and dist: "distinct ns" and dr: "drop_files (set ms) d d'"
    and ent: "entries_in (set ns') idx" and idx: "map_of idx = map_of (log_index (disk_log d ns))"
  shows "map_of idx = map_of (log_index (disk_log d' ns'))"
proof -
  have "set ns' \<inter> set ms = {}" using split dist by auto
  moreover have "disk_log d' ns' = disk_log d ns'"
    using calculation drop_files_bytes [OF dr] by (intro disk_log_cong) blast
  moreover have "entries_in (set ns') (log_index (disk_log d ms @ disk_log d ns'))"
    using ent idx by (simp add: entries_in_def split)
  ultimately show ?thesis
    using forget_prefix [OF disk_log_tags [of d ms], of "set ns'" "disk_log d ns'"] idx
    by (simp add: split)
qed

lemma gc_durable:
  assumes inv: "wal_inv w" and ok: "disk_ok w" and sy: "synced_but {} (w_disk w)"
    and idx: "map_of (w_index w) = map_of (log_index (w_log w))"
  shows "wal_durable (gcSegments w)"
proof -
  obtain ss d where gc: "gc_front (segments w) (w_disk w) = (ss, d)" by fastforce
  have nf: "faults (w_disk w) = []" using ok by (simp add: disk_ok_def)
  obtain pre where pre: "segments w = pre @ ss" and dr: "drop_files (seg_seq ` set pre) (w_disk w) d"
    using gc_front_none [OF gc nf] by blast
  have ne: "ss \<noteq> []"
    using gc_front_suffix [OF gc] wal_inv_nonempty [OF inv] by blast
  have g: "w_index (gcSegments w) = w_index w" "segments (gcSegments w) = ss" "w_disk (gcSegments w) = d"
    by (simp_all add: gcSegments_def gc)
  have inv': "wal_inv (gcSegments w)" using inv by (rule gcSegments_inv)
  have seqs: "seqs w = map seg_seq pre @ map seg_seq ss" by (simp add: pre)
  have dist: "distinct (seqs w)" using inv by (rule wal_inv_distinct)
  then have disj: "set (map seg_seq ss) \<inter> seg_seq ` set pre = {}"
    unfolding seqs by auto
  have "dom (map_of (files d)) = set (map seg_seq ss)"
    using ok dr disj unfolding disk_ok_def drop_files_def seqs by auto
  moreover have "intact d n" if "n \<in> set (map seg_seq ss)" for n
  proof -
    have "intact (w_disk w) n" using ok that unfolding disk_ok_def seqs by simp
    moreover have "n \<notin> seg_seq ` set pre" using that disj by blast
    ultimately show ?thesis by (simp add: intact_def drop_files_bytes [OF dr])
  qed
  moreover have "active_segment (gcSegments w) = active_segment w"
    using ne by (simp add: active_segment_def g pre)
  ultimately have "disk_ok (gcSegments w)"
    using ok dr by (simp add: disk_ok_def g drop_files_def)
  moreover have "map_of (w_index w) = map_of (log_index (disk_log d (map seg_seq ss)))"
    using seqs dist _ _ idx
  proof (rule drop_prefix_log)
    show "drop_files (set (map seg_seq pre)) (w_disk w) d" using dr by simp
    show "entries_in (set (map seg_seq ss)) (w_index w)"
      using inv' by (simp add: wal_inv_def g)
  qed
  ultimately show ?thesis
    using inv' drop_files_synced [OF dr sy] by (simp add: wal_durable_def g)
qed

lemma synced_bound: "synced_but {} d \<Longrightarrow> durable_bound d"
  by (simp add: synced_but_def durable_bound_def)

lemma commit_writes_all:
  assumes "wal_durable w" "list_all req_good batch" "commit_writes batch [] w = (sls, w')"
  shows "wrote batch [] w sls w'" "wal_inv w'" "w_index w' = w_index w" "length sls = length batch"
    "slots_in (set (seqs w')) sls"
proof -
  have w: "wal_inv w" "disk_ok w" "synced_but {} (w_disk w)"
    using assms(1) by (simp_all add: wal_durable_def)
  show "wrote batch [] w sls w'"
    using commit_writes_durable [OF assms(3) w(1,2) synced_bound [OF w(3)] synced_but_mono [OF w(3)]
      assms(2)] by simp
  show "wal_inv w'" "w_index w' = w_index w" "length sls = length batch" "slots_in (set (seqs w')) sls"
    using commit_writes_inv [OF assms(3) w(1)] by (simp_all add: slots_in_def)
qed

lemma commitBatch_durable:
  assumes w: "wal_durable w" and good: "list_all req_good batch" and cb: "commitBatch batch w = (errs, w')"
  shows "wal_durable w'" and "errs = replicate (length batch) None"
    and "outstanding (w_index w') = fold spec_op (map req_apply batch) (outstanding (w_index w))"
proof -
  obtain sls w1 where cw: "commit_writes batch [] w = (sls, w1)" by fastforce
  obtain se d where sy: "segment_sync (active_segment w1) (w_disk w1) = (se, d)" by fastforce
  obtain es w2 where ab: "apply_batch se (zip batch sls) (w1\<lparr>w_disk := d\<rparr>) = (es, w2)" by fastforce
  note c = commit_writes_all [OF w good cw]
  from c(1) have fine: "slots_fine sls" "disk_ok w1" "durable_bound (w_disk w1)"
      "synced_but {seg_seq (active_segment w1)} (w_disk w1)"
    and log: "w_log w1 = w_log w @ zip (map sl_seq sls) (map req_record batch)"
    unfolding wrote_def by auto
  note s = sync_durable [OF c(2) fine(2,3,4) sy]
  let ?wd = "w1\<lparr>w_disk := d\<rparr>"
  have inv: "wal_inv ?wd" using c(2) wal_inv_skel [of ?wd w1] by simp
  have inv2: "wal_inv w2" "seqs w2 = seqs w1" "length es = length batch"
    using apply_batch_inv [OF ab inv] c(4,5) by simp_all
  have "map snd (zip batch sls) = sls" using c(4) by simp
  with apply_batch_none [of "zip batch sls" ?wd es w2] ab s(1) fine(1) c(4)
  have a: "es = replicate (length batch) None" "w_disk w2 = d"
    "map seg_f (segments w2) = map seg_f (segments w1)"
    "w_index w2 = fold (\<lambda>(q, sl). index_op (req_apply q) (sl_seq sl)) (zip batch sls) (w_index w1)"
    by simp_all
  have i2: "w_index w2 = fold index_rec (zip (map sl_seq sls) (map req_record batch)) (w_index w)"
    unfolding a(4) c(3) using good c(4) by (rule fold_slots)
  have "map_of (w_index w2) = map_of (log_index (w_log w1))"
    unfolding i2 log log_index_append
    using w by (intro fold_index_cong) (simp add: wal_durable_def)
  then have "map_of (w_index w2) = map_of (log_index (w_log w2))"
    using s(3) inv2(2) a(2) by simp
  moreover have "disk_ok w2"
    using s(2) inv2(2) a(2,3) wal_inv_nonempty [OF c(2)] by (intro disk_ok_cong [of ?wd w2]) simp_all
  ultimately have "wal_durable (gcSegments w2)"
    using inv2(1) s(4) a(2) by (intro gc_durable) simp_all
  moreover have "w' = gcSegments w2" "errs = es"
    using cb by (simp_all add: commitBatch_def cw sy ab)
  moreover have "w_index (gcSegments w2) = w_index w2"
    by (simp add: gcSegments_def split: prod.splits)
  ultimately show "wal_durable w'" "errs = replicate (length batch) None"
    "outstanding (w_index w') = fold spec_op (map req_apply batch) (outstanding (w_index w))"
    using outstanding_requests [OF good, of "map sl_seq sls" "w_index w"] c(4) a(1) i2 by simp_all
qed


section \<open>Opening a readable disk\<close>

lemma replay_segments_none:
  "faults d = [] \<Longrightarrow> \<forall>n \<in> set ns. n \<in> dom (map_of (files d)) \<and> readable d n \<Longrightarrow>
     replay_segments ns idx d = (Inr (fold index_rec (disk_log d ns) idx), d)"
proof (induction ns arbitrary: idx)
  case (Cons n ns)
  then have "os_read n d = (Some (file_bytes d n), d)"
    "decodeRecords (file_bytes d n) = Returns (seg_records d n)" "list_all good (seg_records d n)"
    using readable_records [of d n] by (simp_all add: os_read_none)
  with Cons show ?case
    by (simp add: replay_records_good os_call_none Let_def)
qed simp

lemma replay_gc_none:
  "faults d = [] \<Longrightarrow>
     \<exists>pre ss' d'. replay_gc ss d = (Some ss', d') \<and> ss = pre @ ss' \<and> drop_files (seg_seq ` set pre) d d'"
proof (induction ss d rule: replay_gc.induct)
  case (1 s t ss d)
  show ?case
  proof (cases "seg_refCount s = 0")
    case True
    let ?d = "d\<lparr>files := AList.delete (seg_seq s) (files d)\<rparr>"
    have rm: "os_remove (seg_seq s) d = (True, ?d)" using "1.prems" by (rule os_remove_none)
    obtain pre ss' d' where rest: "replay_gc (t # ss) ?d = (Some ss', d')"
      and split: "t # ss = pre @ ss'" and dr: "drop_files (seg_seq ` set pre) ?d d'"
      using "1.IH" [OF True rm [symmetric] refl] "1.prems" by auto
    have "replay_gc (s # t # ss) d = (Some ss', d')"
      using True rm rest by simp
    moreover have "s # t # ss = (s # pre) @ ss'" using split by simp
    moreover have "drop_files (seg_seq ` set (s # pre)) d d'"
      using drop_files_step [OF "1.prems" dr] by simp
    ultimately show ?thesis by blast
  next
    case False
    then show ?thesis
      using drop_files_refl [OF "1.prems"] by auto
  qed
qed (force simp: drop_files_refl)+

lemma set_segment_seqs: "set (segment_seqs d) = dom (map_of (files d))"
  by (simp add: segment_seqs_def dom_map_of_conv_image_fst)

lemma open_active_none:
  assumes nf: "faults d = []" and last: "ss \<noteq> [] \<Longrightarrow> seg_seq (last ss) \<in> dom (map_of (files d))"
    and fresh: "ss = [] \<Longrightarrow> map_of (files d) nxt = None"
  obtains s nxt' where "open_active ss nxt d = (Some (butlast ss @ [s], nxt'),
      if ss = [] then set_file nxt \<lparr>contents = [], durable = 0\<rparr> d else d)"
    "seg_f s = OpenFile" "seg_seq s = (if ss = [] then nxt else seg_seq (last ss))"
  using assms
  by (cases "ss = []")
    (auto simp: open_active_def createSegment_def openSegmentForAppend_def os_create_none os_call_none)

text \<open>
  \<^verbatim>\<open>Open\<close> of a disk whose segments are readable: it succeeds and its index is
  the replay of the whole log; what it drops are segments without live entries.
\<close>

lemma replay_gc_leaves:
  assumes nf: "faults d = []" and ok: "map_ok (files d)"
  obtains pre ss :: "segment list" and d' where "replay_gc (replayed_segments (segment_seqs d) idx) d = (Some ss, d')"
    "segment_seqs d = map seg_seq pre @ map seg_seq ss" "drop_files (seg_seq ` set pre) d d'"
    "ss \<noteq> [] \<Longrightarrow> seg_seq (last ss) \<in> dom (map_of (files d'))"
    "ss = [] \<Longrightarrow> segment_seqs d = [] \<and> map_of (files d') (next_seq_of (segment_seqs d)) = None
       \<and> pre = [] \<and> d' = d"
proof -
  let ?ns = "segment_seqs d"
  obtain pre ss d' where gc: "replay_gc (replayed_segments ?ns idx) d = (Some ss, d')"
    and pre: "replayed_segments ?ns idx = pre @ ss" and dr: "drop_files (seg_seq ` set pre) d d'"
    using replay_gc_none [OF nf] by blast
  have "map seg_seq (replayed_segments ?ns idx) = ?ns" by (simp add: replayed_segments_def o_def)
  then have seqs: "?ns = map seg_seq pre @ map seg_seq ss" by (simp add: pre)
  have dist: "distinct ?ns"
    using sorted_segment_seqs [OF ok] by (simp add: strict_sorted_iff)
  have last: "seg_seq (last ss) \<in> dom (map_of (files d'))" if "ss \<noteq> []"
  proof -
    have "seg_seq (last ss) \<in> set (map seg_seq ss)" using that by simp
    moreover from this have "seg_seq (last ss) \<notin> seg_seq ` set pre"
      using dist unfolding seqs by auto
    moreover from calculation have "seg_seq (last ss) \<in> dom (map_of (files d))"
      unfolding set_segment_seqs [symmetric] seqs by simp
    ultimately show ?thesis using dr by (auto simp: drop_files_def)
  qed
  have none: "?ns = [] \<and> map_of (files d') (next_seq_of ?ns) = None \<and> pre = [] \<and> d' = d" if "ss = []"
  proof -
    have n: "?ns = []" using replay_gc_suffix [OF gc] that by (auto simp: replayed_segments_def)
    then have "files d = []" unfolding segment_seqs_def
      by (metis list.map_disc_iff sort_key_simps(1) set_empty set_sort)
    moreover have "d' = d" using gc n by (simp add: replayed_segments_def)
    ultimately show ?thesis using n seqs by simp
  qed
  show ?thesis by (rule that [OF gc seqs dr]) (use last none in blast)+
qed

lemma wal_Open_none:
  assumes nf: "faults d = []" and ok: "map_ok (files d)"
    and rd: "\<forall>n \<in> dom (map_of (files d)). readable d n"
  obtains w d' pre ns where "wal_Open ms mb d = (Inr w, d')" "w_disk w = d'" "wal_inv w"
    "w_index w = log_index (disk_log d (segment_seqs d))" "segment_seqs d = pre @ ns"
    "drop_files (set pre) d (if ns = [] then d else d')" "ns \<noteq> [] \<longrightarrow> seqs w = ns"
    "ns = [] \<longrightarrow> seqs w = [0] \<and> pre = [] \<and> d' = set_file 0 \<lparr>contents = [], durable = 0\<rparr> d"
    "seg_f (active_segment w) = OpenFile"
proof -
  let ?ns = "segment_seqs d"
  define idx where "idx = log_index (disk_log d ?ns)"
  have re: "replay_segments ?ns [] d = (Inr idx, d)"
    using replay_segments_none [OF nf, of ?ns "[]"] rd by (simp add: idx_def log_index_def set_segment_seqs)
  obtain pre ss :: "segment list" and d4 where gc: "replay_gc (replayed_segments ?ns idx) d = (Some ss, d4)"
    and seqs: "?ns = map seg_seq pre @ map seg_seq ss" and dr: "drop_files (seg_seq ` set pre) d d4"
    and last: "ss \<noteq> [] \<Longrightarrow> seg_seq (last ss) \<in> dom (map_of (files d4))"
    and none: "ss = [] \<Longrightarrow> ?ns = [] \<and> map_of (files d4) (next_seq_of ?ns) = None \<and> pre = [] \<and> d4 = d"
    by (rule replay_gc_leaves [OF nf ok, of idx]) (rule that)
  have nf4: "faults d4 = []" using dr by (simp add: drop_files_def)
  have fresh: "map_of (files d4) (next_seq_of ?ns) = None" if "ss = []" using none [OF that] by blast
  obtain s nxt where oa: "open_active ss (next_seq_of ?ns) d4 = (Some (butlast ss @ [s], nxt),
      if ss = [] then set_file (next_seq_of ?ns) \<lparr>contents = [], durable = 0\<rparr> d4 else d4)"
    and s: "seg_f s = OpenFile" "seg_seq s = (if ss = [] then next_seq_of ?ns else seg_seq (last ss))"
    using open_active_none [OF nf4 last fresh] by metis
  let ?d' = "if ss = [] then set_file (next_seq_of ?ns) \<lparr>contents = [], durable = 0\<rparr> d4 else d4"
  let ?w = "\<lparr>maxSegmentBytes = ms, maxBytes = mb, w_index = idx, segments = butlast ss @ [s],
      nextSeq = nxt, w_closed = False, w_disk = ?d'\<rparr>"
  have op: "wal_Open ms mb d = (Inr ?w, ?d')"
    using re gc oa nf by (simp add: wal_Open_def os_call_none Let_def)
  have "seqs ?w = (if ss = [] then [next_seq_of ?ns] else map seg_seq ss)"
    using s(2) by (cases ss rule: rev_cases) simp_all
  moreover have "pre = [] \<and> next_seq_of ?ns = 0 \<and> d4 = d" if "ss = []"
    using none [OF that] by (simp add: next_seq_of_def)
  ultimately show ?thesis
    using op wal_Open_inv [OF ok op] seqs dr s(1) drop_files_refl [OF nf]
    by (intro that [of ?w ?d' "map seg_seq pre" "map seg_seq ss"])
      (auto simp: idx_def active_segment_def)
qed

section \<open>What a commit leaves alone\<close>

definition settings :: "wal \<Rightarrow> bool \<times> int \<times> int" where
  "settings w = (w_closed w, maxBytes w, maxSegmentBytes w)"

lemma rotate_settings: "wal_rotate w = (r, w') \<Longrightarrow> settings w' = settings w"
  by (auto simp: settings_def wal_rotate_def set_active_def Let_def split: prod.splits option.splits)

lemma commit_writes_settings: "commit_writes rs sls w = (sls', w') \<Longrightarrow> settings w' = settings w"
proof (induction rs sls w rule: commit_writes.induct)
  case (2 r rs sls w)
  have "settings w2 = settings w1" if "write_slot r w1 = (sl, w2)" for sl w1 w2
    using that by (auto simp: settings_def write_slot_def set_active_def split: prod.splits)
  with 2 show ?case
    by (auto dest!: rotate_settings split: prod.splits option.splits if_splits)
qed simp

lemma apply_op_settings [simp]: "settings (apply_op op n w) = settings w"
  by (auto simp: settings_def apply_op_def Let_def split: applyOp.split option.split)

lemma apply_batch_settings: "apply_batch se qs w = (errs, w') \<Longrightarrow> settings w' = settings w"
  by (induction qs arbitrary: w errs w') (auto simp: Let_def split: prod.splits if_splits)

lemma commitBatch_settings:
  assumes "commitBatch b w = (errs, w')"
  shows "settings w' = settings w"
proof -
  obtain sls w1 se d w2 where c: "commit_writes b [] w = (sls, w1)"
    "apply_batch se (zip b sls) (w1\<lparr>w_disk := d\<rparr>) = (errs, w2)" "w' = gcSegments w2"
    using assms by (auto simp: commitBatch_def split: prod.splits)
  have "settings w' = settings w2" by (auto simp: c(3) settings_def gcSegments_def split: prod.splits)
  with commit_writes_settings [OF c(1)] apply_batch_settings [OF c(2)] show ?thesis
    by (simp add: settings_def)
qed

section \<open>One append or ack\<close>

text \<open>Without faults a request that passes its checks succeeds and stays durable.\<close>

lemma submit_durable:
  assumes "wal_durable w" "req_good q" "submit (Inr q) w = (err, w')"
  shows "wal_durable w'" "err = None" "settings w' = settings w"
    and "outstanding (w_index w') = spec_op (req_apply q) (outstanding (w_index w))"
proof -
  obtain errs where cb: "commitBatch [q] w = (errs, w')" "err = hd errs"
    using assms(3) by (auto simp: submit_def split: prod.splits)
  have "list_all req_good [q]" using assms(2) by simp
  note r = commitBatch_durable [OF assms(1) this cb(1)]
  show "wal_durable w'" "err = None" "settings w' = settings w"
    "outstanding (w_index w') = spec_op (req_apply q) (outstanding (w_index w))"
    using r cb(2) commitBatch_settings [OF cb(1)] by simp_all
qed

lemma append_durable:
  assumes "wal_durable w" "append_fits e ps" "wal_Append e ps w = (err, w')"
  shows "wal_durable w'" "settings w' = settings w"
    and "err = None \<Longrightarrow> outstanding (w_index w') = (outstanding (w_index w))(ID e \<mapsto> (e, remdups ps))"
    and "err \<noteq> None \<Longrightarrow> w' = w"
proof -
  have "wal_durable w' \<and> settings w' = settings w
     \<and> (err = None \<longrightarrow> outstanding (w_index w') = (outstanding (w_index w))(ID e \<mapsto> (e, remdups ps)))
     \<and> (err \<noteq> None \<longrightarrow> w' = w)"
  proof (cases "append_request e ps w")
    case (Inl er)
    with assms show ?thesis by (auto simp: wal_Append_def submit_def)
  next
    case (Inr q)
    have s: "submit (Inr q) w = (err, w')" using assms(3) Inr by (simp add: wal_Append_def)
    note g = append_request_good [OF Inr assms(2)]
    show ?thesis using submit_durable [OF assms(1) g(1) s] g(2) by (simp add: spec_op_def)
  qed
  then show "wal_durable w'" "settings w' = settings w"
    "err = None \<Longrightarrow> outstanding (w_index w') = (outstanding (w_index w))(ID e \<mapsto> (e, remdups ps))"
    "err \<noteq> None \<Longrightarrow> w' = w" by blast+
qed

lemma ack_durable:
  assumes "wal_durable w" "ack_fits i p disp" "wal_Ack i p disp w = (err, w')"
  shows "wal_durable w'" "settings w' = settings w" "err = (if w_closed w then Some ErrClosed else None)"
    and "outstanding (w_index w') =
      (if w_closed w then outstanding (w_index w) else spec_op (ApplyAck i p) (outstanding (w_index w)))"
proof -
  have "wal_durable w' \<and> settings w' = settings w \<and> err = (if w_closed w then Some ErrClosed else None)
     \<and> outstanding (w_index w') =
      (if w_closed w then outstanding (w_index w) else spec_op (ApplyAck i p) (outstanding (w_index w)))"
  proof (cases "w_closed w")
    case True
    with assms show ?thesis by (auto simp: wal_Ack_def ack_request_def submit_def)
  next
    case False
    obtain q where q: "ack_request i p disp w = Inr q"
      using False by (auto simp: ack_request_def marshal_ackPayload_def)
    have s: "submit (Inr q) w = (err, w')" using assms(3) q by (simp add: wal_Ack_def)
    note g = ack_request_good [OF q assms(2)]
    show ?thesis using submit_durable [OF assms(1) g(1) s] g(2) False by simp
  qed
  then show "wal_durable w'" "settings w' = settings w" "err = (if w_closed w then Some ErrClosed else None)"
    "outstanding (w_index w') =
      (if w_closed w then outstanding (w_index w) else spec_op (ApplyAck i p) (outstanding (w_index w)))"
    by blast+
qed

end
