(* ===== verification/Wal_Crash.thy ===== *)
theory Wal_Crash
  imports Wal_Commit
begin

text \<open>
  Crashes. A crash keeps of every file its durable bytes and any part of what
  follows them. After a completed commit nothing is lost; at any point within a
  commit what is rebuilt is the state after a prefix of the batch.
\<close>

definition crash_of :: "disk \<Rightarrow> disk \<Rightarrow> bool" where
  "crash_of d d' \<longleftrightarrow> faults d' = [] \<and> map_ok (files d') \<and>
     (\<forall>n. case map_of (files d) n of None \<Rightarrow> map_of (files d') n = None
        | Some fl \<Rightarrow> (\<exists>k \<ge> durable fl. map_of (files d') n =
            Some \<lparr>contents = take k (contents fl), durable = length (take k (contents fl))\<rparr>))"

lemma crash_file:
  assumes "crash_of d d'"
  shows "case map_of (files d) n of None \<Rightarrow> map_of (files d') n = None
        | Some fl \<Rightarrow> (\<exists>k \<ge> durable fl. map_of (files d') n =
            Some \<lparr>contents = take k (contents fl), durable = length (take k (contents fl))\<rparr>)"
  using assms unfolding crash_of_def by blast

lemma crash_dom:
  assumes "crash_of d d'"
  shows "dom (map_of (files d')) = dom (map_of (files d))"
proof -
  have "map_of (files d') n = None \<longleftrightarrow> map_of (files d) n = None" for n
    using crash_file [OF assms, of n] by (cases "map_of (files d) n") auto
  then show ?thesis unfolding dom_def by simp
qed

lemma crash_bytes:
  assumes "crash_of d d'" "map_of (files d) n = Some fl"
  obtains k where "durable fl \<le> k" "file_bytes d' n = take k (contents fl)"
  using crash_file [OF assms(1), of n] assms(2) by (auto simp: file_bytes_def)

lemma crash_synced:
  assumes c: "crash_of d d'"
  shows "synced_but {} d'"
  unfolding synced_but_def
proof (intro allI impI)
  fix n fl
  assume fl: "map_of (files d') n = Some fl"
  with crash_file [OF c, of n] show "durable fl = length (contents fl)"
    by (cases "map_of (files d) n") auto
qed

lemma crash_durable_file:
  assumes "crash_of d d'" "map_of (files d) n = Some fl" "durable fl = length (contents fl)"
  shows "file_bytes d' n = file_bytes d n"
  using crash_bytes [OF assms(1,2)] assms(2,3) by (metis file_bytes_def option.simps(5) take_all)

text \<open>Cutting a sequence of frames cuts the sequence of records.\<close>

lemma decode_take:
  "list_all fits rs \<Longrightarrow> \<exists>j \<le> length rs. decodeRecords (take k (frames rs)) = Returns (take j rs)
     \<and> (\<forall>i \<le> length rs. length (frames (take i rs)) \<le> k \<longrightarrow> i \<le> j)"
proof (induction rs arbitrary: k)
  case (Cons r rs)
  show ?case
  proof (cases "length (frame_of r) \<le> k")
    case False
    then have "decodeRecords (take k (frames (r # rs))) = Returns []"
      using Cons.prems decode_torn_frame [of r k] by simp
    moreover have "i = 0" if "length (frames (take i (r # rs))) \<le> k" for i
      using that False by (cases i) simp_all
    ultimately show ?thesis by (intro exI [of _ 0]) auto
  next
    case True
    obtain j where j: "j \<le> length rs"
      "decodeRecords (take (k - length (frame_of r)) (frames rs)) = Returns (take j rs)"
      "\<forall>i \<le> length rs. length (frames (take i rs)) \<le> k - length (frame_of r) \<longrightarrow> i \<le> j"
      using Cons.IH [of "k - length (frame_of r)"] Cons.prems by auto
    have "take k (frames (r # rs)) = frame_of r @ take (k - length (frame_of r)) (frames rs)"
      using True by simp
    then have "decodeRecords (take k (frames (r # rs))) = Returns (take (Suc j) (r # rs))"
      using Cons.prems j(2) by (simp add: decode_frame)
    moreover have "i \<le> Suc j" if i: "i \<le> length (r # rs)" "length (frames (take i (r # rs))) \<le> k" for i
    proof (cases i)
      case (Suc i')
      then have "length (frames (take i' rs)) \<le> k - length (frame_of r)" "i' \<le> length rs"
        using i by simp_all
      then show ?thesis using j(3) Suc by blast
    qed simp
    ultimately show ?thesis using j(1) by (intro exI [of _ "Suc j"]) auto
  qed
qed simp

section \<open>Between commits\<close>

lemma segment_seqs_sorted:
  assumes "map_ok (files d)" "sorted_wrt (<) ns" "set ns = dom (map_of (files d))"
  shows "segment_seqs d = ns"
proof (rule sorted_distinct_set_unique)
  show "sorted (segment_seqs d)" "distinct (segment_seqs d)"
    using sorted_segment_seqs [OF assms(1)] by (simp_all add: strict_sorted_iff)
  show "sorted ns" "distinct ns" using assms(2) by (simp_all add: strict_sorted_iff)
  show "set (segment_seqs d) = set ns" by (simp add: set_segment_seqs assms(3))
qed

lemma disk_ok_dom: "disk_ok w \<Longrightarrow> dom (map_of (files (w_disk w))) = set (seqs w)"
  by (simp only: disk_ok_def)

lemma wal_inv_sorted: "wal_inv w \<Longrightarrow> sorted_wrt (<) (seqs w)"
  by (simp add: wal_inv_def)

lemma crash_seqs:
  assumes "wal_inv w" "disk_ok w" "crash_of (w_disk w) d'"
  shows "segment_seqs d' = seqs w"
proof (rule segment_seqs_sorted)
  show "map_ok (files d')" using assms(3) by (simp add: crash_of_def)
  show "sorted_wrt (<) (seqs w)" using assms(1) by (rule wal_inv_sorted)
  show "set (seqs w) = dom (map_of (files d'))"
    using assms(2) by (simp only: crash_dom [OF assms(3)] disk_ok_def)
qed

lemma opened_empty:
  assumes inv: "wal_inv w" and act: "seg_f (active_segment w) = OpenFile"
    and nf: "faults d = []" and ok: "map_ok (files d)" and none: "segment_seqs d = []"
    and sq: "seqs w = [0]" and wd: "w_disk w = set_file 0 \<lparr>contents = [], durable = 0\<rparr> d"
    and idx: "w_index w = log_index (disk_log d (segment_seqs d))"
  shows "wal_durable w"
proof -
  let ?d' = "set_file 0 \<lparr>contents = [], durable = 0\<rparr> d"
  have "dom (map_of (files d)) = {}" using set_segment_seqs [of d] none by simp
  then have d0: "map_of (files d) = Map.empty" by (simp only: dom_eq_empty_conv)
  have "seg_records ?d' 0 = []" by (simp add: seg_records_def)
  moreover have "intact ?d' 0" by (simp add: intact_def) (intro exI [of _ "[]"], simp)
  ultimately show ?thesis
    using inv act nf ok d0 unfolding wal_durable_def disk_ok_def sq wd
    by (simp add: idx none synced_but_def log_index_def)
qed

lemma opened_kept:
  assumes inv: "wal_inv w" and act: "seg_f (active_segment w) = OpenFile"
    and ok: "map_ok (files d)" and sy: "synced_but {} d"
    and int: "\<forall>n \<in> dom (map_of (files d)). intact d n"
    and seqs: "segment_seqs d = pre @ seqs w" and dr: "drop_files (set pre) d (w_disk w)"
    and idx: "w_index w = log_index (disk_log d (segment_seqs d))"
  shows "wal_durable w"
proof -
  have dist: "distinct (segment_seqs d)"
    using sorted_segment_seqs [OF ok] by (simp add: strict_sorted_iff)
  then have disj: "set (seqs w) \<inter> set pre = {}" unfolding seqs by auto
  have dom: "dom (map_of (files d)) = set pre \<union> set (seqs w)"
    unfolding set_segment_seqs [symmetric] seqs by simp
  have "intact (w_disk w) m" if "m \<in> set (seqs w)" for m
  proof -
    have "file_bytes (w_disk w) m = file_bytes d m"
      using that disj by (intro drop_files_bytes [OF dr]) blast
    then show ?thesis using int that unfolding dom intact_def by simp
  qed
  moreover have "dom (map_of (files (w_disk w))) = set (seqs w)"
    using dr dom disj by (auto simp: drop_files_def)
  ultimately have "disk_ok w"
    using act dr ok unfolding disk_ok_def by (simp add: drop_files_def)
  moreover have "map_of (w_index w) = map_of (log_index (w_log w))"
    using seqs dist dr
  proof (rule drop_prefix_log)
    show "entries_in (set (seqs w)) (w_index w)" using inv unfolding wal_inv_def by blast
    show "map_of (w_index w) = map_of (log_index (disk_log d (segment_seqs d)))" by (simp only: idx)
  qed
  ultimately show ?thesis
    using inv drop_files_synced [OF dr sy] unfolding wal_durable_def by simp
qed

lemma open_durable:
  assumes nf: "faults d = []" and ok: "map_ok (files d)" and sy: "synced_but {} d"
    and int: "\<forall>n \<in> dom (map_of (files d)). intact d n"
  obtains w d' where "wal_Open ms mb d = (Inr w, d')" "wal_durable w"
    "w_index w = log_index (disk_log d (segment_seqs d))"
proof -
  have rd: "\<forall>n \<in> dom (map_of (files d)). readable d n"
    using int by (blast intro: intact_readable)
  obtain w d' pre ns where op: "wal_Open ms mb d = (Inr w, d')" and wd: "w_disk w = d'"
    and inv: "wal_inv w" and idx: "w_index w = log_index (disk_log d (segment_seqs d))"
    and seqs: "segment_seqs d = pre @ ns" and dr: "drop_files (set pre) d (if ns = [] then d else d')"
    and sq: "ns \<noteq> [] \<longrightarrow> seqs w = ns"
    and new: "ns = [] \<longrightarrow> seqs w = [0] \<and> pre = [] \<and> d' = set_file 0 \<lparr>contents = [], durable = 0\<rparr> d"
    and act: "seg_f (active_segment w) = OpenFile"
    by (rule wal_Open_none [OF nf ok rd, of ms mb]) (rule that)
  have "wal_durable w"
  proof (cases "ns = []")
    case True
    then show ?thesis using new seqs wd by (intro opened_empty [OF inv act nf ok _ _ _ idx]) simp_all
  next
    case False
    then show ?thesis using sq seqs dr wd by (intro opened_kept [OF inv act ok sy int _ _ idx]) simp_all
  qed
  with op idx show ?thesis using that by blast
qed

lemma recover_index:
  assumes w: "wal_durable w" and c: "crash_of (w_disk w) d"
  obtains w' d' where "wal_Open ms mb d = (Inr w', d')" "wal_durable w'"
    "outstanding (w_index w') = outstanding (w_index w)"
proof -
  have inv: "wal_inv w" and ok: "disk_ok w" and sy: "synced_but {} (w_disk w)"
    using w by (simp_all add: wal_durable_def)
  have bytes: "file_bytes d n = file_bytes (w_disk w) n" if n: "n \<in> set (seqs w)" for n
  proof -
    obtain fl where fl: "map_of (files (w_disk w)) n = Some fl"
      using domD [of n "map_of (files (w_disk w))"] n disk_ok_dom [OF ok] by metis
    moreover have "durable fl = length (contents fl)"
      using sy fl unfolding synced_but_def by blast
    ultimately show ?thesis by (rule crash_durable_file [OF c])
  qed
  have seqs: "segment_seqs d = seqs w" using inv ok c by (rule crash_seqs)
  have "\<forall>n \<in> dom (map_of (files d)). intact d n"
    using ok bytes unfolding set_segment_seqs [symmetric] seqs disk_ok_def intact_def by simp
  moreover have "disk_log d (seqs w) = w_log w" using bytes by (rule disk_log_cong)
  moreover have "faults d = []" "map_ok (files d)" using c by (simp_all add: crash_of_def)
  ultimately obtain w' d' where "wal_Open ms mb d = (Inr w', d')" "wal_durable w'"
    "w_index w' = log_index (w_log w)"
    using open_durable [of d ms mb] crash_synced [OF c] by (metis seqs)
  moreover have "outstanding (log_index (w_log w)) = outstanding (w_index w)"
    using w by (intro outstanding_cong) (simp add: wal_durable_def)
  ultimately show ?thesis using that by metis
qed

section \<open>Within a commit\<close>

lemma wrote_grows_records:
  assumes ok: "disk_ok w" and n: "n \<in> set (seqs w')" "disk_ok w'" and g: "grows (w_disk w) (w_disk w')"
  shows "\<exists>qs. seg_records (w_disk w') n = seg_records (w_disk w) n @ qs"
proof (cases "map_of (files (w_disk w)) n")
  case None
  then have "seg_records (w_disk w) n = []" by (simp add: seg_records_def file_bytes_def)
  then show ?thesis by simp
next
  case (Some fl)
  then have "n \<in> set (seqs w)" unfolding disk_ok_dom [OF ok, symmetric] by blast
  then have i: "intact (w_disk w) n" using ok unfolding disk_ok_def by blast
  have i': "intact (w_disk w') n" using n unfolding disk_ok_def by blast
  obtain fl' x where "map_of (files (w_disk w')) n = Some fl'" "contents fl' = contents fl @ x"
    using g Some unfolding grows_def by blast
  then have "file_bytes (w_disk w') n = frames (seg_records (w_disk w) n) @ x"
    using Some intact_bytes [OF i] by (simp add: file_bytes_def)
  moreover have "decodeRecords (file_bytes (w_disk w') n) = Returns (seg_records (w_disk w') n)"
    using readable_records [OF intact_readable [OF i']] by simp
  ultimately show ?thesis
    using intact_bytes [OF i]
    by (auto simp: decode_frames_append good_fits split: go.splits intro: sym)
qed

lemma tag_count:
  "distinct ns \<Longrightarrow> length (filter (\<lambda>nr. fst nr = n) (disk_log d ns))
     = (if n \<in> set ns then length (seg_records d n) else 0)"
proof (induction ns)
  case (Cons m ns)
  have "filter (\<lambda>nr. fst nr = n) (map (Pair m) rs) = (if m = n then map (Pair m) rs else [])"
    for rs :: "decodedRecord list"
    by (induction rs) simp_all
  with Cons show ?case
    by (cases "m = n") (simp_all del: length_filter_map filter_map)
qed simp

lemma take_append_less:
  assumes "M @ map (Pair n) rs = L @ new" "length rs0 \<le> j" "j \<le> length rs"
    "length (filter (\<lambda>nr. fst nr = n) L) = length rs0"
    "length (filter (\<lambda>nr. fst nr = n) M) = 0"
  shows "\<exists>k \<le> length new. M @ map (Pair n) (take j rs) = L @ take k new"
proof -
  let ?c = "\<lambda>X. length (filter (\<lambda>nr. fst nr = n) X)"
  have "?c (M @ map (Pair n) rs) = length rs" using assms(5) by (simp add: comp_def)
  then have "length rs = length rs0 + ?c new" unfolding assms(1) using assms(4) by simp
  moreover have "?c new \<le> length new" by (rule length_filter_le)
  ultimately have le: "length rs - j \<le> length new" using assms(2) by linarith
  have len: "length M + length rs = length L + length new"
    using arg_cong [OF assms(1), of length] by simp
  have eq: "length M + j = length L + (length new - (length rs - j))"
    using le len assms(3) by linarith
  have "M @ map (Pair n) (take j rs) = take (length M + j) (M @ map (Pair n) rs)"
    by (simp add: take_map)
  also have "\<dots> = L @ take (length new - (length rs - j)) new"
    unfolding assms(1) eq by simp
  finally show ?thesis by (intro exI [of _ "length new - (length rs - j)"]) simp
qed

lemma crash_active:
  assumes c: "crash_of (w_disk w') d" and ok: "disk_ok w" "disk_ok w'" and g: "grows (w_disk w) (w_disk w')"
    and sy: "synced_but {} (w_disk w)" and n: "n \<in> set (seqs w')"
  shows "\<exists>j \<le> length (seg_records (w_disk w') n). length (seg_records (w_disk w) n) \<le> j
     \<and> decodeRecords (file_bytes d n) = Returns (take j (seg_records (w_disk w') n))"
proof -
  let ?rs = "seg_records (w_disk w') n" and ?old = "seg_records (w_disk w) n"
  have "intact (w_disk w') n" using ok(2) n unfolding disk_ok_def by blast
  then have rs: "file_bytes (w_disk w') n = frames ?rs" "list_all fits ?rs"
    using intact_bytes [of "w_disk w'" n] good_fits [of ?rs] by simp_all
  obtain fl' where fl': "map_of (files (w_disk w')) n = Some fl'"
    using domD [of n "map_of (files (w_disk w'))"] n disk_ok_dom [OF ok(2)] by metis
  obtain k where k: "durable fl' \<le> k" "file_bytes d n = take k (contents fl')"
    using c fl' by (rule crash_bytes)
  then have cut: "file_bytes d n = take k (frames ?rs)"
    using rs(1) fl' by (simp add: file_bytes_def)
  obtain j where j: "j \<le> length ?rs" "decodeRecords (take k (frames ?rs)) = Returns (take j ?rs)"
    "\<forall>i \<le> length ?rs. length (frames (take i ?rs)) \<le> k \<longrightarrow> i \<le> j"
    using decode_take [OF rs(2), of k] by blast
  obtain qs where qs: "?rs = ?old @ qs"
    using wrote_grows_records [OF ok(1) n ok(2) g] by blast
  have "length ?old \<le> j"
  proof (cases "map_of (files (w_disk w)) n")
    case None
    then show ?thesis by (simp add: seg_records_def file_bytes_def)
  next
    case (Some fl)
    then have "n \<in> set (seqs w)" unfolding disk_ok_dom [OF ok(1), symmetric] by blast
    then have "intact (w_disk w) n" using ok(1) unfolding disk_ok_def by blast
    then have "contents fl = frames ?old"
      using intact_bytes [of "w_disk w" n] Some by (simp add: file_bytes_def)
    moreover have "durable fl = length (contents fl)"
      using sy Some unfolding synced_but_def by blast
    moreover obtain fl1 where "map_of (files (w_disk w')) n = Some fl1" "durable fl \<le> durable fl1"
      using g Some unfolding grows_def by blast
    ultimately have "length (frames (take (length ?old) ?rs)) \<le> k"
      using k(1) fl' qs by simp
    moreover have "length ?old \<le> length ?rs" by (simp add: qs)
    ultimately show ?thesis using j(3) by blast
  qed
  with j cut show ?thesis by auto
qed

lemma list_all_take: "list_all P xs \<Longrightarrow> list_all P (take k xs)"
  by (auto simp: list_all_iff dest: in_set_takeD)

text \<open>The log a crash leaves of a WAL whose active segment alone may hold unsynced bytes.\<close>

lemma crash_active_log:
  fixes w1 :: wal
  defines "n \<equiv> seg_seq (active_segment w1)" and "ns \<equiv> map seg_seq (butlast (segments w1))"
  assumes inv: "wal_inv w1" and ok: "disk_ok w1" and sy: "synced_but {n} (w_disk w1)"
    and c: "crash_of (w_disk w1) d"
    and j: "decodeRecords (file_bytes d n) = Returns (take j (seg_records (w_disk w1) n))"
  shows "segment_seqs d = ns @ [n]" "\<forall>m \<in> dom (map_of (files d)). readable d m"
    "disk_log d (ns @ [n]) = disk_log (w_disk w1) ns @ map (Pair n) (take j (seg_records (w_disk w1) n))"
proof -
  let ?d1 = "w_disk w1"
  have seqs1: "seqs w1 = ns @ [n]"
    using wal_inv_nonempty [OF inv] unfolding n_def ns_def by (rule seqs_active)
  have dist: "distinct (ns @ [n])" using wal_inv_distinct [OF inv] by (simp only: seqs1)
  have bytes: "file_bytes d m = file_bytes ?d1 m" if m: "m \<in> set ns" for m
  proof -
    have "m \<in> set (seqs w1)" using m by (simp only: seqs1) simp
    then obtain fl where fl: "map_of (files ?d1) m = Some fl"
      using domD [of m "map_of (files ?d1)"] disk_ok_dom [OF ok] by metis
    moreover have "m \<noteq> n" using m dist by auto
    then have "durable fl = length (contents fl)"
      using sy fl unfolding synced_but_def by blast
    ultimately show ?thesis by (rule crash_durable_file [OF c])
  qed
  show seqs: "segment_seqs d = ns @ [n]"
    using crash_seqs [OF inv ok c] by (simp only: seqs1)
  have "list_all good (take j (seg_records ?d1 n))"
  proof -
    have "intact ?d1 n" using ok unfolding disk_ok_def seqs1 by simp
    then show ?thesis using intact_bytes list_all_take by blast
  qed
  then have "readable d n" using j unfolding readable_def by blast
  moreover have "readable d m" if m: "m \<in> set ns" for m
  proof -
    have "m \<in> set (seqs w1)" using m by (simp only: seqs1) simp
    then have "readable ?d1 m" using ok intact_readable unfolding disk_ok_def by blast
    then show ?thesis using m by (simp only: readable_def bytes)
  qed
  moreover have "dom (map_of (files d)) = set (ns @ [n])"
    by (simp only: set_segment_seqs [symmetric] seqs)
  ultimately show "\<forall>m \<in> dom (map_of (files d)). readable d m" by auto
  have "disk_log d ns = disk_log ?d1 ns" using bytes by (rule disk_log_cong)
  moreover have "seg_records d n = take j (seg_records ?d1 n)"
    using j by (simp add: seg_records_def)
  ultimately show "disk_log d (ns @ [n]) = disk_log ?d1 ns @ map (Pair n) (take j (seg_records ?d1 n))"
    by (simp del: disk_log_simps(2) add: disk_log_simps(2) [of _ n "[]"])
qed

text \<open>After a crash between the writes of a batch and its sync, the segments hold what they held before
  the batch and a prefix of the batch.\<close>

lemma crash_log_prefix:
  assumes w: "wal_durable w" and good: "list_all req_good batch"
    and cw: "commit_writes batch [] w = (sls, w1)" and c: "crash_of (w_disk w1) d"
  obtains k where "k \<le> length batch" "\<forall>m \<in> dom (map_of (files d)). readable d m"
    "disk_log d (segment_seqs d) = w_log w @ zip (take k (map sl_seq sls)) (map req_record (take k batch))"
proof -
  note cm = commit_writes_all [OF w good cw]
  let ?n = "seg_seq (active_segment w1)" and ?d1 = "w_disk w1"
  let ?ns = "map seg_seq (butlast (segments w1))" and ?new = "zip (map sl_seq sls) (map req_record batch)"
  have inv: "wal_inv w" and ok: "disk_ok w" and sy: "synced_but {} (w_disk w)"
    using w by (simp_all add: wal_durable_def)
  have ok1: "disk_ok w1" and sy1: "synced_but {?n} ?d1" and g: "grows (w_disk w) ?d1"
    and log: "w_log w1 = w_log w @ ?new"
    using cm(1) unfolding wrote_def by auto
  have seqs1: "seqs w1 = ?ns @ [?n]" using wal_inv_nonempty [OF cm(2)] by (rule seqs_active)
  have n: "?n \<in> set (seqs w1)" by (simp only: seqs1) simp
  obtain j where j: "j \<le> length (seg_records ?d1 ?n)" "length (seg_records (w_disk w) ?n) \<le> j"
    "decodeRecords (file_bytes d ?n) = Returns (take j (seg_records ?d1 ?n))"
    using crash_active [OF c ok ok1 g sy n] by blast
  note after = crash_active_log [OF cm(2) ok1 sy1 c j(3)]
  have split: "disk_log ?d1 ?ns @ map (Pair ?n) (seg_records ?d1 ?n) = w_log w @ ?new"
    unfolding log [symmetric] seqs1 by simp
  have "seg_records (w_disk w) ?n = []" if "?n \<notin> set (seqs w)"
  proof -
    have "map_of (files (w_disk w)) ?n = None"
      using that unfolding disk_ok_dom [OF ok, symmetric] by blast
    then show ?thesis by (simp add: seg_records_def file_bytes_def)
  qed
  then have cnt: "length (filter (\<lambda>nr. fst nr = ?n) (w_log w)) = length (seg_records (w_disk w) ?n)"
    unfolding tag_count [OF wal_inv_distinct [OF inv]] by simp
  have "distinct (?ns @ [?n])" using wal_inv_distinct [OF cm(2)] by (simp only: seqs1)
  then have cnt0: "length (filter (\<lambda>nr. fst nr = ?n) (disk_log ?d1 ?ns)) = 0"
    by (subst tag_count) simp_all
  obtain k where k: "k \<le> length ?new" "disk_log d (segment_seqs d) = w_log w @ take k ?new"
    using take_append_less [OF split j(2,1) cnt cnt0] after(3) unfolding after(1) by auto
  show ?thesis
    using k cm(4) after(2) by (intro that [of k]) (simp_all add: take_zip take_map)
qed

lemma crash_commit:
  assumes w: "wal_durable w" and good: "list_all req_good batch"
    and cw: "commit_writes batch [] w = (sls, w1)" and c: "crash_of (w_disk w1) d"
  shows "\<exists>k \<le> length batch. \<exists>w' d'. wal_Open ms mb d = (Inr w', d') \<and> wal_inv w'
     \<and> outstanding (w_index w') = fold spec_op (map req_apply (take k batch)) (outstanding (w_index w))"
proof -
  obtain k where k: "k \<le> length batch" "\<forall>m \<in> dom (map_of (files d)). readable d m"
    "disk_log d (segment_seqs d) = w_log w @ zip (take k (map sl_seq sls)) (map req_record (take k batch))"
    by (rule crash_log_prefix [OF w good cw c])
  have "log_index (disk_log d (segment_seqs d)) =
      fold index_rec (zip (take k (map sl_seq sls)) (map req_record (take k batch))) (log_index (w_log w))"
    by (simp only: k(3) log_index_append)
  moreover have "length (take k (map sl_seq sls)) = length (take k batch)"
    using commit_writes_all(4) [OF w good cw] by simp
  moreover have "list_all req_good (take k batch)" using good by (rule list_all_take)
  moreover have "outstanding (log_index (w_log w)) = outstanding (w_index w)"
    using w by (intro outstanding_cong) (simp add: wal_durable_def)
  ultimately have "outstanding (log_index (disk_log d (segment_seqs d))) =
      fold spec_op (map req_apply (take k batch)) (outstanding (w_index w))"
    using outstanding_requests by metis
  moreover obtain w' d' where "wal_Open ms mb d = (Inr w', d')" "wal_inv w'"
    "w_index w' = log_index (disk_log d (segment_seqs d))"
    using c unfolding crash_of_def by (metis wal_Open_none [OF _ _ k(2)])
  ultimately show ?thesis using k(1) by metis
qed

end
