(* ===== verification/Wal_System.thy ===== *)
theory Wal_System
  imports Wal_Crash
begin

text \<open>
  internal/wal/wal.go as a concurrent system: callers that check, marshal and
  then send on \<^verbatim>\<open>writeCh\<close>, the writer goroutine (\<^verbatim>\<open>writerLoop\<close>, \<^verbatim>\<open>drainBatch\<close>,
  \<^verbatim>\<open>commitBatch\<close>) and the steps of \<^verbatim>\<open>Close\<close>, as a labelled step relation. A
  commit is one step because it holds the lock that every reader takes.
\<close>

section \<open>States and steps\<close>

datatype writer =
    Waiting
  | Draining "writeRequest list"
  | Committing "writeRequest list"
  | Stopped
  | Released

record wal_system =
  sy_wal :: wal
  sy_ready :: "writeRequest list"
  sy_chan :: "writeRequest list"
  sy_writer :: writer
  sy_answers :: "(writeRequest \<times> wal_error option) list"

datatype sys_label =
    AppendCall Event "string list"
  | AckCall string string Disposition
  | Sent writeRequest
  | Taken
  | Drained
  | Committed
  | CloseCalled
  | WriterReturns
  | CloseReturns "wal_error option"

definition writeCh_capacity :: nat where
  "writeCh_capacity = 256"

definition call_request :: "sys_label \<Rightarrow> wal \<Rightarrow> (wal_error + writeRequest) option" where
  "call_request l w =
     (case l of AppendCall e ps \<Rightarrow> Some (append_request e ps w)
      | AckCall i p disp \<Rightarrow> Some (ack_request i p disp w)
      | _ \<Rightarrow> None)"

text \<open>The batch the writer holds.\<close>

definition batch_of :: "writer \<Rightarrow> writeRequest list" where
  "batch_of wr = (case wr of Draining b \<Rightarrow> b | Committing b \<Rightarrow> b | _ \<Rightarrow> [])"

inductive sys_step :: "wal_system \<Rightarrow> sys_label \<Rightarrow> wal_system \<Rightarrow> bool" where
  refused: "call_request l (sy_wal s) = Some (Inl e) \<Longrightarrow> sys_step s l s"
| checked: "call_request l (sy_wal s) = Some (Inr q) \<Longrightarrow>
    sys_step s l (s\<lparr>sy_ready := q # sy_ready s\<rparr>)"
| send: "sy_ready s = xs @ q # ys \<Longrightarrow> length (sy_chan s) < writeCh_capacity \<Longrightarrow>
    sys_step s (Sent q) (s\<lparr>sy_ready := xs @ ys, sy_chan := sy_chan s @ [q]\<rparr>)"
| wake: "sy_writer s = Waiting \<Longrightarrow> sy_chan s = q # c \<Longrightarrow>
    sys_step s Taken (s\<lparr>sy_writer := Draining [q], sy_chan := c\<rparr>)"
| drain: "sy_writer s = Draining b \<Longrightarrow> sy_chan s = q # c \<Longrightarrow>
    sys_step s Taken (s\<lparr>sy_writer := Draining (b @ [q]), sy_chan := c\<rparr>)"
| drained: "sy_writer s = Draining b \<Longrightarrow> sy_chan s = [] \<Longrightarrow>
    sys_step s Drained (s\<lparr>sy_writer := Committing b\<rparr>)"
| commit: "sy_writer s = Committing b \<Longrightarrow> commitBatch b (sy_wal s) = (errs, w') \<Longrightarrow>
    sys_step s Committed (s\<lparr>sy_writer := Waiting, sy_wal := w', sy_answers := sy_answers s @ zip b errs\<rparr>)"
| closing: "\<not> w_closed (sy_wal s) \<Longrightarrow>
    sys_step s CloseCalled (s\<lparr>sy_wal := (sy_wal s)\<lparr>w_closed := True\<rparr>\<rparr>)"
| stop: "sy_writer s = Waiting \<Longrightarrow> w_closed (sy_wal s) \<Longrightarrow> sy_chan s = [] \<Longrightarrow>
    sys_step s WriterReturns (s\<lparr>sy_writer := Stopped\<rparr>)"
| release: "sy_writer s = Stopped \<Longrightarrow> close_active (sy_wal s) = (err, w') \<Longrightarrow>
    sys_step s (CloseReturns err) (s\<lparr>sy_writer := Released, sy_wal := w'\<rparr>)"

inductive sys_runs :: "wal_system \<Rightarrow> sys_label list \<Rightarrow> wal_system \<Rightarrow> bool" where
  none: "sys_runs s [] s"
| more: "sys_runs s ls t \<Longrightarrow> sys_step t l u \<Longrightarrow> sys_runs s (ls @ [l]) u"

lemma sys_runs_Cons:
  assumes "sys_step s l t" "sys_runs t ls u"
  shows "sys_runs s (l # ls) u"
  using assms(2,1)
proof (induction rule: sys_runs.induct)
  case (none t)
  then show ?case using sys_runs.more [OF sys_runs.none [of s], of l t] by simp
next
  case (more t ls u k v)
  then show ?case using sys_runs.more [of s "l # ls" u k v] by simp
qed

inductive_cases sys_stepE: "sys_step s l t"
inductive_simps sys_step_Sent: "sys_step s (Sent q) t"

definition opened :: "wal \<Rightarrow> wal_system" where
  "opened w = \<lparr>sy_wal = w, sy_ready = [], sy_chan = [], sy_writer = Waiting, sy_answers = []\<rparr>"

fun sent :: "sys_label list \<Rightarrow> writeRequest list" where
  "sent [] = []"
| "sent (Sent q # ls) = q # sent ls"
| "sent (_ # ls) = sent ls"

lemma sent_append [simp]: "sent (ls @ ms) = sent ls @ sent ms"
  by (induction ls rule: sent.induct) simp_all

text \<open>The operations of the requests whose callers were told of success.\<close>

definition succeeded :: "(writeRequest \<times> wal_error option) list \<Rightarrow> applyOp list" where
  "succeeded as = map (\<lambda>(q, err). req_apply q) (filter (\<lambda>(q, err). err = None) as)"

lemma succeeded_append [simp]: "succeeded (as @ bs) = succeeded as @ succeeded bs"
  by (simp add: succeeded_def)

section \<open>First in, first out\<close>

lemma commit_answers:
  "commitBatch b w = (errs, w') \<Longrightarrow> wal_inv w \<Longrightarrow> length errs = length b \<and> wal_inv w'"
  using commitBatch_inv [of w b] by simp

lemma close_active_inv:
  assumes "wal_inv w" "close_active w = (err, w')"
  shows "wal_inv w'" "w_index w' = w_index w"
proof -
  have "segments w \<noteq> []" using assms(1) by (rule wal_inv_nonempty)
  then have "skel w' = skel w \<and> nextSeq w' = nextSeq w \<and> w_index w' = w_index w"
    using assms(2) unfolding close_active_def
    by (auto simp: skel_set_active dest!: segment_close_fields split: prod.splits option.splits)
  then show "wal_inv w'" "w_index w' = w_index w"
    using assms(1) wal_inv_skel [of w' w] by simp_all
qed

lemma wal_inv_flag: "wal_inv (w\<lparr>w_closed := b\<rparr>) = wal_inv w"
  by (rule wal_inv_skel) (simp_all add: skel_def)

lemma step_inv:
  assumes "sys_step s l t" "wal_inv (sy_wal s)"
  shows "wal_inv (sy_wal t)"
  using assms
proof cases
  case (commit b errs w')
  then show ?thesis using commit_answers assms(2) by simp
next
  case (release err w')
  then show ?thesis using close_active_inv(1) assms(2) by simp
qed (use assms(2) in \<open>simp_all add: wal_inv_flag\<close>)

lemma runs_inv: "sys_runs s ls t \<Longrightarrow> wal_inv (sy_wal s) \<Longrightarrow> wal_inv (sy_wal t)"
  by (induction rule: sys_runs.induct) (simp_all add: step_inv)

definition pipe :: "wal_system \<Rightarrow> writeRequest list" where
  "pipe s = map fst (sy_answers s) @ batch_of (sy_writer s) @ sy_chan s"

lemma step_pipe:
  assumes "sys_step s l t" "wal_inv (sy_wal s)"
  shows "pipe t = pipe s @ sent [l]"
  using assms
proof cases
  case (refused e)
  then show ?thesis by (cases l) (simp_all add: call_request_def)
next
  case (checked q)
  then show ?thesis by (cases l) (simp_all add: call_request_def pipe_def)
next
  case (commit b errs w')
  then show ?thesis using commit_answers [OF commit(4) assms(2)] by (simp add: pipe_def batch_of_def)
qed (simp_all add: pipe_def batch_of_def)

lemma runs_pipe: "sys_runs s ls t \<Longrightarrow> wal_inv (sy_wal s) \<Longrightarrow> pipe t = pipe s @ sent ls"
  by (induction rule: sys_runs.induct) (simp_all add: step_pipe runs_inv)

section \<open>The answered requests, and only they, have happened\<close>

lemma step_outstanding:
  assumes "sys_step s l t" "wal_inv (sy_wal s)"
  obtains as where "sy_answers t = sy_answers s @ as"
    "outstanding (w_index (sy_wal t)) = fold spec_op (succeeded as) (outstanding (w_index (sy_wal s)))"
  using assms
proof cases
  case (commit b errs w')
  then show ?thesis
    using that [of "zip b errs"] commitBatch_effect [OF assms(2) commit(4)]
    by (simp add: succeeded_def)
next
  case (release err w')
  then show ?thesis using that [of "[]"] close_active_inv(2) [OF assms(2) release(4)]
    by (simp add: succeeded_def)
qed (use that [of "[]"] in \<open>simp_all add: succeeded_def\<close>)

lemma runs_outstanding:
  assumes "sys_runs (opened w) ls t" "wal_inv w"
  shows "outstanding (w_index (sy_wal t)) = fold spec_op (succeeded (sy_answers t)) (outstanding (w_index w))"
  using assms
proof (induction "opened w" ls t rule: sys_runs.induct)
  case none
  show ?case by (simp add: opened_def succeeded_def)
next
  case (more ls t l u)
  have "wal_inv (sy_wal t)" using runs_inv [OF more(1)] more.prems by (simp add: opened_def)
  from step_outstanding [OF more(3) this] obtain as where "sy_answers u = sy_answers t @ as"
    "outstanding (w_index (sy_wal u)) = fold spec_op (succeeded as) (outstanding (w_index (sy_wal t)))" .
  with more show ?case by simp
qed

section \<open>Durability at every moment\<close>

definition label_fits :: "sys_label \<Rightarrow> bool" where
  "label_fits l \<longleftrightarrow> (case l of AppendCall e ps \<Rightarrow> append_fits e ps
     | AckCall i p disp \<Rightarrow> ack_fits i p disp | _ \<Rightarrow> True)"

lemma call_request_good:
  "call_request l w = Some (Inr q) \<Longrightarrow> label_fits l \<Longrightarrow> req_good q"
  by (auto simp: call_request_def label_fits_def split: sys_label.splits
      dest: append_request_good(1) ack_request_good(1))

definition sound :: "wal_system \<Rightarrow> bool" where
  "sound s \<longleftrightarrow> list_all req_good (sy_ready s @ sy_chan s @ batch_of (sy_writer s))
     \<and> (sy_writer s \<noteq> Released \<longrightarrow> wal_durable (sy_wal s))
     \<and> list_all (\<lambda>(q, err). err = None) (sy_answers s)"

lemma durable_flag: "wal_durable (w\<lparr>w_closed := b\<rparr>) = wal_durable w"
  by (simp add: wal_durable_def disk_ok_def wal_inv_flag active_segment_def)

lemma step_sound:
  assumes "sys_step s l t" "label_fits l" "sound s"
  shows "sound t"
  using assms
proof cases
  case (commit b errs w')
  then have "wal_durable (sy_wal s)" "list_all req_good b"
    using assms(3) by (simp_all add: sound_def batch_of_def)
  note c = commitBatch_durable [OF this commit(4)]
  have "list_all (\<lambda>(q, err). err = None) (zip b errs)"
    unfolding c(2) zip_replicate2 by (simp add: list_all_iff)
  with c(1) assms(3) commit show ?thesis by (simp add: sound_def batch_of_def)
qed (use assms(2,3) call_request_good [of l "sy_wal s"] in \<open>auto simp: sound_def batch_of_def durable_flag\<close>)

lemma runs_sound:
  assumes "sys_runs (opened w) ls t" "wal_durable w" "list_all label_fits ls"
  shows "sound t"
  using assms
proof (induction "opened w" ls t rule: sys_runs.induct)
  case none
  then show ?case by (simp add: opened_def sound_def batch_of_def)
next
  case (more ls t l u)
  then show ?case using step_sound [of t l u] by simp
qed

section \<open>Closing\<close>

definition stopped :: "wal_system \<Rightarrow> bool" where
  "stopped s \<longleftrightarrow> sy_writer s = Stopped \<or> sy_writer s = Released"

lemma step_stopped: "sys_step s l t \<Longrightarrow> stopped s \<Longrightarrow> stopped t \<and> sy_answers t = sy_answers s"
  by (induction rule: sys_step.induct) (auto simp: stopped_def)

lemma runs_stopped: "sys_runs s ls t \<Longrightarrow> stopped s \<Longrightarrow> stopped t \<and> sy_answers t = sy_answers s"
  by (induction rule: sys_runs.induct) (auto dest: step_stopped)

text \<open>What is left for the writer and \<^verbatim>\<open>Close\<close> to do, in steps of their own.\<close>

definition writer_work :: "wal_system \<Rightarrow> nat" where
  "writer_work s = 3 * length (sy_chan s) + (case sy_writer s of
     Waiting \<Rightarrow> 2 | Draining b \<Rightarrow> 4 | Committing b \<Rightarrow> 3 | Stopped \<Rightarrow> 1 | Released \<Rightarrow> 0)"

definition writer_label :: "sys_label \<Rightarrow> bool" where
  "writer_label l \<longleftrightarrow> (case l of Taken \<Rightarrow> True | Drained \<Rightarrow> True | Committed \<Rightarrow> True
     | WriterReturns \<Rightarrow> True | CloseReturns err \<Rightarrow> True | _ \<Rightarrow> False)"

lemma writer_step_less: "sys_step s l t \<Longrightarrow> writer_label l \<Longrightarrow> writer_work t < writer_work s"
proof (induction rule: sys_step.induct)
  case (refused l s e)
  then show ?case by (cases l) (simp_all add: call_request_def writer_label_def)
next
  case (checked l s q)
  then show ?case by (cases l) (simp_all add: call_request_def writer_label_def)
qed (simp_all add: writer_work_def writer_label_def)

lemma writer_progress:
  assumes "w_closed (sy_wal s)" "sy_writer s \<noteq> Released"
  shows "\<exists>l t. sys_step s l t \<and> writer_label l"
proof (cases "sy_writer s")
  case Waiting
  with assms show ?thesis
    by (cases "sy_chan s")
       (force intro: sys_step.stop sys_step.wake simp: writer_label_def)+
next
  case (Draining b)
  then show ?thesis
    by (cases "sy_chan s")
       (force intro: sys_step.drained sys_step.drain simp: writer_label_def)+
next
  case (Committing b)
  obtain errs w' where "commitBatch b (sy_wal s) = (errs, w')" by fastforce
  with Committing have "sys_step s Committed
      (s\<lparr>sy_writer := Waiting, sy_wal := w', sy_answers := sy_answers s @ zip b errs\<rparr>)"
    by (rule sys_step.commit)
  then show ?thesis by (force simp: writer_label_def)
next
  case Stopped
  obtain err w' where "close_active (sy_wal s) = (err, w')" by fastforce
  with Stopped have "sys_step s (CloseReturns err) (s\<lparr>sy_writer := Released, sy_wal := w'\<rparr>)"
    by (rule sys_step.release)
  then show ?thesis by (force simp: writer_label_def)
qed (use assms in simp)

end
