(* ===== verification/Wal_Size.thy ===== *)
theory Wal_Size
  imports Wal_Commit
begin

text \<open>
  internal/wal/wal.go: \<^verbatim>\<open>TotalBytes\<close> and the cap on it. Under any faults a commit adds
  at most the bytes of its frames, and an append is admitted only under the cap.
\<close>

section \<open>The size of the log\<close>

definition sizes_ok :: "wal \<Rightarrow> bool" where
  "sizes_ok w \<longleftrightarrow> segments w \<noteq> [] \<and> (\<forall>s \<in> set (segments w). 0 \<le> seg_size s)"

lemma TotalBytes_active:
  "segments w \<noteq> [] \<Longrightarrow> TotalBytes w = sum_list (map seg_size (butlast (segments w))) + seg_size (active_segment w)"
  unfolding TotalBytes_def active_segment_def by (cases "segments w" rule: rev_cases) simp_all

lemma TotalBytes_set_active [simp]:
  "TotalBytes (set_active s w) = sum_list (map seg_size (butlast (segments w))) + seg_size s"
  by (simp add: TotalBytes_def set_active_def)

lemma sizes_set_active:
  "sizes_ok w \<Longrightarrow> 0 \<le> seg_size s \<Longrightarrow> sizes_ok (set_active s w)"
  by (auto simp: sizes_ok_def set_active_def dest: in_set_butlastD)

lemma sizes_active: "sizes_ok w \<Longrightarrow> 0 \<le> seg_size (active_segment w)"
  by (auto simp: sizes_ok_def active_segment_def)

lemma sizes_disk [simp]: "sizes_ok (w\<lparr>w_disk := d\<rparr>) = sizes_ok w" "TotalBytes (w\<lparr>w_disk := d\<rparr>) = TotalBytes w"
  by (simp_all add: sizes_ok_def TotalBytes_def)

lemma segment_append_size:
  "segment_append s data d = (err, s', d') \<Longrightarrow> seg_size s \<le> seg_size s' \<and> seg_size s' \<le> seg_size s + int (length data)"
  by (auto simp: segment_append_def os_write_def split: if_splits prod.splits fault.splits option.splits)

lemma write_slot_size:
  assumes "sizes_ok w" "write_slot q w = (sl, w')"
  shows "sizes_ok w' \<and> TotalBytes w' \<le> TotalBytes w + int (length (req_frame q))"
proof -
  obtain err s d where a: "segment_append (active_segment w) (req_frame q) (w_disk w) = (err, s, d)"
    by (metis prod_cases3)
  then have w': "w' = set_active s (w\<lparr>w_disk := d\<rparr>)" using assms(2) by (simp add: write_slot_def)
  have "segments w \<noteq> []" using assms(1) by (simp add: sizes_ok_def)
  with segment_append_size [OF a] sizes_active [OF assms(1)] sizes_set_active [of "w\<lparr>w_disk := d\<rparr>" s] assms(1)
  show ?thesis by (simp add: w' TotalBytes_active)
qed

lemma rotate_size:
  assumes "sizes_ok w" "wal_rotate w = (err, w')"
  shows "sizes_ok w' \<and> TotalBytes w' = TotalBytes w"
proof -
  have ne: "segments w \<noteq> []" using assms(1) by (simp add: sizes_ok_def)
  have "seg_size s = seg_size (active_segment w)" if "segment_close (active_segment w) d = (e, s, d')" for e s d d'
    using segment_close_fields [OF that] by simp
  with assms sizes_active [OF assms(1)] ne show ?thesis
    by (auto simp: wal_rotate_def Let_def TotalBytes_active sizes_set_active
        dest!: createSegment_fields split: prod.splits option.splits)
      (auto simp: sizes_ok_def TotalBytes_def active_segment_def butlast_append dest: in_set_butlastD)
qed

lemma commit_writes_size:
  "commit_writes qs sls w = (sls', w') \<Longrightarrow> sizes_ok w \<Longrightarrow>
     sizes_ok w' \<and> TotalBytes w' \<le> TotalBytes w + (\<Sum>q\<leftarrow>qs. int (length (req_frame q)))"
proof (induction qs sls w rule: commit_writes.induct)
  case (2 q qs sls w)
  show ?case
  proof (cases "needs_rotation q w")
    case False
    obtain sl w2 where ws: "write_slot q w = (sl, w2)" by fastforce
    with "2.prems" False have "commit_writes qs (sls @ [sl]) w2 = (sls', w')" by simp
    with "2.IH"(3) [OF False ws [symmetric]] write_slot_size [OF "2.prems"(2) ws] show ?thesis by simp
  next
    case True
    obtain err w1 where r: "wal_rotate w = (err, w1)" by fastforce
    note rs = rotate_size [OF "2.prems"(2) r]
    show ?thesis
    proof (cases err)
      case (Some e)
      with "2.IH"(2) [OF True r [symmetric] Some] "2.prems" True r rs show ?thesis by simp
    next
      case None
      obtain sl w2 where ws: "write_slot q w1 = (sl, w2)" by fastforce
      with "2.IH"(1) [OF True r [symmetric] None ws [symmetric]] "2.prems" True r None rs
        write_slot_size [of w1 q sl w2] show ?thesis by simp
    qed
  qed
qed simp

lemma ref_sizes [simp]:
  "map seg_size (increfSegment n ss) = map seg_size ss" "map seg_size (decrefSegment n ss) = map seg_size ss"
  by (induction ss) simp_all

lemma sizes_ok_map: "sizes_ok w \<longleftrightarrow> segments w \<noteq> [] \<and> (\<forall>z \<in> set (map seg_size (segments w)). 0 \<le> z)"
  by (simp add: sizes_ok_def)

lemma apply_op_sizes: "map seg_size (segments (apply_op op n w)) = map seg_size (segments w)"
  by (auto simp: apply_op_def Let_def split: applyOp.split option.split)

lemma apply_op_size [simp]: "TotalBytes (apply_op op n w) = TotalBytes w" "sizes_ok (apply_op op n w) = sizes_ok w"
  by (simp_all only: TotalBytes_def sizes_ok_map apply_op_sizes apply_op_nonempty)

lemma apply_batch_size:
  "apply_batch se qs w = (errs, w') \<Longrightarrow> TotalBytes w' = TotalBytes w \<and> sizes_ok w' = sizes_ok w"
  by (induction qs arbitrary: w errs w') (auto simp: Let_def split: prod.splits if_splits)

lemma gc_size:
  "gc_front ss d = (ss', d') \<Longrightarrow> \<forall>s \<in> set ss. 0 \<le> seg_size s \<Longrightarrow>
     sum_list (map seg_size ss') \<le> sum_list (map seg_size ss)"
  by (induction ss d rule: gc_front.induct) (force split: if_splits)+

lemma commitBatch_size:
  assumes "sizes_ok w" "commitBatch b w = (errs, w')"
  shows "TotalBytes w' \<le> TotalBytes w + (\<Sum>q\<leftarrow>b. int (length (req_frame q)))"
proof -
  obtain sls w1 where cw: "commit_writes b [] w = (sls, w1)" by fastforce
  obtain se d where sy: "segment_sync (active_segment w1) (w_disk w1) = (se, d)" by fastforce
  obtain es w2 where ab: "apply_batch se (zip b sls) (w1\<lparr>w_disk := d\<rparr>) = (es, w2)" by fastforce
  obtain ss d' where gc: "gc_front (segments w2) (w_disk w2) = (ss, d')" by fastforce
  have w': "w' = w2\<lparr>segments := ss, w_disk := d'\<rparr>"
    using assms(2) by (simp add: commitBatch_def cw sy ab gcSegments_def gc)
  note c = commit_writes_size [OF cw assms(1)] and a = apply_batch_size [OF ab]
  then have "sizes_ok w2" by simp
  with gc_size [OF gc] have "TotalBytes w' \<le> TotalBytes w2"
    by (simp add: w' TotalBytes_def sizes_ok_def)
  with c a show ?thesis by simp
qed

lemma append_request_cap:
  "append_request e ps w = Inr q \<Longrightarrow> 0 < maxBytes w \<Longrightarrow> TotalBytes w + int (length (req_frame q)) \<le> maxBytes w"
  by (auto simp: append_request_def Let_def split: if_splits option.splits)

section \<open>The size after a restart\<close>

lemma open_active_size:
  assumes "open_active ss nxt d = (Some (ss', nxt'), d')"
  obtains s where "ss' = butlast ss @ [s]" "seg_size s = int (length (file_bytes d' (seg_seq s)))"
proof -
  have create: "seg_size s = int (length (file_bytes d'' (seg_seq s)))" if "createSegment n x = (Some s, d'')" for n s x d''
    using that
    by (auto simp: createSegment_def os_create_def set_file_def file_bytes_def split: prod.splits if_splits fault.splits option.splits)
  have reopen: "seg_seq s = n \<and> seg_size s = int (length (file_bytes d'' n))"
    if "openSegmentForAppend n x = (Some s, d'')" for n s x d''
    using that by (auto simp: openSegmentForAppend_def split: prod.splits if_splits)
  show ?thesis
    using assms that
    by (auto simp: open_active_def dest!: create reopen split: if_splits prod.splits option.splits)
qed

lemma wal_Open_sizes:
  assumes "wal_Open ms mb d0 = (Inr w, d)"
  obtains ss s where "segments w = ss @ [s]" "\<forall>x \<in> set ss. seg_size x = 0"
    "seg_size s = int (length (file_bytes d (seg_seq s)))"
proof -
  obtain ns idx d3 ss d4 nxt where gc: "replay_gc (replayed_segments ns idx) d3 = (Some ss, d4)"
    and oa: "open_active ss (next_seq_of ns) d4 = (Some (segments w, nxt), d)"
    using assms by (auto simp: wal_Open_def Let_def split: prod.splits if_splits sum.splits option.splits)
  have "set ss \<subseteq> set (replayed_segments ns idx)" using replay_gc_suffix [OF gc] by auto
  then have "\<forall>x \<in> set ss. seg_size x = 0" by (auto simp: replayed_segments_def)
  then have "\<forall>x \<in> set (butlast ss). seg_size x = 0" by (auto dest: in_set_butlastD)
  then show ?thesis using open_active_size [OF oa] that by metis
qed

lemma restart_size:
  assumes "wal_Open ms mb d0 = (Inr w, d)"
  shows "TotalBytes w = int (length (file_bytes d (last (seqs w))))"
    and "TotalBytes w = (\<Sum>n\<leftarrow>seqs w. int (length (file_bytes d n)))
      \<longleftrightarrow> (\<forall>n \<in> set (butlast (seqs w)). file_bytes d n = [])"
proof -
  obtain ss s where w: "segments w = ss @ [s]" "\<forall>x \<in> set ss. seg_size x = 0"
    "seg_size s = int (length (file_bytes d (seg_seq s)))"
    using wal_Open_sizes [OF assms] by blast
  have z: "sum_list (map seg_size ss) = 0" using w(2) by (induction ss) simp_all
  show t: "TotalBytes w = int (length (file_bytes d (last (seqs w))))"
    using w(1,3) z by (simp add: TotalBytes_def)
  have "(\<Sum>n\<leftarrow>ns. int (length (file_bytes d n))) = 0 \<longleftrightarrow> (\<forall>n \<in> set ns. file_bytes d n = [])" for ns
    by (subst sum_list_nonneg_eq_0_iff) auto
  from this [of "map seg_seq ss"] show "TotalBytes w = (\<Sum>n\<leftarrow>seqs w. int (length (file_bytes d n)))
      \<longleftrightarrow> (\<forall>n \<in> set (butlast (seqs w)). file_bytes d n = [])"
    using t w(1) by (auto simp: butlast_append)
qed

end
