(* ===== verification/Wal_Props.thy ===== *)
theory Wal_Props
  imports Wal_System Wal_Size Samples
begin

text \<open>The properties of the write-ahead log, with a small log as their witness.\<close>

section \<open>A small log\<close>

definition empty_disk :: disk where
  "empty_disk = \<lparr>files = [], faults = []\<rparr>"

definition demo_wal :: wal where
  "demo_wal = \<lparr>maxSegmentBytes = 1000, maxBytes = 0, w_index = [],
     segments = [\<lparr>seg_seq = 0, seg_f = OpenFile, seg_size = 0, seg_refCount = 0\<rparr>],
     nextSeq = 1, w_closed = False,
     w_disk = \<lparr>files = [(0, \<lparr>contents = [], durable = 0\<rparr>)], faults = []\<rparr>\<rparr>"

lemma demo_fits: "append_fits demo_event [''p'']"
proof -
  have "length (to_bytes (json_text (eventPayload_json \<lparr>pl_Event = demo_event, pl_Providers = [''p'']\<rparr>))) < 1000"
    unfolding eventPayload_json_def event_json_def demo_event_def Event.simps eventPayload.simps demo_time_text
    by code_simp
  then show ?thesis by (simp add: append_fits_def marshal_eventPayload_def)
qed

lemma demo_open: "wal_Open 1000 0 empty_disk = (Inr demo_wal, w_disk demo_wal)"
  by (simp add: wal_Open_def empty_disk_def demo_wal_def os_call_none segment_seqs_def
      replayed_segments_def open_active_def createSegment_def os_create_none next_seq_of_def set_file_def)

lemma demo_durable: "wal_durable demo_wal"
proof -
  have "intact (w_disk demo_wal) 0"
    by (simp add: intact_def demo_wal_def file_bytes_def) (intro exI [of _ "[]"], simp)
  then show ?thesis
    by (simp add: wal_durable_def wal_inv_def disk_ok_def demo_wal_def keyed_def entries_in_def
        counts_ok_def refs_def map_ok_def active_segment_def synced_but_def seg_records_def
        file_bytes_def log_index_def)
qed

definition demo_request :: writeRequest where
  "demo_request = (case append_request demo_event [''p''] demo_wal of Inr q \<Rightarrow> q | Inl _ \<Rightarrow> undefined)"

lemma demo_append_request: "append_request demo_event [''p''] demo_wal = Inr demo_request"
proof -
  have "\<exists>q. append_request demo_event [''p''] demo_wal = Inr q"
    by (simp add: append_request_def marshal_eventPayload_def demo_marshal Let_def demo_wal_def)
  then show ?thesis by (auto simp: demo_request_def)
qed

lemma demo_request_good: "req_good demo_request" "req_apply demo_request = ApplyEvent demo_event [''p'']"
  using append_request_good [OF demo_append_request demo_fits] by blast+

text \<open>A crash that keeps everything is a crash.\<close>

definition settle :: "disk \<Rightarrow> disk" where
  "settle d = d\<lparr>files := map (\<lambda>(n, fl). (n, fl\<lparr>durable := length (contents fl)\<rparr>)) (files d)\<rparr>"

lemma settle_lookup:
  "map_of (files (settle d)) n = map_option (\<lambda>fl. fl\<lparr>durable := length (contents fl)\<rparr>) (map_of (files d) n)"
  by (simp add: settle_def map_of_map [unfolded comp_def])

lemma crash_settle:
  assumes "faults d = []" "map_ok (files d)" "durable_bound d"
  shows "crash_of d (settle d)"
  unfolding crash_of_def
proof (intro conjI allI)
  fix n
  show "case map_of (files d) n of None \<Rightarrow> map_of (files (settle d)) n = None
      | Some fl \<Rightarrow> \<exists>k\<ge>durable fl. map_of (files (settle d)) n =
          Some \<lparr>contents = take k (contents fl), durable = length (take k (contents fl))\<rparr>"
  proof (cases "map_of (files d) n")
    case (Some fl)
    then have "durable fl \<le> length (contents fl)" using assms(3) unfolding durable_bound_def by blast
    moreover have "fl\<lparr>durable := length (contents fl)\<rparr> =
        \<lparr>contents = take (length (contents fl)) (contents fl), durable = length (take (length (contents fl)) (contents fl))\<rparr>"
      by (cases fl) simp
    ultimately show ?thesis using Some by (auto simp: settle_lookup)
  qed (simp add: settle_lookup)
next
  show "faults (settle d) = []" using assms(1) by (simp add: settle_def)
  show "map_ok (files (settle d))"
    using assms(2) by (simp add: settle_def map_ok_def o_def case_prod_beta)
qed

lemma durable_crash: "wal_durable w \<Longrightarrow> crash_of (w_disk w) (settle (w_disk w))"
  by (intro crash_settle synced_bound) (simp_all add: wal_durable_def disk_ok_def)


section \<open>Crash safety\<close>

text \<open>
  Nothing committed is lost. From a durable state (every committed record is
  on disk and synced), a crash at any moment after the commit returned, followed
  by \<^verbatim>\<open>Open\<close>, gives back exactly the outstanding deliveries, in a state that is
  durable again.
\<close>

theorem crash_after_commit:
  assumes "wal_durable w" "crash_of (w_disk w) d"
  shows "\<exists>w' d'. wal_Open ms mb d = (Inr w', d') \<and> wal_durable w'
     \<and> outstanding (w_index w') = outstanding (w_index w)"
  using recover_index [OF assms] by metis

theorem crash_after_commit_witness:
  "\<exists>w' d'. wal_Open 1000 0 (settle (w_disk demo_wal)) = (Inr w', d') \<and> wal_durable w'
     \<and> outstanding (w_index w') = outstanding (w_index demo_wal)"
  by (rule crash_after_commit [OF demo_durable durable_crash [OF demo_durable]])



text \<open>
  C5. Without faults a commit is a refinement: every request succeeds, the state
  is durable again, and the outstanding deliveries are the batch's operations
  applied in order, whatever rotation and collection did.
\<close>

theorem commit_refines:
  assumes "wal_durable w" "list_all req_good batch" "commitBatch batch w = (errs, w')"
  shows "wal_durable w' \<and> errs = replicate (length batch) None
     \<and> outstanding (w_index w') = fold spec_op (map req_apply batch) (outstanding (w_index w))"
  using commitBatch_durable [OF assms] by blast

theorem commit_refines_witness:
  "wal_durable (snd (commitBatch [demo_request] demo_wal))
     \<and> fst (commitBatch [demo_request] demo_wal) = [None]
     \<and> outstanding (w_index (snd (commitBatch [demo_request] demo_wal))) ''e1'' = Some (demo_event, [''p''])"
  using commit_refines [OF demo_durable, of "[demo_request]"] demo_request_good
  by (cases "commitBatch [demo_request] demo_wal") (simp add: spec_op_def demo_event_def)




text \<open>
  Acknowledged deliveries are not resurrected: once \<^verbatim>\<open>Ack\<close> returned no error,
  the provider is no longer owed the event after a crash and a restart, and when
  it was the last one the event is gone.
\<close>

theorem acked_stays_acked:
  assumes w: "wal_durable w" and f: "ack_fits i p disp" and a: "wal_Ack i p disp w = (None, w1)"
    and c: "crash_of (w_disk w1) d"
  shows "\<exists>w' d'. wal_Open ms mb d = (Inr w', d')
     \<and> outstanding (w_index w') i = (case outstanding (w_index w) i of None \<Rightarrow> None
         | Some (e, ps) \<Rightarrow> if removeAll p ps = [] then None else Some (e, removeAll p ps))"
proof -
  obtain q where q: "ack_request i p disp w = Inr q" and s: "submit (Inr q) w = (None, w1)"
    using a by (auto simp: wal_Ack_def submit_def split: sum.splits)
  note g = ack_request_good [OF q f]
  obtain errs where cb: "commitBatch [q] w = (errs, w1)"
    using s by (auto simp: submit_def split: prod.splits)
  have good: "list_all req_good [q]" using g by simp
  note r = commitBatch_durable [OF w good cb]
  obtain w' d' where "wal_Open ms mb d = (Inr w', d')" "outstanding (w_index w') = outstanding (w_index w1)"
    using recover_index [OF r(1) c] by metis
  with r(3) g(2) show ?thesis by (auto simp: spec_op_def split: option.split)
qed

lemma demo_ack_fits: "ack_fits ''e1'' ''p'' Ok"
proof -
  have "length (to_bytes (json_text (ackPayload_json
      \<lparr>ack_EventID = ''e1'', ack_Provider = ''p'', ack_Disposition = int (Disposition_int Ok)\<rparr>))) < 100"
    by code_simp
  then show ?thesis by (simp add: ack_fits_def marshal_ackPayload_def)
qed

theorem acked_stays_acked_witness:
  "\<exists>w1 w2 w' d'. wal_Append demo_event [''p''] demo_wal = (None, w1) \<and> wal_Ack ''e1'' ''p'' Ok w1 = (None, w2)
     \<and> wal_Open 1000 0 (settle (w_disk w2)) = (Inr w', d') \<and> outstanding (w_index w') ''e1'' = None"
proof -
  obtain errs w1 where cb: "commitBatch [demo_request] demo_wal = (errs, w1)" by fastforce
  have good: "list_all req_good [demo_request]" by (simp add: demo_request_good)
  note r = commitBatch_durable [OF demo_durable good cb]
  have a: "wal_Append demo_event [''p''] demo_wal = (None, w1)"
    using r cb by (simp add: wal_Append_def submit_def demo_append_request)
  have o: "outstanding (w_index w1) ''e1'' = Some (demo_event, [''p''])"
    using r(3) by (simp add: demo_request_good spec_op_def demo_event_def)
  have cl: "\<not> w_closed w1" using commitBatch_settings [OF cb] by (simp add: settings_def demo_wal_def)
  obtain q where q: "ack_request ''e1'' ''p'' Ok w1 = Inr q"
    using cl by (simp add: ack_request_def marshal_ackPayload_def)
  note g = ack_request_good [OF q demo_ack_fits]
  obtain es w2 where cb2: "commitBatch [q] w1 = (es, w2)" by fastforce
  have good2: "list_all req_good [q]" using g by simp
  note r2 = commitBatch_durable [OF r(1) good2 cb2]
  have k: "wal_Ack ''e1'' ''p'' Ok w1 = (None, w2)"
    using r2 cb2 by (simp add: wal_Ack_def submit_def q)
  from acked_stays_acked [OF r(1) demo_ack_fits k durable_crash [OF r2(1)]] a k o
  show ?thesis by fastforce
qed

section \<open>A torn write\<close>

text \<open>A segment whose last write was torn after one byte.\<close>

definition torn_disk :: "writeRequest \<Rightarrow> disk" where
  "torn_disk q = \<lparr>files = [(0, \<lparr>contents = take 1 (req_frame q), durable = 1\<rparr>)], faults = []\<rparr>"

definition torn_wal :: "writeRequest \<Rightarrow> wal" where
  "torn_wal q = \<lparr>maxSegmentBytes = 1000, maxBytes = 0, w_index = [],
     segments = [\<lparr>seg_seq = 0, seg_f = OpenFile, seg_size = 1, seg_refCount = 0\<rparr>],
     nextSeq = 1, w_closed = False, w_disk = torn_disk q\<rparr>"

lemma length_encodeFrame: "length (encodeFrame t p) = 9 + length p"
  by (simp add: encodeFrame_def Let_def)

lemma demo_request_short: "short (req_record demo_request)" "length (req_frame demo_request) < 300"
proof -
  have l: "length (to_bytes (json_text (eventPayload_json \<lparr>pl_Event = demo_event, pl_Providers = [''p'']\<rparr>))) < 255"
    unfolding eventPayload_json_def event_json_def demo_event_def Event.simps eventPayload.simps demo_time_text
    by code_simp
  have "demo_request = \<lparr>req_frame = encodeFrame recTypeEvent
      (to_bytes (json_text (eventPayload_json \<lparr>pl_Event = demo_event, pl_Providers = [''p'']\<rparr>))),
      req_apply = ApplyEvent demo_event [''p'']\<rparr>"
    using demo_append_request
    by (simp add: append_request_def marshal_eventPayload_def demo_marshal Let_def demo_wal_def)
  from arg_cong [OF this, of "length \<circ> req_frame"]
  have "length (req_frame demo_request) = 9 + length (to_bytes (json_text
      (eventPayload_json \<lparr>pl_Event = demo_event, pl_Providers = [''p'']\<rparr>)))"
    by (simp only: comp_apply writeRequest.select_convs length_encodeFrame)
  then have len: "length (req_frame demo_request) < 264"
    using l by linarith
  with req_good_record(1) [OF demo_request_good(1)] show "short (req_record demo_request)"
    by (simp add: short_def)
  from len show "length (req_frame demo_request) < 300" by simp
qed

lemma torn_decodes: "req_frame q \<noteq> [] \<Longrightarrow> decodeRecords (take 1 (req_frame q)) = Returns []"
  by (subst decodeRecords.simps) (simp add: ReadFull_short)

lemma os_read_torn:
  "os_read 0 (torn_disk q) = (Some (take 1 (req_frame q)), torn_disk q)"
  by (simp add: os_read_none torn_disk_def file_bytes_def)

lemma torn_open: "req_frame q \<noteq> [] \<Longrightarrow> wal_Open 1000 0 (torn_disk q) = (Inr (torn_wal q), torn_disk q)"
  using torn_decodes [of q] os_read_torn [of q]
  by (cases "req_frame q") (simp_all add: wal_Open_def os_call_none segment_seqs_def torn_disk_def torn_wal_def
      replayed_segments_def open_active_def openSegmentForAppend_def next_seq_of_def file_bytes_def
      os_read_none count_vals_def)

lemma torn_append:
  assumes "req_frame q \<noteq> []" "length (req_frame q) < 300" "req_apply q = ApplyEvent e ps"
  shows "\<exists>w1. commitBatch [q] (torn_wal q) = ([None], w1)
     \<and> w_disk w1 = \<lparr>files = [(0, \<lparr>contents = take 1 (req_frame q) @ req_frame q,
           durable = Suc (length (req_frame q))\<rparr>)], faults = []\<rparr>"
  using assms
  by (cases "req_frame q")
     (simp_all add: commitBatch_def torn_wal_def needs_rotation_def active_segment_def write_slot_def
      segment_append_def os_write_none segment_sync_def os_sync_none torn_disk_def set_active_def
      file_bytes_def set_file_def apply_op_def gcSegments_def slot_result_def Let_def)

lemma torn_reopen:
  assumes "short (req_record q)" "req_good q"
  shows "\<exists>w. wal_Open ms mb \<lparr>files = [(0, \<lparr>contents = take 1 (req_frame q) @ req_frame q,
      durable = k\<rparr>)], faults = []\<rparr> = (Inr w, w_disk w) \<and> w_index w = []"
proof -
  let ?d = "\<lparr>files = [(0, \<lparr>contents = take 1 (req_frame q) @ req_frame q, durable = k\<rparr>)], faults = []\<rparr>"
  have "decodeRecords (take 1 (req_frame q) @ req_frame q) = Returns []"
    using decode_buried [of "[]" "req_record q" "req_record q" 1 "[]"] assms(1) req_good_record(1) [OF assms(2)]
    by simp
  then show ?thesis
    by (simp add: wal_Open_def os_call_none segment_seqs_def os_read_none file_bytes_def
      replayed_segments_def open_active_def openSegmentForAppend_def)
qed

lemma torn_crash:
  assumes "length (req_frame q) < 300" "req_frame q \<noteq> []"
  shows "crash_of (w_disk (snd (commit_writes [q] [] demo_wal))) (torn_disk q)"
proof -
  have "map_of (files (w_disk (snd (commit_writes [q] [] demo_wal)))) = [0 \<mapsto> \<lparr>contents = req_frame q, durable = 0\<rparr>]"
    using assms by (simp add: demo_wal_def needs_rotation_def active_segment_def write_slot_def
      segment_append_def os_write_none set_active_def file_bytes_def set_file_def)
  with assms(2) show ?thesis
    by (cases "req_frame q") (auto simp: crash_of_def torn_disk_def map_ok_def intro: exI [of _ 1])
qed

text \<open>
  C12. A torn last write hides every later record of its segment. \<^verbatim>\<open>Open\<close> does not
  cut the torn bytes off: after a crash that left one byte of an unfinished
  record, an event whose \<^verbatim>\<open>Append\<close> returned no error, synced to disk, is not among
  the entries the next \<^verbatim>\<open>Open\<close> rebuilds, although nothing failed in between.
\<close>

theorem torn_tail_hides_appends:
  "\<exists>d w w1 w2. crash_of (w_disk (snd (commit_writes [demo_request] [] demo_wal))) d
     \<and> wal_Open 1000 0 d = (Inr w, d)
     \<and> wal_Append demo_event [''p''] w = (None, w1)
     \<and> outstanding (w_index w1) (ID demo_event) = Some (demo_event, [''p''])
     \<and> synced_but {} (w_disk w1)
     \<and> wal_Open 1000 0 (w_disk w1) = (Inr w2, w_disk w2)
     \<and> outstanding (w_index w2) (ID demo_event) = None"
proof -
  let ?q = demo_request
  have ne: "req_frame ?q \<noteq> []" using req_good_record(1) [OF demo_request_good(1)]
    by (metis length_frame_of list.size(3) add_is_0 zero_neq_numeral)
  have q: "append_request demo_event [''p''] (torn_wal ?q) = Inr ?q"
    using demo_append_request
    by (simp add: append_request_def marshal_eventPayload_def demo_marshal Let_def demo_wal_def torn_wal_def)
  obtain w1 where w1: "commitBatch [?q] (torn_wal ?q) = ([None], w1)"
    "w_disk w1 = \<lparr>files = [(0, \<lparr>contents = take 1 (req_frame ?q) @ req_frame ?q,
           durable = Suc (length (req_frame ?q))\<rparr>)], faults = []\<rparr>"
    using torn_append [OF ne demo_request_short(2) demo_request_good(2)] by blast
  obtain w2 where w2: "wal_Open 1000 0 (w_disk w1) = (Inr w2, w_disk w2)" "w_index w2 = []"
    using torn_reopen [OF demo_request_short(1) demo_request_good(1)] unfolding w1(2) by blast
  have "wal_inv (torn_wal ?q)"
    using wal_Open_inv [of "torn_disk ?q"] torn_open [OF ne] by (simp add: torn_disk_def map_ok_def)
  from commitBatch_effect [OF this w1(1)]
  have "outstanding (w_index w1) (ID demo_event) = Some (demo_event, [''p''])"
    by (simp add: demo_request_good(2) spec_op_def)
  moreover have "wal_Append demo_event [''p''] (torn_wal ?q) = (None, w1)"
    by (simp add: wal_Append_def submit_def q w1(1))
  moreover have "outstanding (w_index w2) (ID demo_event) = None"
    by (simp add: w2(2) outstanding_def)
  moreover have "synced_but {} (w_disk w1)"
    using ne by (cases "req_frame ?q") (auto simp: synced_but_def w1(2) split: if_splits)
  ultimately show ?thesis
    using torn_crash [OF demo_request_short(2) ne] torn_open [OF ne] w2(1) by blast
qed

section \<open>The writer and its callers\<close>

lemma demo_inv: "wal_inv demo_wal"
  using demo_durable by (simp add: wal_durable_def)

text \<open>One append through the channel: check, send, take, drain, commit.\<close>

lemma demo_run:
  assumes "commitBatch [demo_request] demo_wal = (errs, w1)"
  shows "sys_runs (opened demo_wal) [AppendCall demo_event [''p''], Sent demo_request, Taken, Drained, Committed]
     \<lparr>sy_wal = w1, sy_ready = [], sy_chan = [], sy_writer = Waiting, sy_answers = zip [demo_request] errs\<rparr>"
proof -
  let ?S = "\<lambda>rd c wr. \<lparr>sy_wal = demo_wal, sy_ready = rd, sy_chan = c, sy_writer = wr, sy_answers = []\<rparr>"
  let ?l = "AppendCall demo_event [''p'']" and ?q = demo_request
  have "sys_step (opened demo_wal) ?l (?S [?q] [] Waiting)"
    using sys_step.checked [of ?l "opened demo_wal" ?q] demo_append_request
    by (simp add: opened_def call_request_def)
  moreover have "sys_step (?S [?q] [] Waiting) (Sent ?q) (?S [] [?q] Waiting)"
    using sys_step.send [of "?S [?q] [] Waiting" "[]" ?q "[]"] by (simp add: writeCh_capacity_def)
  moreover have "sys_step (?S [] [?q] Waiting) Taken (?S [] [] (Draining [?q]))"
    using sys_step.wake [of "?S [] [?q] Waiting" ?q "[]"] by simp
  moreover have "sys_step (?S [] [] (Draining [?q])) Drained (?S [] [] (Committing [?q]))"
    using sys_step.drained [of "?S [] [] (Draining [?q])" "[?q]"] by simp
  moreover have "sys_step (?S [] [] (Committing [?q])) Committed
      \<lparr>sy_wal = w1, sy_ready = [], sy_chan = [], sy_writer = Waiting, sy_answers = zip [?q] errs\<rparr>"
    using sys_step.commit [of "?S [] [] (Committing [?q])" "[?q]" errs w1] assms by simp
  ultimately show ?thesis by (meson sys_runs_Cons sys_runs.none)
qed



text \<open>
  C7. Under any schedule of I/O faults, from \<^verbatim>\<open>Open\<close> on: the index, the reference
  counts and the segment list keep their invariant, answers come in channel
  order, and what is outstanding is what the successful answers, and only they,
  did to what \<^verbatim>\<open>Open\<close> rebuilt.
\<close>

theorem faults_keep_the_contract:
  assumes "map_ok (files d0)" "wal_Open ms mb d0 = (Inr w, d1)" "sys_runs (opened w) ls s"
  shows "wal_inv (sy_wal s)
     \<and> map fst (sy_answers s) = take (length (sy_answers s)) (sent ls)
     \<and> outstanding (w_index (sy_wal s)) = fold spec_op
         (map (\<lambda>(q, err). req_apply q) (filter (\<lambda>(q, err). err = None) (sy_answers s))) (outstanding (w_index w))"
proof -
  have inv: "wal_inv w" using assms(1,2) by (rule wal_Open_inv)
  have "pipe s = pipe (opened w) @ sent ls"
    using runs_pipe [OF assms(3)] inv by (simp add: opened_def)
  then have "map fst (sy_answers s) = take (length (sy_answers s)) (sent ls)"
    by (simp add: pipe_def opened_def batch_of_def) (metis append_eq_conv_conj length_map)
  then show ?thesis
    using runs_inv [OF assms(3)] runs_outstanding [OF assms(3) inv] inv
    by (simp add: succeeded_def opened_def)
qed

theorem faults_keep_the_contract_witness:
  "\<exists>s. sys_runs (opened demo_wal) [AppendCall demo_event [''p''], Sent demo_request, Taken, Drained, Committed] s
     \<and> wal_inv (sy_wal s) \<and> map fst (sy_answers s) = [demo_request]"
proof -
  obtain errs w1 where cb: "commitBatch [demo_request] demo_wal = (errs, w1)" by fastforce
  note run = demo_run [OF cb]
  have "length errs = 1" using commitBatch_inv(2) [OF demo_inv, of "[demo_request]"] cb by simp
  then show ?thesis
    using run faults_keep_the_contract [OF _ demo_open run] by (auto simp: empty_disk_def map_ok_def)
qed

text \<open>
  C26. When the writer goroutine returns, every request sent so far has been
  answered; a request sent after that (the race the code's comment names) is never
  answered, whatever happens next.
\<close>

theorem writer_answers_before_it_returns:
  assumes "wal_inv w" "sys_runs (opened w) ls s" "sys_step s WriterReturns t" "sys_runs t ms u"
  shows "map fst (sy_answers t) = sent ls \<and> sy_answers u = sy_answers t"
proof -
  have p: "pipe s = sent ls"
    using runs_pipe [OF assms(2)] assms(1) by (simp add: opened_def pipe_def batch_of_def)
  have t: "sy_writer s = Waiting" "sy_chan s = []" "t = s\<lparr>sy_writer := Stopped\<rparr>"
    using assms(3) by (auto elim: sys_stepE simp: call_request_def)
  then have "stopped t" by (simp add: stopped_def)
  from runs_stopped [OF assms(4) this] p t show ?thesis by (simp add: pipe_def batch_of_def)
qed

lemma demo_close:
  "sys_runs (opened demo_wal) [CloseCalled] (opened (demo_wal\<lparr>w_closed := True\<rparr>))"
  "sys_step (opened (demo_wal\<lparr>w_closed := True\<rparr>)) WriterReturns ((opened (demo_wal\<lparr>w_closed := True\<rparr>))\<lparr>sy_writer := Stopped\<rparr>)"
proof -
  have "sys_step (opened demo_wal) CloseCalled (opened (demo_wal\<lparr>w_closed := True\<rparr>))"
    using sys_step.closing [of "opened demo_wal"] by (simp add: opened_def demo_wal_def)
  then show "sys_runs (opened demo_wal) [CloseCalled] (opened (demo_wal\<lparr>w_closed := True\<rparr>))"
    using sys_runs_Cons sys_runs.none by meson
  show "sys_step (opened (demo_wal\<lparr>w_closed := True\<rparr>)) WriterReturns ((opened (demo_wal\<lparr>w_closed := True\<rparr>))\<lparr>sy_writer := Stopped\<rparr>)"
    by (rule sys_step.stop) (simp_all add: opened_def)
qed

theorem writer_answers_before_it_returns_witness:
  "map fst (sy_answers ((opened (demo_wal\<lparr>w_closed := True\<rparr>))\<lparr>sy_writer := Stopped\<rparr>)) = sent [CloseCalled]"
  using writer_answers_before_it_returns [OF demo_inv demo_close sys_runs.none] by blast

text \<open>
  C27. \<^verbatim>\<open>Close\<close> finishes: once it was called, and until it has released the active
  segment, the writer or \<^verbatim>\<open>Close\<close> itself can always take a step, and every such
  step leaves less work, so only further sends can prolong it.
\<close>

theorem close_terminates:
  assumes "w_closed (sy_wal s)" "sy_writer s \<noteq> Released"
  shows "(\<exists>l t. sys_step s l t \<and> writer_label l)
     \<and> (\<forall>l t. sys_step s l t \<and> writer_label l \<longrightarrow> writer_work t < writer_work s)"
  using writer_progress [OF assms] writer_step_less by blast

theorem close_terminates_witness:
  "\<exists>l t. sys_step (opened (demo_wal\<lparr>w_closed := True\<rparr>)) l t \<and> writer_label l"
  using close_terminates [of "opened (demo_wal\<lparr>w_closed := True\<rparr>)"] by (simp add: opened_def)

section \<open>Size\<close>



text \<open>A log with room for exactly one more record.\<close>

definition capped_wal :: wal where
  "capped_wal = demo_wal\<lparr>maxBytes := int (length (req_frame demo_request))\<rparr>"

lemma capped_request: "append_request demo_event [''p''] capped_wal = Inr demo_request"
proof -
  have "append_request demo_event [''p''] demo_wal = Inr demo_request" by (rule demo_append_request)
  then have q: "demo_request = \<lparr>req_frame = encodeFrame recTypeEvent
      (to_bytes (json_text (eventPayload_json \<lparr>pl_Event = demo_event, pl_Providers = [''p'']\<rparr>))),
      req_apply = ApplyEvent demo_event [''p'']\<rparr>"
    by (simp add: append_request_def marshal_eventPayload_def demo_marshal Let_def demo_wal_def)
  have "req_frame demo_request = encodeFrame recTypeEvent
      (to_bytes (json_text (eventPayload_json \<lparr>pl_Event = demo_event, pl_Providers = [''p'']\<rparr>)))"
    by (subst q) simp
  with q show ?thesis
    by (simp add: append_request_def marshal_eventPayload_def demo_marshal Let_def capped_wal_def demo_wal_def TotalBytes_def)
qed

lemma capped_commit:
  "\<exists>w'. commitBatch [demo_request, demo_request] capped_wal = ([None, None], w') \<and> TotalBytes w' = 2 * maxBytes w'"
  using demo_request_short(2) demo_request_good(2)
  by (simp add: commitBatch_def capped_wal_def demo_wal_def needs_rotation_def active_segment_def write_slot_def
      segment_append_def os_write_none segment_sync_def os_sync_none set_active_def file_bytes_def set_file_def
      apply_op_def gcSegments_def slot_result_def TotalBytes_def index_event_def Let_def)

text \<open>
  Concurrent appends overrun the cap: an \<^verbatim>\<open>Append\<close> compares the size of the log with the cap before it is queued, so
  two calls that are both let through while there is room for one are both written and answered with success,
  and the log is twice as large as its cap.
\<close>

theorem concurrent_appends_exceed_cap:
  "\<exists>s. sys_runs (opened capped_wal) [AppendCall demo_event [''p''], AppendCall demo_event [''p''],
        Sent demo_request, Sent demo_request, Taken, Taken, Drained, Committed] s
     \<and> sy_answers s = [(demo_request, None), (demo_request, None)]
     \<and> 0 < maxBytes (sy_wal s) \<and> TotalBytes (sy_wal s) = 2 * maxBytes (sy_wal s)"
proof -
  let ?q = demo_request and ?l = "AppendCall demo_event [''p'']"
  let ?S = "\<lambda>rd c wr. \<lparr>sy_wal = capped_wal, sy_ready = rd, sy_chan = c, sy_writer = wr, sy_answers = []\<rparr>"
  obtain w' where w': "commitBatch [?q, ?q] capped_wal = ([None, None], w')" "TotalBytes w' = 2 * maxBytes w'"
    using capped_commit by blast
  let ?T = "\<lparr>sy_wal = w', sy_ready = [], sy_chan = [], sy_writer = Waiting, sy_answers = [(?q, None), (?q, None)]\<rparr>"
  have call: "sys_step (?S rd [] Waiting) ?l (?S (?q # rd) [] Waiting)" for rd
    using sys_step.checked [of ?l "?S rd [] Waiting" ?q] capped_request by (simp add: call_request_def)
  have send: "sys_step (?S (?q # rd) c Waiting) (Sent ?q) (?S rd (c @ [?q]) Waiting)" if "length c < 2" for rd c
    using sys_step.send [of "?S (?q # rd) c Waiting" "[]" ?q rd] that by (simp add: writeCh_capacity_def)
  have "sys_step (?S [] [?q, ?q] Waiting) Taken (?S [] [?q] (Draining [?q]))"
    using sys_step.wake [of "?S [] [?q, ?q] Waiting" ?q "[?q]"] by simp
  moreover have "sys_step (?S [] [?q] (Draining [?q])) Taken (?S [] [] (Draining [?q, ?q]))"
    using sys_step.drain [of "?S [] [?q] (Draining [?q])" "[?q]" ?q "[]"] by simp
  moreover have "sys_step (?S [] [] (Draining [?q, ?q])) Drained (?S [] [] (Committing [?q, ?q]))"
    using sys_step.drained [of "?S [] [] (Draining [?q, ?q])" "[?q, ?q]"] by simp
  moreover have "sys_step (?S [] [] (Committing [?q, ?q])) Committed ?T"
    using sys_step.commit [of "?S [] [] (Committing [?q, ?q])" "[?q, ?q]" "[None, None]" w'] w'(1) by simp
  ultimately have "sys_runs (?S [] [] Waiting) [?l, ?l, Sent ?q, Sent ?q, Taken, Taken, Drained, Committed] ?T"
    using call [of "[]"] call [of "[?q]"] send [of "[]" "[?q]"] send [of "[?q]" "[]"]
    by (simp add: sys_runs_Cons sys_runs.none)
  moreover have "maxBytes w' = int (length (req_frame ?q))"
    using commitBatch_settings [of "[?q, ?q]" capped_wal] w'(1) by (simp add: settings_def capped_wal_def)
  ultimately show ?thesis
    using w'(2) req_good_record(1) [OF demo_request_good(1)] by (intro exI [of _ ?T]) (simp add: opened_def)
qed

text \<open>
  C30. A restart forgets the size of the log: after \<^verbatim>\<open>Open\<close>, \<^verbatim>\<open>TotalBytes\<close> is the size of the last segment alone,
  under any I/O faults, so it is what the log takes on disk only if every earlier segment is empty. The cap that
  appends are checked against then no longer bounds the log.
\<close>

theorem restart_forgets_size:
  assumes "wal_Open ms mb d0 = (Inr w, d)"
  shows "TotalBytes w = int (length (file_bytes d (last (seqs w))))
     \<and> (TotalBytes w = (\<Sum>n\<leftarrow>seqs w. int (length (file_bytes d n)))
         \<longleftrightarrow> (\<forall>n \<in> set (butlast (seqs w)). file_bytes d n = []))"
  using restart_size [OF assms] by blast

text \<open>One owed event in the first of two segments.\<close>

definition two_segments :: disk where
  "two_segments = \<lparr>files = [(0, \<lparr>contents = req_frame demo_request, durable = length (req_frame demo_request)\<rparr>),
     (1, \<lparr>contents = [], durable = 0\<rparr>)], faults = []\<rparr>"

lemma two_segments_open:
  obtains w where "wal_Open 1000 1 two_segments = (Inr w, two_segments)" "seqs w = [0, 1]"
proof -
  let ?r = "req_record demo_request"
  have r: "req_frame demo_request = frames [?r]" "good ?r"
    using req_good_record [OF demo_request_good(1)] by simp_all
  then have dec: "decodeRecords (req_frame demo_request) = Returns [?r]"
    using decode_frames [of "[?r]"] by (simp add: good_def)
  have idx: "index_rec (0, ?r) [] = [(ID demo_event, \<lparr>es_event = demo_event, es_pending = [''p''], es_segSeq = 0\<rparr>)]"
    by (simp add: index_rec_request [OF demo_request_good(1)] demo_request_good(2) index_op_def index_event_def)
  show ?thesis
    using that
    by (simp add: wal_Open_def two_segments_def os_call_none segment_seqs_def os_read_none file_bytes_def dec Let_def
        replay_record_good [OF r(2)] idx replayed_segments_def open_active_def openSegmentForAppend_def next_seq_of_def)
qed

theorem restart_forgets_size_witness:
  "\<exists>w. wal_Open 1000 1 two_segments = (Inr w, two_segments) \<and> TotalBytes w = 0
     \<and> 1 < length (file_bytes two_segments 0)"
proof -
  obtain w where w: "wal_Open 1000 1 two_segments = (Inr w, two_segments)" "seqs w = [0, 1]"
    using two_segments_open by blast
  have "1 < length (req_frame demo_request)"
    using req_good_record(1) [OF demo_request_good(1)] by (metis length_frame_of add_lessD1 one_less_numeral_iff semiring_norm(77) trans_less_add1)
  then show ?thesis
    using restart_forgets_size [OF w(1)] w by (simp add: two_segments_def file_bytes_def)
qed

text \<open>
  Collection is complete from the front: after any commit the oldest segment is
  either the active one or the segment of an event still owed to a provider.
\<close>

theorem commit_collects_front:
  assumes "wal_inv w" "commitBatch batch w = (errs, w')"
  shows "length (segments w') = 1
     \<or> (\<exists>i en. map_of (w_index w') i = Some en \<and> es_segSeq en = seg_seq (hd (segments w')))"
proof (cases "length (segments w') = 1")
  case False
  have inv: "wal_inv w'" using commitBatch_inv(1) [OF assms(1), of batch] assms(2) by simp
  then have "segments w' \<noteq> []" by (rule wal_inv_nonempty)
  with False have len: "1 < length (segments w')" by (cases "segments w'") auto
  obtain w2 where w2: "w' = gcSegments w2"
    using assms(2) by (auto simp: commitBatch_def split: prod.splits)
  obtain ss d where gc: "gc_front (segments w2) (w_disk w2) = (ss, d)" by fastforce
  then have "seg_refCount (hd (segments w')) \<noteq> 0"
    using gc_front_head [OF gc] len by (simp add: w2 gcSegments_def)
  moreover have "hd (segments w') \<in> set (segments w')" using len by (cases "segments w'") auto
  ultimately have "refs (seg_seq (hd (segments w'))) (w_index w') \<noteq> 0"
    using inv by (auto simp: wal_inv_def counts_ok_def)
  moreover have "map_ok (w_index w')" using inv by (simp add: wal_inv_def)
  ultimately show ?thesis using refs_zero_iff by metis
qed simp

theorem commit_collects_front_witness:
  "let w' = snd (commitBatch [demo_request] demo_wal) in length (segments w') = 1
     \<or> (\<exists>i en. map_of (w_index w') i = Some en \<and> es_segSeq en = seg_seq (hd (segments w')))"
  using commit_collects_front [OF demo_inv, of "[demo_request]"]
  by (cases "commitBatch [demo_request] demo_wal") (simp add: Let_def)

section \<open>The record format\<close>

text \<open>
  A log cut at any byte decodes, without an error or a panic, to a prefix of the
  records written, and to every record that is whole.
\<close>

theorem cut_log_decodes:
  assumes "list_all fits rs"
  shows "\<exists>j \<le> length rs. decodeRecords (take k (frames rs)) = Returns (take j rs)
     \<and> (\<forall>i \<le> length rs. length (frames (take i rs)) \<le> k \<longrightarrow> i \<le> j)"
  using assms by (rule decode_take)

theorem cut_log_decodes_witness:
  "\<exists>j \<le> 1. decodeRecords (take 12 (frames [\<lparr>recType = recTypeAck, payload = [123, 125]\<rparr>]))
     = Returns (take j [\<lparr>recType = recTypeAck, payload = [123, 125]\<rparr>])"
  using cut_log_decodes [of "[\<lparr>recType = recTypeAck, payload = [123, 125]\<rparr>]" 12] by (auto simp: fits_def)

text \<open>
  Nothing is invented: every record read back is an intact frame at the front
  of the file, so what follows the first damaged frame is not read.
\<close>

theorem decoded_was_written:
  assumes "decodeRecords bs = Returns rs"
  shows "\<exists>rest. bs = frames rs @ rest \<and> list_all fits rs"
  using assms by (rule decode_sound)

theorem decoded_was_written_witness:
  "\<exists>rest. frames [\<lparr>recType = recTypeAck, payload = [123, 125]\<rparr>]
     = frames [\<lparr>recType = recTypeAck, payload = [123, 125]\<rparr>] @ rest"
  using decoded_was_written [OF decode_frames [of "[\<lparr>recType = recTypeAck, payload = [123, 125]\<rparr>]"]]
  by (auto simp: fits_def)

text \<open>
  C40. A tail of zero bytes is not a torn tail: eight or more of them after intact
  records (a preallocated or zero-filled block) make the decoder read an empty
  body with a matching checksum and index into it, so \<^verbatim>\<open>Open\<close> panics.
\<close>

theorem zero_tail_panics:
  assumes "list_all fits rs" "8 \<le> n" "faults d = []" "files d = [(0, fl)]"
    and "contents fl = frames rs @ replicate n 0"
  shows "wal_Open ms mb d = (Inl OpenPanic, d)"
proof -
  have "decodeRecords (contents fl) = Panics"
    unfolding assms(5) using assms(1,2) by (rule decode_zero_tail)
  then show ?thesis
    using assms(3,4) by (simp add: wal_Open_def os_call_none segment_seqs_def os_read_none file_bytes_def)
qed

theorem zero_tail_panics_witness:
  "wal_Open 1000 0 \<lparr>files = [(0, \<lparr>contents = replicate 8 0, durable = 8\<rparr>)], faults = []\<rparr>
     = (Inl OpenPanic, \<lparr>files = [(0, \<lparr>contents = replicate 8 0, durable = 8\<rparr>)], faults = []\<rparr>)"
  by (rule zero_tail_panics [where fl = "\<lparr>contents = replicate 8 0, durable = 8\<rparr>" and rs = "[]" and n = 8])
    simp_all

text \<open>
  Payloads round-trip: the JSON of an event record or an ack record, when it
  can be marshalled, is read back as exactly the event (timestamp, properties and
  route included) and its providers, or the ack.
\<close>

theorem payload_roundtrip:
  "(marshal_eventPayload p = Some bs \<longrightarrow> unmarshal_eventPayload bs = Some p)
     \<and> (marshal_ackPayload a = Some cs \<longrightarrow> unmarshal_ackPayload cs = Some a)"
  using event_codec.unmarshal_marshal ack_codec.unmarshal_marshal by blast

theorem payload_roundtrip_witness:
  "\<exists>bs. marshal_eventPayload \<lparr>pl_Event = demo_event, pl_Providers = [''p'']\<rparr> = Some bs
     \<and> unmarshal_eventPayload bs = Some \<lparr>pl_Event = demo_event, pl_Providers = [''p'']\<rparr>"
proof -
  obtain bs where "marshal_eventPayload \<lparr>pl_Event = demo_event, pl_Providers = [''p'']\<rparr> = Some bs"
    by (simp add: marshal_eventPayload_def demo_marshal)
  with payload_roundtrip [of "\<lparr>pl_Event = demo_event, pl_Providers = [''p'']\<rparr>" bs] show ?thesis by blast
qed

text \<open>
  Segment names sort and scan back: the directory scan of a log's directory
  yields its sequence numbers in increasing order, whatever else is in it that is a
  directory or does not end in \<^verbatim>\<open>.wal\<close>.
\<close>

theorem directory_scan:
  assumes "\<forall>n \<in> fst ` set (files d). n < 2 ^ 64"
    and "\<forall>e \<in> set others. de_IsDir e \<or> \<not> suffix ''.wal'' (de_Name e)"
  shows "listSegmentSeqs (readDir others d) = segment_seqs d"
  using assms by (rule listSegmentSeqs_segments)

theorem directory_scan_witness:
  "listSegmentSeqs (readDir [\<lparr>de_Name = ''dlq'', de_IsDir = True\<rparr>]
     \<lparr>files = [(7, \<lparr>contents = [], durable = 0\<rparr>), (3, \<lparr>contents = [], durable = 0\<rparr>)], faults = []\<rparr>) = [3, 7]"
  using directory_scan [of "\<lparr>files = [(7, \<lparr>contents = [], durable = 0\<rparr>), (3, \<lparr>contents = [], durable = 0\<rparr>)], faults = []\<rparr>"
    "[\<lparr>de_Name = ''dlq'', de_IsDir = True\<rparr>]"]
  by (simp add: segment_seqs_def)

end
