(* ===== verification/Batcher.thy ===== *)
theory Batcher
  imports Adapters
begin

text \<open>
  internal/batcher/batcher.go, one flush: encode, send, and resolve every event
  of the batch. The Acker and the dead-letter sink are the fields of a record
  over a backend state; the clock and the random source are read once per event
  and are arguments. The queue loop around it is in \<open>Batcher_Run\<close>.
\<close>

section \<open>Retry policy\<close>

abbreviation "second_ns \<equiv> (1000000000 :: duration)"

record RetryPolicy =
  InitialBackoff :: duration
  MaxBackoff :: duration
  MaxElapsed :: duration

definition withDefaults :: "RetryPolicy \<Rightarrow> RetryPolicy" where
  "withDefaults p =
     \<lparr>InitialBackoff = (if InitialBackoff p \<le> 0 then second_ns else InitialBackoff p),
      MaxBackoff = (if MaxBackoff p \<le> 0 then 2 * 60 * second_ns else MaxBackoff p),
      MaxElapsed = (if MaxElapsed p \<le> 0 then 30 * 60 * second_ns else MaxElapsed p)\<rparr>"

text \<open>\<^verbatim>\<open>time.Duration\<close> is an int64: doubling wraps around.\<close>

definition int64 :: "int \<Rightarrow> int" where
  "int64 x = signed_take_bit 63 x"

fun backoff_loop :: "nat \<Rightarrow> duration \<Rightarrow> duration \<Rightarrow> duration" where
  "backoff_loop 0 d mx = d"
| "backoff_loop (Suc n) d mx = (if d < mx then backoff_loop n (int64 (d * 2)) mx else d)"

text \<open>\<^verbatim>\<open>rand.Int63n\<close> panics when its bound is not positive.\<close>

definition Int63n :: "int \<Rightarrow> nat \<Rightarrow> int go" where
  "Int63n n draw = (if n \<le> 0 then Panics else Returns (int draw mod n))"

definition backoff :: "RetryPolicy \<Rightarrow> int \<Rightarrow> nat \<Rightarrow> duration go" where
  "backoff p0 attempt draw =
     (let p = withDefaults p0;
          d = backoff_loop (nat (attempt - 1)) (InitialBackoff p) (MaxBackoff p);
          d' = (if d > MaxBackoff p then MaxBackoff p else d)
      in Int63n (int64 (d' + 1)) draw)"

section \<open>The batcher and what it talks to\<close>

record queued =
  q_event :: Event
  q_attempt :: int
  q_firstQueue :: int

record 's backend =
  be_Ack :: "string \<Rightarrow> string \<Rightarrow> Disposition \<Rightarrow> 's \<Rightarrow> go_error option \<times> 's"
  be_Put :: "string \<Rightarrow> Event \<Rightarrow> string \<Rightarrow> bool \<Rightarrow> 's \<Rightarrow> go_error option \<times> 's"

record batcher =
  Provider :: string
  b_Adapter :: adapter
  b_Retry :: RetryPolicy
  has_Metrics :: bool
  has_Logger :: bool

datatype observation =
    FlushLatency string
  | RecordAck string Disposition
  | RecordSendError string Disposition
  | LogLine string

record 's env =
  env_backend :: 's
  env_obs :: "observation list"

definition observe :: "bool \<Rightarrow> observation \<Rightarrow> 's env \<Rightarrow> 's env" where
  "observe enabled ob env = (if enabled then env\<lparr>env_obs := env_obs env @ [ob]\<rparr> else env)"

section \<open>Resolving one event\<close>

definition batcher_ack ::
  "batcher \<Rightarrow> 's backend \<Rightarrow> queued \<Rightarrow> Disposition \<Rightarrow> 's env \<Rightarrow> 's env" where
  "batcher_ack b be q disp env =
     (case be_Ack be (ID (q_event q)) (Provider b) disp (env_backend env) of (err, s) \<Rightarrow>
      let env1 = env\<lparr>env_backend := s\<rparr>;
          env2 = (case err of None \<Rightarrow> env1
            | Some e \<Rightarrow> observe (has_Logger b) (LogLine (''batcher['' @ Provider b
                @ '']: failed to durably ack event '' @ ID (q_event q) @ '' (disposition=''
                @ Disposition_String disp @ ''): '' @ error_text e)) env1)
      in observe (has_Metrics b) (RecordAck (Provider b) disp) env2)"

text \<open>The two calls of \<^verbatim>\<open>deadLetter\<close>: the write to the queue, then the ack.\<close>

definition deadLetter_put ::
  "batcher \<Rightarrow> 's backend \<Rightarrow> queued \<Rightarrow> string \<Rightarrow> bool \<Rightarrow> 's env \<Rightarrow> 's env" where
  "deadLetter_put b be q reason permanent env =
     (case be_Put be (Provider b) (q_event q) reason permanent (env_backend env) of (err, s) \<Rightarrow>
      let env1 = env\<lparr>env_backend := s\<rparr> in
      (case err of None \<Rightarrow> env1
       | Some e \<Rightarrow> observe (has_Logger b) (LogLine (''batcher['' @ Provider b
           @ '']: failed to write event '' @ ID (q_event q) @ '' to DLQ (reason=''
           @ str_text reason @ ''): '' @ error_text e)) env1))"

definition batcher_deadLetter ::
  "batcher \<Rightarrow> 's backend \<Rightarrow> queued \<Rightarrow> string \<Rightarrow> bool \<Rightarrow> 's env \<Rightarrow> 's env" where
  "batcher_deadLetter b be q reason permanent env =
     batcher_ack b be q DeadLetter (deadLetter_put b be q reason permanent env)"

text \<open>\<^verbatim>\<open>scheduleRetry\<close>: what is handed to \<^verbatim>\<open>time.AfterFunc\<close>.\<close>

definition scheduleRetry :: "batcher \<Rightarrow> nat \<Rightarrow> queued \<Rightarrow> (queued \<times> duration) go" where
  "scheduleRetry b draw q =
     (let nxt = q\<lparr>q_attempt := q_attempt q + 1\<rparr> in
      case backoff (b_Retry b) (q_attempt nxt) draw of
        Panics \<Rightarrow> Panics
      | Returns d \<Rightarrow> Returns (nxt, d))"

text \<open>The clock reading and the random draw used for one event.\<close>

type_synonym tick = "int \<times> nat"

definition batcher_resolve ::
  "batcher \<Rightarrow> 's backend \<Rightarrow> tick \<Rightarrow> queued \<Rightarrow> Disposition \<Rightarrow> go_error option \<Rightarrow> 's env
    \<Rightarrow> (queued \<times> duration) option go \<times> 's env" where
  "batcher_resolve b be tk q disp cause env =
     (case disp of
        Ok \<Rightarrow> (Returns None, batcher_ack b be q Ok env)
      | DeadLetter \<Rightarrow>
          (Returns None, batcher_deadLetter b be q
             (case cause of None \<Rightarrow> ''dead-lettered by provider'' | Some e \<Rightarrow> error_text e) True env)
      | Retry \<Rightarrow>
          (if fst tk - q_firstQueue q \<ge> MaxElapsed (withDefaults (b_Retry b)) then
             (Returns None, batcher_deadLetter b be q
                (case cause of None \<Rightarrow> ''retry budget exhausted''
                 | Some e \<Rightarrow> ''retry budget exhausted: '' @ error_text e) False env)
           else
             (case scheduleRetry b (snd tk) q of
                Panics \<Rightarrow> (Panics, env)
              | Returns r \<Rightarrow> (Returns (Some r), env))))"

section \<open>Flushing a batch\<close>

text \<open>A panic in the loop leaves the rest of the batch alone.\<close>

fun resolve_all ::
  "batcher \<Rightarrow> 's backend \<Rightarrow> (queued \<Rightarrow> Disposition \<times> go_error option) \<Rightarrow> (nat \<Rightarrow> tick)
    \<Rightarrow> queued list \<Rightarrow> 's env \<Rightarrow> (queued \<times> duration) list go \<times> 's env" where
  "resolve_all b be verdict tk [] env = (Returns [], env)"
| "resolve_all b be verdict tk (q # qs) env =
     (case batcher_resolve b be (tk 0) q (fst (verdict q)) (snd (verdict q)) env of
        (Panics, env1) \<Rightarrow> (Panics, env1)
      | (Returns r, env1) \<Rightarrow>
          (case resolve_all b be verdict (\<lambda>n. tk (Suc n)) qs env1 of
             (Panics, env2) \<Rightarrow> (Panics, env2)
           | (Returns rs, env2) \<Rightarrow> (Returns (case r of None \<Rightarrow> rs | Some x \<Rightarrow> x # rs), env2)))"

definition byID :: "BatchResult \<Rightarrow> string \<Rightarrow> EventResult option" where
  "byID rs i = map_of (rev (map (\<lambda>r. (res_EventID r, r)) rs)) i"

definition result_verdict :: "BatchResult \<Rightarrow> queued \<Rightarrow> Disposition \<times> go_error option" where
  "result_verdict rs q =
     (case byID rs (ID (q_event q)) of
        None \<Rightarrow> (Ok, None)
      | Some r \<Rightarrow> (res_Disposition r, res_Err r))"

text \<open>\<^term>\<open>sent\<close> is what \<^verbatim>\<open>Send\<close> returned for the encoded body.\<close>

definition batcher_flush ::
  "batcher \<Rightarrow> 's backend \<Rightarrow> (go_error + BatchResult) \<Rightarrow> (nat \<Rightarrow> tick) \<Rightarrow> queued list \<Rightarrow> 's env
    \<Rightarrow> (queued \<times> duration) list go \<times> 's env" where
  "batcher_flush b be sent tk batch env =
     (case Encode (b_Adapter b) (map q_event batch) of
        Inl e \<Rightarrow>
          (Returns [], fold (\<lambda>q. batcher_deadLetter b be q (''encode error: '' @ error_text e) True)
             batch env)
      | Inr body \<Rightarrow>
          (let env1 = observe (has_Metrics b) (FlushLatency (Provider b)) env in
           case sent of
             Inl e \<Rightarrow>
               (let disp = Classify (b_Adapter b) e 0;
                    env2 = observe (has_Metrics b) (RecordSendError (Provider b) disp) env1
                in resolve_all b be (\<lambda>q. (disp, Some e)) tk batch env2)
           | Inr rs \<Rightarrow> resolve_all b be (result_verdict rs) tk batch env1))"

section \<open>Backoff\<close>

text \<open>Without wrap-around the loop doubles until it reaches the maximum.\<close>

lemma int64_id: "- (2 ^ 63) \<le> x \<Longrightarrow> x < 2 ^ 63 \<Longrightarrow> int64 x = x"
  unfolding int64_def by (rule signed_take_bit_int_eq_self)

lemma le_mult_pow: "0 < d \<Longrightarrow> d \<le> d * 2 ^ n" for d :: int
  by simp

lemma backoff_loop_min:
  "0 < d \<Longrightarrow> d < 2 ^ 62 \<Longrightarrow> mx \<le> 2 ^ 62 \<Longrightarrow>
     min (backoff_loop n d mx) mx = min (d * 2 ^ n) mx \<and> 0 < backoff_loop n d mx"
proof (induction n arbitrary: d)
  case (Suc n)
  show ?case
  proof (cases "d < mx")
    case False
    have "mx \<le> d * 2 ^ Suc n" using False le_mult_pow [OF Suc.prems(1), of "Suc n"] by linarith
    with False Suc.prems(1) show ?thesis by (simp add: min_absorb2)
  next
    case True
    have i: "int64 (d * 2) = d * 2" using Suc.prems by (intro int64_id) simp_all
    show ?thesis
    proof (cases "d * 2 < 2 ^ 62")
      case True
      with Suc.IH [of "d * 2"] Suc.prems i \<open>d < mx\<close> show ?thesis by (simp add: mult.assoc)
    next
      case False
      then have le: "mx \<le> d * 2" using Suc.prems(3) by simp
      have "d * 2 \<le> d * 2 * 2 ^ n" using Suc.prems(1) by (intro le_mult_pow) simp
      then have "mx \<le> d * 2 ^ Suc n" using le by (simp add: mult.assoc)
      moreover have "backoff_loop n (d * 2) mx = d * 2" using le by (cases n) simp_all
      ultimately show ?thesis using i \<open>d < mx\<close> le Suc.prems(1) by simp
    qed
  qed
qed simp

lemma withDefaults_pos:
  "0 < InitialBackoff (withDefaults p)" "0 < MaxBackoff (withDefaults p)"
  "0 < MaxElapsed (withDefaults p)"
  by (simp_all add: withDefaults_def)

lemma backoff_value:
  assumes "InitialBackoff (withDefaults p) < 2 ^ 62" "MaxBackoff (withDefaults p) \<le> 2 ^ 62"
  shows "backoff p attempt draw = Returns (int draw mod
    (min (InitialBackoff (withDefaults p) * 2 ^ nat (attempt - 1)) (MaxBackoff (withDefaults p)) + 1))"
proof -
  let ?p = "withDefaults p"
  let ?d = "backoff_loop (nat (attempt - 1)) (InitialBackoff ?p) (MaxBackoff ?p)"
  have m: "min ?d (MaxBackoff ?p) = min (InitialBackoff ?p * 2 ^ nat (attempt - 1)) (MaxBackoff ?p)"
    and pos: "0 < ?d"
    using backoff_loop_min [OF withDefaults_pos(1) assms] by blast+
  have "int64 (min ?d (MaxBackoff ?p) + 1) = min ?d (MaxBackoff ?p) + 1"
    using pos withDefaults_pos(2) [of p] assms(2) by (intro int64_id) (simp_all add: min_def)
  moreover have "(if ?d > MaxBackoff ?p then MaxBackoff ?p else ?d) = min ?d (MaxBackoff ?p)"
    by simp
  ultimately have "backoff p attempt draw = Int63n (min ?d (MaxBackoff ?p) + 1) draw"
    by (simp only: backoff_def Let_def)
  moreover have "\<not> min ?d (MaxBackoff ?p) + 1 \<le> 0"
    using pos withDefaults_pos(2) [of p] by (simp add: min_def)
  ultimately show ?thesis by (simp only: Int63n_def if_False m)
qed

section \<open>What a flush does to the backend\<close>

text \<open>The calls one event causes, and the retry it leaves behind.\<close>

datatype call =
    CallAck string Disposition
  | CallPut Event string bool

fun perform :: "batcher \<Rightarrow> 's backend \<Rightarrow> call \<Rightarrow> 's \<Rightarrow> 's" where
  "perform b be (CallAck i disp) s = snd (be_Ack be i (Provider b) disp s)"
| "perform b be (CallPut e reason permanent) s = snd (be_Put be (Provider b) e reason permanent s)"

datatype fate =
    Delivered
  | Parked string bool
  | Retried

fun fate_calls :: "queued \<Rightarrow> fate \<Rightarrow> call list" where
  "fate_calls q Delivered = [CallAck (ID (q_event q)) Ok]"
| "fate_calls q (Parked reason permanent) =
     [CallPut (q_event q) reason permanent, CallAck (ID (q_event q)) DeadLetter]"
| "fate_calls q Retried = []"

definition fate_of :: "batcher \<Rightarrow> int \<Rightarrow> queued \<Rightarrow> Disposition \<times> go_error option \<Rightarrow> fate" where
  "fate_of b now q v =
     (case fst v of
        Ok \<Rightarrow> Delivered
      | DeadLetter \<Rightarrow> Parked (case snd v of None \<Rightarrow> ''dead-lettered by provider'' | Some e \<Rightarrow> error_text e) True
      | Retry \<Rightarrow>
          (if now - q_firstQueue q \<ge> MaxElapsed (withDefaults (b_Retry b))
           then Parked (case snd v of None \<Rightarrow> ''retry budget exhausted''
             | Some e \<Rightarrow> ''retry budget exhausted: '' @ error_text e) False
           else Retried))"

text \<open>The specification of a flush: the fate of the event at each position.\<close>

definition flush_fate ::
  "batcher \<Rightarrow> (go_error + BatchResult) \<Rightarrow> (nat \<Rightarrow> tick) \<Rightarrow> queued list \<Rightarrow> nat \<Rightarrow> fate" where
  "flush_fate b sent tk batch k =
     (case Encode (b_Adapter b) (map q_event batch) of
        Inl e \<Rightarrow> Parked (''encode error: '' @ error_text e) True
      | Inr body \<Rightarrow> fate_of b (fst (tk k)) (batch ! k)
          (case sent of Inl e \<Rightarrow> (Classify (b_Adapter b) e 0, Some e)
           | Inr rs \<Rightarrow> result_verdict rs (batch ! k)))"

lemma env_backend_observe [simp]: "env_backend (observe m ob env) = env_backend env"
  by (simp add: observe_def)

lemma env_backend_ack [simp]:
  "env_backend (batcher_ack b be q disp env) =
     perform b be (CallAck (ID (q_event q)) disp) (env_backend env)"
  by (simp add: batcher_ack_def Let_def split: prod.split option.split)

lemma env_backend_put [simp]:
  "env_backend (deadLetter_put b be q reason permanent env) =
     perform b be (CallPut (q_event q) reason permanent) (env_backend env)"
  by (simp add: deadLetter_put_def Let_def split: prod.split option.split)

lemma env_backend_deadLetter [simp]:
  "env_backend (batcher_deadLetter b be q reason permanent env) =
     fold (perform b be) (fate_calls q (Parked reason permanent)) (env_backend env)"
  by (simp add: batcher_deadLetter_def)

lemma resolve_backend:
  "batcher_resolve b be tk q disp cause env = (r, env') \<Longrightarrow>
     env_backend env' = fold (perform b be) (fate_calls q (fate_of b (fst tk) q (disp, cause))) (env_backend env)"
  by (cases disp) (auto simp: batcher_resolve_def fate_of_def split: if_splits go.splits)

lemma resolve_retry:
  "batcher_resolve b be tk q disp cause env = (Returns r, env') \<Longrightarrow>
     (if fate_of b (fst tk) q (disp, cause) = Retried
      then (\<exists>d. r = Some (q\<lparr>q_attempt := q_attempt q + 1\<rparr>, d)
             \<and> backoff (b_Retry b) (q_attempt q + 1) (snd tk) = Returns d)
      else r = None)"
  by (cases disp)
    (auto simp: batcher_resolve_def fate_of_def scheduleRetry_def Let_def split: if_splits go.splits)

lemma resolve_all_backend:
  "resolve_all b be vd tk batch env = (Returns rs, env') \<Longrightarrow>
     env_backend env' = fold (perform b be)
       (concat (map (\<lambda>k. fate_calls (batch ! k) (fate_of b (fst (tk k)) (batch ! k) (vd (batch ! k))))
         [0..<length batch])) (env_backend env)
     \<and> map fst rs = map (\<lambda>k. (batch ! k)\<lparr>q_attempt := q_attempt (batch ! k) + 1\<rparr>)
         (filter (\<lambda>k. fate_of b (fst (tk k)) (batch ! k) (vd (batch ! k)) = Retried) [0..<length batch])"
proof (induction batch arbitrary: tk env rs)
  case (Cons q qs)
  let ?tk = "\<lambda>n. tk (Suc n)"
  have upt: "[0..<length (q # qs)] = 0 # map Suc [0..<length qs]"
    by (simp add: upt_conv_Cons map_Suc_upt del: upt_Suc)
  obtain r env1 rs' where r: "batcher_resolve b be (tk 0) q (fst (vd q)) (snd (vd q)) env = (Returns r, env1)"
    and rest: "resolve_all b be vd ?tk qs env1 = (Returns rs', env')"
    and rs: "rs = (case r of None \<Rightarrow> rs' | Some x \<Rightarrow> x # rs')"
    using Cons.prems by (auto split: prod.splits go.splits)
  note IH = Cons.IH [OF rest]
  show ?case
    unfolding upt using IH resolve_backend [OF r] resolve_retry [OF r] rs
    by (auto simp: filter_map o_def split: if_splits)
qed simp

lemma fold_deadLetter_backend:
  "env_backend (fold (\<lambda>q. batcher_deadLetter b be q reason permanent) qs env) =
     fold (perform b be) (concat (map (\<lambda>q. fate_calls q (Parked reason permanent)) qs)) (env_backend env)"
  by (induction qs arbitrary: env) simp_all

lemma map_nth_upt: "map (\<lambda>k. g (xs ! k)) [0..<length xs] = map g xs"
  by (rule nth_equalityI) simp_all

text \<open>A flush performs the calls of its events' fates, in batch order, and retries the others.\<close>

lemma flush_backend:
  assumes "batcher_flush b be sent tk batch env = (Returns rs, env')"
  shows "env_backend env' = fold (perform b be)
      (concat (map (\<lambda>k. fate_calls (batch ! k) (flush_fate b sent tk batch k)) [0..<length batch]))
      (env_backend env)"
    and "map fst rs = map (\<lambda>k. (batch ! k)\<lparr>q_attempt := q_attempt (batch ! k) + 1\<rparr>)
      (filter (\<lambda>k. flush_fate b sent tk batch k = Retried) [0..<length batch])"
proof -
  have "env_backend env' = fold (perform b be)
      (concat (map (\<lambda>k. fate_calls (batch ! k) (flush_fate b sent tk batch k)) [0..<length batch]))
      (env_backend env)
    \<and> map fst rs = map (\<lambda>k. (batch ! k)\<lparr>q_attempt := q_attempt (batch ! k) + 1\<rparr>)
      (filter (\<lambda>k. flush_fate b sent tk batch k = Retried) [0..<length batch])"
  proof (cases "Encode (b_Adapter b) (map q_event batch)")
    case (Inl e)
    then show ?thesis
      using assms map_nth_upt [of "\<lambda>q. fate_calls q (Parked (''encode error: '' @ error_text e) True)" batch]
      by (auto simp: batcher_flush_def flush_fate_def fold_deadLetter_backend simp del: fate_calls.simps)
  next
    case (Inr body)
    then show ?thesis
    proof (cases sent)
      case (Inl e)
      with Inr assms have "resolve_all b be (\<lambda>q. (Classify (b_Adapter b) e 0, Some e)) tk batch
          (observe (has_Metrics b) (RecordSendError (Provider b) (Classify (b_Adapter b) e 0))
            (observe (has_Metrics b) (FlushLatency (Provider b)) env)) = (Returns rs, env')"
        by (simp add: batcher_flush_def Let_def)
      from resolve_all_backend [OF this] show ?thesis
        by (simp add: flush_fate_def Inr Inl)
    next
      case (Inr rs')
      with \<open>Encode _ _ = Inr body\<close> assms have "resolve_all b be (result_verdict rs') tk batch
            (observe (has_Metrics b) (FlushLatency (Provider b)) env) = (Returns rs, env')"
        by (simp add: batcher_flush_def Let_def)
      from resolve_all_backend [OF this] show ?thesis
        by (simp add: flush_fate_def Inr \<open>Encode _ _ = Inr body\<close>)
    qed
  qed
  then show "env_backend env' = fold (perform b be)
      (concat (map (\<lambda>k. fate_calls (batch ! k) (flush_fate b sent tk batch k)) [0..<length batch]))
      (env_backend env)"
    "map fst rs = map (\<lambda>k. (batch ! k)\<lparr>q_attempt := q_attempt (batch ! k) + 1\<rparr>)
      (filter (\<lambda>k. flush_fate b sent tk batch k = Retried) [0..<length batch])"
    by blast+
qed

section \<open>The contract of the backend\<close>

text \<open>
  What \<^verbatim>\<open>Acker\<close> and \<^verbatim>\<open>DeadLetterSink\<close> promise: a successful ack removes exactly
  its event and provider from what is outstanding; a failed one, and any write to
  the dead-letter queue, removes nothing.
\<close>

locale delivery_backend =
  fixes be :: "'s backend" and undelivered :: "'s \<Rightarrow> (string \<times> string) set" and sane :: "'s \<Rightarrow> bool"
  assumes ack_ok: "sane s \<Longrightarrow> be_Ack be i p d s = (None, s') \<Longrightarrow>
      sane s' \<and> undelivered s' = undelivered s - {(i, p)}"
    and ack_failed: "sane s \<Longrightarrow> be_Ack be i p d s = (Some e, s') \<Longrightarrow>
      sane s' \<and> undelivered s' = undelivered s"
    and put_keeps: "sane s \<Longrightarrow> be_Put be p ev r m s = (err, s') \<Longrightarrow>
      sane s' \<and> undelivered s' = undelivered s"
begin

lemma perform_sane: "sane s \<Longrightarrow> sane (perform b be c s)"
  by (cases c; simp add: split: prod.splits)
    (metis ack_ok ack_failed not_Some_eq put_keeps prod.collapse)+

lemma perform_put: "sane s \<Longrightarrow> undelivered (perform b be (CallPut e r m) s) = undelivered s"
  by simp (metis put_keeps prod.collapse)

lemma perform_ack:
  "sane s \<Longrightarrow> undelivered (perform b be (CallAck i d) s) \<in>
     {undelivered s, undelivered s - {(i, Provider b)}}"
  by simp (metis ack_ok ack_failed not_Some_eq prod.collapse)

definition acked_ids :: "call list \<Rightarrow> string set" where
  "acked_ids cs = {i. \<exists>d. CallAck i d \<in> set cs}"

lemma acked_ids_Cons: "acked_ids (c # cs) = (case c of CallAck i d \<Rightarrow> {i} | _ \<Rightarrow> {}) \<union> acked_ids cs"
  by (cases c) (auto simp: acked_ids_def)

lemma perform_all:
  "sane s \<Longrightarrow> sane (fold (perform b be) cs s)
     \<and> undelivered (fold (perform b be) cs s) \<subseteq> undelivered s
     \<and> undelivered s - acked_ids cs \<times> {Provider b} \<subseteq> undelivered (fold (perform b be) cs s)"
proof (induction cs arbitrary: s)
  case (Cons c cs)
  have s': "sane (perform b be c s)" using Cons.prems by (rule perform_sane)
  have "undelivered (perform b be c s) \<subseteq> undelivered s
      \<and> undelivered s - (case c of CallAck i d \<Rightarrow> {i} | _ \<Rightarrow> {}) \<times> {Provider b}
          \<subseteq> undelivered (perform b be c s)"
    using perform_ack [OF Cons.prems] perform_put [OF Cons.prems]
    by (cases c) (auto simp del: perform.simps)
  with Cons.IH [OF s'] s' show ?case
    by (auto simp: acked_ids_Cons simp del: perform.simps)
qed simp

end

end
