(* ===== verification/GoDuration.thy ===== *)
theory GoDuration
  imports Adapter
begin

text \<open>
  \<^verbatim>\<open>time.ParseDuration\<close>, as internal/pipeline/config.go uses it for the durations of the
  configuration. Its sums are uint64 and wrap around; the fraction of a unit goes through float64.
\<close>

section \<open>float64\<close>

text \<open>
  A float64 that is not negative, as a numerator and a denominator. \<open>f64_round\<close> rounds a quotient to 53
  significant bits, to nearest and ties to even. The values here lie between \<^verbatim>\<open>1e-19\<close> and
  \<^verbatim>\<open>1e32\<close>, far from the smallest and the largest float64, so the exponent is not bounded.
\<close>

type_synonym f64 = "nat \<times> nat"

fun bits :: "nat \<Rightarrow> nat" where
  "bits n = (if n = 0 then 0 else Suc (bits (n div 2)))"

declare bits.simps [simp del]

definition round_even :: "nat \<Rightarrow> nat \<Rightarrow> nat" where
  "round_even a b =
     (let q = a div b; r = a mod b in if b < 2 * r \<or> 2 * r = b \<and> odd q then q + 1 else q)"

text \<open>The quotient over a power of two.\<close>

definition scaled :: "nat \<times> nat \<Rightarrow> int \<Rightarrow> nat \<times> nat" where
  "scaled ab e = (case ab of (a, b) \<Rightarrow> if 0 \<le> e then (a, b * 2 ^ nat e) else (a * 2 ^ nat (- e), b))"

definition f64_exponent :: "nat \<times> nat \<Rightarrow> int" where
  "f64_exponent ab =
     (let k = int (bits (fst ab)) - int (bits (snd ab)) - 53
      in case scaled ab k of (x, y) \<Rightarrow> if 2 ^ 53 * y \<le> x then k + 1 else k)"

definition f64_round :: "nat \<times> nat \<Rightarrow> f64" where
  "f64_round ab =
     (let e = f64_exponent ab; m = (case scaled ab e of (x, y) \<Rightarrow> round_even x y)
      in if 0 \<le> e then (m * 2 ^ nat e, 1) else (m, 2 ^ nat (- e)))"

definition f64_of_nat :: "nat \<Rightarrow> f64" where
  "f64_of_nat n = f64_round (n, 1)"

definition f64_mult :: "f64 \<Rightarrow> f64 \<Rightarrow> f64" where
  "f64_mult x y = f64_round (fst x * fst y, snd x * snd y)"

definition f64_div :: "f64 \<Rightarrow> f64 \<Rightarrow> f64" where
  "f64_div x y = f64_round (fst x * snd y, snd x * fst y)"

definition f64_trunc :: "f64 \<Rightarrow> nat" where
  "f64_trunc x = fst x div snd x"

section \<open>ParseDuration\<close>

definition unitMap :: "(string, nat) gomap" where
  "unitMap = [(''ns'', 1), (''us'', 10 ^ 3), ([CHR 0xC2, CHR 0xB5, CHR ''s''], 10 ^ 3),
     ([CHR 0xCE, CHR 0xBC, CHR ''s''], 10 ^ 3), (''ms'', 10 ^ 6), (''s'', 10 ^ 9), (''m'', 60 * 10 ^ 9),
     (''h'', 3600 * 10 ^ 9)]"

fun leadingInt :: "nat \<Rightarrow> string \<Rightarrow> (nat \<times> string) option" where
  "leadingInt x [] = Some (x, [])"
| "leadingInt x (c # cs) =
     (if \<not> is_digit c then Some (x, c # cs)
      else if 2 ^ 63 div 10 < x then None
      else let y = x * 10 + (of_char c - 48) in if 2 ^ 63 < y then None else leadingInt y cs)"

text \<open>
  The digits after the point and their scale, a power of ten; digits that would overflow are skipped. The code
  keeps the scale in a float64, which is exact for the powers of ten it reaches.
\<close>

fun leadingFraction :: "nat \<Rightarrow> nat \<Rightarrow> bool \<Rightarrow> string \<Rightarrow> nat \<times> nat \<times> string" where
  "leadingFraction x scale overflow [] = (x, scale, [])"
| "leadingFraction x scale overflow (c # cs) =
     (if \<not> is_digit c then (x, scale, c # cs)
      else if overflow \<or> (2 ^ 63 - 1) div 10 < x then leadingFraction x scale True cs
      else let y = x * 10 + (of_char c - 48) in
        if 2 ^ 63 < y then leadingFraction x scale True cs else leadingFraction y (scale * 10) False cs)"

definition fraction_ns :: "nat \<Rightarrow> nat \<Rightarrow> nat \<Rightarrow> nat" where
  "fraction_ns f unit scale = f64_trunc (f64_mult (f64_of_nat f) (f64_div (f64_of_nat unit) (f64_of_nat scale)))"

definition unit_char :: "char \<Rightarrow> bool" where
  "unit_char c \<longleftrightarrow> c \<noteq> CHR ''.'' \<and> \<not> is_digit c"

definition invalid_duration :: "string \<Rightarrow> string" where
  "invalid_duration orig = ''time: invalid duration '' @ str_text orig"

text \<open>One number with its unit; its digits after a point, if it has any.\<close>

definition part_fraction :: "string \<Rightarrow> nat \<times> nat \<times> string" where
  "part_fraction s = (if s \<noteq> [] \<and> hd s = CHR ''.'' then leadingFraction 0 1 False (tl s) else (0, 1, s))"

definition parse_part :: "string \<Rightarrow> string \<Rightarrow> string + nat \<times> string" where
  "parse_part orig s =
     (if \<not> (hd s = CHR ''.'' \<or> is_digit (hd s)) then Inl (invalid_duration orig)
      else case leadingInt 0 s of
        None \<Rightarrow> Inl (invalid_duration orig)
      | Some (v, s1) \<Rightarrow>
          (case part_fraction s1 of (f, scale, s2) \<Rightarrow>
           let pre = (length s1 \<noteq> length s); post = (s1 \<noteq> [] \<and> length s2 \<noteq> length (tl s1) \<and> hd s1 = CHR ''.'');
               u = takeWhile unit_char s2; rest = dropWhile unit_char s2
           in if \<not> pre \<and> \<not> post then Inl (invalid_duration orig)
              else if u = [] then Inl (''time: missing unit in duration '' @ str_text orig)
              else case map_of unitMap u of
                None \<Rightarrow> Inl (''time: unknown unit '' @ str_text u @ '' in duration '' @ str_text orig)
              | Some unit \<Rightarrow>
                  (if 2 ^ 63 div unit < v then Inl (invalid_duration orig)
                   else let w = v * unit + (if 0 < f then fraction_ns f unit scale else 0) in
                     if 2 ^ 63 < w then Inl (invalid_duration orig) else Inr (w, rest))))"

lemma leadingInt_length: "leadingInt x s = Some (y, r) \<Longrightarrow> length r \<le> length s"
  by (induction x s rule: leadingInt.induct) (auto simp: Let_def split: if_splits)

lemma leadingFraction_length: "leadingFraction x sc ov s = (y, sc', r) \<Longrightarrow> length r \<le> length s"
proof (induction s arbitrary: x sc ov)
  case (Cons c cs)
  then show ?case by (auto simp: Let_def le_SucI split: if_splits)
qed simp

lemma part_fraction_length: "part_fraction s = (f, sc, r) \<Longrightarrow> length r \<le> length s"
  using leadingFraction_length [of 0 1 False "tl s" f sc r] by (auto simp: part_fraction_def split: if_splits)

lemma parse_part_shorter: "parse_part orig s = Inr (w, r) \<Longrightarrow> length r < length s"
proof -
  assume p: "parse_part orig s = Inr (w, r)"
  obtain v s1 where l: "leadingInt 0 s = Some (v, s1)"
    using p by (auto simp: parse_part_def split: if_splits option.splits)
  obtain f sc s2 where f: "part_fraction s1 = (f, sc, s2)" by (cases "part_fraction s1")
  have "r = dropWhile unit_char s2" "takeWhile unit_char s2 \<noteq> []"
    using p l f by (auto simp: parse_part_def Let_def split: if_splits option.splits)
  then have "length r < length s2"
    by (metis length_append length_greater_0_conv less_add_same_cancel2 takeWhile_dropWhile_id)
  then show ?thesis using leadingInt_length [OF l] part_fraction_length [OF f] by simp
qed

function parse_parts :: "string \<Rightarrow> nat \<Rightarrow> string \<Rightarrow> string + nat" where
  "parse_parts orig d s =
     (if s = [] then Inr d
      else case parse_part orig s of
        Inl e \<Rightarrow> Inl e
      | Inr (w, rest) \<Rightarrow>
          (let d' = (d + w) mod 2 ^ 64 in
           if 2 ^ 63 < d' then Inl (invalid_duration orig) else parse_parts orig d' rest))"
  by pat_completeness auto
termination
  by (relation "measure (\<lambda>(orig, d, s). length s)") (auto dest: parse_part_shorter)

declare parse_parts.simps [simp del]

definition duration_sign :: "string \<Rightarrow> bool \<times> string" where
  "duration_sign s =
     (if s \<noteq> [] \<and> (hd s = CHR ''-'' \<or> hd s = CHR ''+'') then (hd s = CHR ''-'', tl s) else (False, s))"

definition ParseDuration :: "string \<Rightarrow> string + duration" where
  "ParseDuration s =
     (case duration_sign s of (neg, t) \<Rightarrow>
      if t = ''0'' then Inr 0
      else if t = [] then Inl (invalid_duration s)
      else case parse_parts s 0 t of
        Inl e \<Rightarrow> Inl e
      | Inr d \<Rightarrow>
          (if neg then Inr (- int d)
           else if 2 ^ 63 - 1 < d then Inl (invalid_duration s) else Inr (int d)))"

section \<open>The result is an int64\<close>

lemma parse_parts_range: "parse_parts orig d s = Inr x \<Longrightarrow> d \<le> 2 ^ 63 \<Longrightarrow> x \<le> 2 ^ 63"
proof (induction orig d s rule: parse_parts.induct)
  case (1 orig d s)
  show ?case
  proof (cases "s = []")
    case False
    with "1.prems"(1) obtain w r where p: "parse_part orig s = Inr (w, r)" "\<not> 2 ^ 63 < (d + w) mod 2 ^ 64"
      "parse_parts orig ((d + w) mod 2 ^ 64) r = Inr x"
      by (subst (asm) parse_parts.simps) (auto simp: Let_def split: sum.splits if_splits)
    have "(d + w) mod 2 ^ 64 \<le> 2 ^ 63" using p(2) by (simp only: not_less)
    from "1.IH" [OF False p(1) refl refl p(2,3) this] show ?thesis .
  qed (use "1.prems" in \<open>simp add: parse_parts.simps\<close>)
qed

lemma ParseDuration_range:
  assumes "ParseDuration s = Inr d"
  shows "- (2 ^ 63) \<le> d \<and> d < 2 ^ 63"
proof -
  obtain neg t where sg: "duration_sign s = (neg, t)" by fastforce
  consider "d = 0" | x where "parse_parts s 0 t = Inr x" "d = (if neg then - int x else int x)" "neg \<or> x \<le> 2 ^ 63 - 1"
    using assms sg by (auto simp: ParseDuration_def not_less split: if_splits sum.splits)
  then show ?thesis
  proof cases
    case (2 x)
    have "x \<le> 2 ^ 63" using parse_parts_range [OF 2(1)] by simp
    then have "int x \<le> 2 ^ 63" by (metis of_nat_le_iff of_nat_numeral of_nat_power)
    moreover have "neg \<or> int x < 2 ^ 63" using 2(3) by auto
    ultimately show ?thesis using 2(2) by (auto split: if_splits)
  qed simp
qed

section \<open>Exact float64\<close>

lemma bits_bound: "n < 2 ^ bits n \<and> (0 < n \<longrightarrow> 2 ^ bits n \<le> 2 * n)"
proof (induction n rule: bits.induct)
  case (1 n)
  show ?case
  proof (cases "n = 0")
    case False
    then have "bits n = Suc (bits (n div 2))" by (simp add: bits.simps [of n])
    moreover have "n = 1 \<or> 0 < n div 2" using False by auto
    ultimately show ?thesis using 1 False by (auto simp: bits.simps [of 0])
  qed (simp add: bits.simps)
qed

lemma bits_le: "n < 2 ^ p \<Longrightarrow> bits n \<le> p"
proof (cases "n = 0")
  case False
  assume "n < 2 ^ p"
  then have "2 * n < 2 ^ Suc p" by simp
  then have "(2::nat) ^ bits n < 2 ^ Suc p" using bits_bound [of n] False by linarith
  then have "bits n < Suc p" by (rule power_less_imp_less_exp [rotated]) simp
  then show ?thesis by simp
qed (simp add: bits.simps)

lemma round_even_exact: "0 < b \<Longrightarrow> round_even (n * b) b = n"
  by (simp add: round_even_def Let_def)

text \<open>An integer below two to the 53 is a float64.\<close>

lemma f64_exact:
  assumes b: "0 < b" and n: "n < 2 ^ 53"
  shows "\<exists>i. f64_round (n * b, b) = (n * 2 ^ i, 2 ^ i)"
proof -
  let ?k = "int (bits (n * b)) - int (bits b) - 53" and ?e = "f64_exponent (n * b, b)"
  have "n * b < 2 ^ 53 * 2 ^ bits b"
    using mult_strict_mono [OF n, of b "2 ^ bits b"] bits_bound [of b] by simp
  then have "bits (n * b) \<le> 53 + bits b" by (intro bits_le) (simp add: power_add)
  then have k: "?k \<le> 0" by simp
  have e: "?e \<le> 0"
  proof (cases "?k = 0")
    case True
    moreover have "\<not> 2 ^ 53 * b \<le> n * b" using n b by (simp only: not_le mult_less_mono1)
    ultimately show ?thesis by (simp add: f64_exponent_def scaled_def)
  qed (use k in \<open>auto simp: f64_exponent_def Let_def split: prod.split\<close>)
  then have "scaled (n * b, b) ?e = (n * 2 ^ nat (- ?e) * b, b)" by (auto simp: scaled_def)
  then have "f64_round (n * b, b) =
      (if 0 \<le> ?e then (n * 2 ^ nat (- ?e) * 2 ^ nat ?e, 1) else (n * 2 ^ nat (- ?e), 2 ^ nat (- ?e)))"
    using round_even_exact [OF b, of "n * 2 ^ nat (- ?e)"] by (simp only: f64_round_def Let_def prod.case)
  then show ?thesis using e by (cases "?e = 0") (auto intro: exI [of _ 0])
qed

lemma fraction_exact:
  assumes u: "unit = q * scale" "0 < unit" and f: "f < scale" and n: "unit < 2 ^ 53"
  shows "fraction_ns f unit scale = f * q"
proof -
  have sc: "0 < scale" "0 < q" using u by auto
  then have small: "scale < 2 ^ 53" "f < 2 ^ 53" "q < 2 ^ 53"
    using f n u le_less_trans [of scale "q * scale" "2 ^ 53"] le_less_trans [of q "q * scale" "2 ^ 53"] by auto
  obtain i j l where i: "f64_of_nat unit = (unit * 2 ^ i, 2 ^ i)"
    and j: "f64_of_nat scale = (scale * 2 ^ j, 2 ^ j)" and l: "f64_of_nat f = (f * 2 ^ l, 2 ^ l)"
    using f64_exact [of 1 unit] f64_exact [of 1 scale] f64_exact [of 1 f] n small by (auto simp: f64_of_nat_def)
  have "f64_div (f64_of_nat unit) (f64_of_nat scale) = f64_round (q * (scale * 2 ^ i * 2 ^ j), scale * 2 ^ i * 2 ^ j)"
    by (simp add: f64_div_def i j) (simp add: u(1) algebra_simps)
  then obtain m where m: "f64_div (f64_of_nat unit) (f64_of_nat scale) = (q * 2 ^ m, 2 ^ m)"
    using f64_exact [of "scale * 2 ^ i * 2 ^ j" q] small(3) sc by auto
  have "f * q \<le> unit" using f u(1) by (simp add: mult.commute mult_le_mono1)
  then have "f * q < 2 ^ 53" using n by (rule le_less_trans)
  moreover have "f64_mult (f64_of_nat f) (q * 2 ^ m, 2 ^ m) = f64_round (f * q * (2 ^ l * 2 ^ m), 2 ^ l * 2 ^ m)"
    by (simp add: f64_mult_def l algebra_simps)
  ultimately obtain h where "f64_mult (f64_of_nat f) (q * 2 ^ m, 2 ^ m) = (f * q * 2 ^ h, 2 ^ h)"
    using f64_exact [of "2 ^ l * 2 ^ m" "f * q"] by auto
  then show ?thesis by (simp add: fraction_ns_def m f64_trunc_def)
qed

section \<open>What the parser reads\<close>

lemma digits_val_Cons: "digits_val (c # cs) = (of_char c - 48) * 10 ^ length cs + digits_val cs"
  using digits_val_append [of "[c]" cs] digits_val_snoc [of "[]" c] by simp

lemma digits_val_less: "list_all is_digit ds \<Longrightarrow> digits_val ds < 10 ^ length ds"
proof (induction ds)
  case (Cons c cs)
  then have "(of_char c - 48 :: nat) \<le> 9" "digits_val cs < 10 ^ length cs" by (auto simp: is_digit_def)
  then have "(of_char c - 48) * 10 ^ length cs + digits_val cs < 9 * 10 ^ length cs + 10 ^ length cs"
    by (intro add_le_less_mono mult_le_mono1)
  then show ?case by (simp add: digits_val_Cons)
qed simp

text \<open>Text that is over, or goes on with something else than a digit.\<close>

definition ends_digits :: "string \<Rightarrow> bool" where
  "ends_digits r \<longleftrightarrow> r = [] \<or> \<not> is_digit (hd r)"

lemma accumulate_le:
  assumes "x * 10 ^ Suc k + (v * 10 ^ k + w) \<le> (b :: nat)"
  shows "x * 10 + v \<le> b" "(x * 10 + v) * 10 ^ k + w \<le> b"
proof -
  show *: "(x * 10 + v) * 10 ^ k + w \<le> b" using assms by (simp add: algebra_simps)
  have "x * 10 + v \<le> (x * 10 + v) * 10 ^ k" by simp
  with * show "x * 10 + v \<le> b" by linarith
qed

lemma digit_step:
  assumes "is_digit c" "x * 10 + (of_char c - 48) \<le> 2 ^ 63"
  shows "leadingInt x (c # cs) = leadingInt (x * 10 + (of_char c - 48)) cs"
    and "x * 10 + (of_char c - 48) \<le> 2 ^ 63 - 1 \<Longrightarrow>
      leadingFraction x scale False (c # cs) = leadingFraction (x * 10 + (of_char c - 48)) (scale * 10) False cs"
proof -
  have "x \<le> 2 ^ 63 div 10" using assms(2) by simp
  then show "leadingInt x (c # cs) = leadingInt (x * 10 + (of_char c - 48)) cs"
    using assms by (simp only: leadingInt.simps Let_def not_less [symmetric] if_False simp_thms)
  assume "x * 10 + (of_char c - 48) \<le> 2 ^ 63 - 1"
  then have "x \<le> (2 ^ 63 - 1) div 10" by simp
  then show "leadingFraction x scale False (c # cs) = leadingFraction (x * 10 + (of_char c - 48)) (scale * 10) False cs"
    using assms by (simp only: leadingFraction.simps Let_def not_less [symmetric] if_False simp_thms)
qed

lemma value_step: "(x * 10 + v) * 10 ^ k + w = x * 10 ^ Suc k + (v * 10 ^ k + w)" for x v k w :: nat
  by (simp add: algebra_simps)

lemma leadingInt_digits:
  "list_all is_digit ds \<Longrightarrow> ends_digits r \<Longrightarrow> x * 10 ^ length ds + digits_val ds \<le> 2 ^ 63 \<Longrightarrow>
     leadingInt x (ds @ r) = Some (x * 10 ^ length ds + digits_val ds, r)"
proof (induction ds arbitrary: x)
  case (Cons c ds)
  have "x * 10 ^ Suc (length ds) + ((of_char c - 48) * 10 ^ length ds + digits_val ds) \<le> 2 ^ 63"
    using Cons.prems(3) by (simp only: digits_val_Cons length_Cons)
  note le = accumulate_le [OF this]
  have "leadingInt x ((c # ds) @ r) = leadingInt (x * 10 + (of_char c - 48)) (ds @ r)"
    using digit_step(1) [OF _ le(1)] Cons.prems(1) by simp
  also have "\<dots> = Some (x * 10 ^ length (c # ds) + digits_val (c # ds), r)"
    using Cons.IH [OF _ Cons.prems(2) le(2)] Cons.prems(1)
    by (simp only: digits_val_Cons length_Cons value_step list.pred_inject)
  finally show ?case .
qed (cases r; simp add: ends_digits_def)

lemma leadingFraction_digits:
  "list_all is_digit ds \<Longrightarrow> ends_digits r \<Longrightarrow> x * 10 ^ length ds + digits_val ds \<le> 2 ^ 63 - 1 \<Longrightarrow>
     leadingFraction x scale False (ds @ r) = (x * 10 ^ length ds + digits_val ds, scale * 10 ^ length ds, r)"
proof (induction ds arbitrary: x scale)
  case (Cons c ds)
  have "x * 10 ^ Suc (length ds) + ((of_char c - 48) * 10 ^ length ds + digits_val ds) \<le> 2 ^ 63 - 1"
    using Cons.prems(3) by (simp only: digits_val_Cons length_Cons)
  note le = accumulate_le [OF this]
  have "leadingFraction x scale False ((c # ds) @ r) = leadingFraction (x * 10 + (of_char c - 48)) (scale * 10) False (ds @ r)"
    using digit_step(2) [OF _ le_trans [OF le(1)] le(1)] Cons.prems(1) by simp
  also have "\<dots> = (x * 10 ^ length (c # ds) + digits_val (c # ds), scale * 10 ^ length (c # ds), r)"
    using Cons.IH [OF _ Cons.prems(2) le(2)] Cons.prems(1)
    by (simp only: digits_val_Cons length_Cons value_step list.pred_inject power_Suc mult.assoc)
  finally show ?case .
qed (cases r; simp add: ends_digits_def)

text \<open>A number with decimals and a unit, as a text and in nanoseconds.\<close>

definition part_text :: "nat \<times> string \<times> string \<Rightarrow> string" where
  "part_text x = (case x of (n, ds, u) \<Rightarrow> show_nat n @ (if ds = [] then [] else CHR ''.'' # ds) @ u)"

definition unit_ns :: "string \<Rightarrow> nat" where
  "unit_ns u = (case map_of unitMap u of None \<Rightarrow> 0 | Some n \<Rightarrow> n)"

definition part_ns :: "nat \<times> string \<times> string \<Rightarrow> nat" where
  "part_ns x = (case x of (n, ds, u) \<Rightarrow> n * unit_ns u + digits_val ds * (unit_ns u div 10 ^ length ds))"

text \<open>The decimals are whole nanoseconds.\<close>

definition part_ok :: "nat \<times> string \<times> string \<Rightarrow> bool" where
  "part_ok x = (case x of (n, ds, u) \<Rightarrow>
     u \<in> fst ` set unitMap \<and> list_all is_digit ds \<and> unit_ns u mod 10 ^ length ds = 0)"

lemma unit_facts:
  assumes "u \<in> fst ` set unitMap"
  shows "map_of unitMap u = Some (unit_ns u)" "0 < unit_ns u" "unit_ns u < 2 ^ 53" "u \<noteq> []" "list_all unit_char u"
  using assms by (auto simp: unitMap_def unit_ns_def unit_char_def is_digit_def)

text \<open>Text that is over, or goes on with the next number.\<close>

definition ends_unit :: "string \<Rightarrow> bool" where
  "ends_unit r \<longleftrightarrow> r = [] \<or> \<not> unit_char (hd r)"

lemma take_unit:
  assumes "list_all unit_char u" "ends_unit r"
  shows "takeWhile unit_char (u @ r) = u" "dropWhile unit_char (u @ r) = r"
  using assms by (cases r; auto simp: ends_unit_def list_all_iff)+

lemma part_read:
  assumes ok: "part_ok x" and le: "part_ns x \<le> 2 ^ 63" and r: "ends_unit rest"
  shows "parse_part orig (part_text x @ rest) = Inr (part_ns x, rest)"
proof -
  obtain n ds u where x: "x = (n, ds, u)" by (cases x)
  let ?k = "length ds" and ?s2 = "u @ rest"
  let ?s1 = "(if ds = [] then [] else CHR ''.'' # ds) @ ?s2" and ?unit = "unit_ns u"
  have u: "u \<in> fst ` set unitMap" "list_all is_digit ds" using ok by (simp_all add: x part_ok_def)
  note uf = unit_facts [OF u(1)]
  have "10 ^ ?k dvd ?unit" using ok by (simp add: x part_ok_def mod_eq_0_iff_dvd)
  then have unit: "?unit = (?unit div 10 ^ ?k) * 10 ^ ?k" by simp
  have scale: "10 ^ ?k \<le> ?unit" using unit uf(2) by (cases "?unit div 10 ^ ?k") auto
  have f: "digits_val ds < 10 ^ ?k" using digits_val_less [OF u(2)] .
  have e2: "ends_digits ?s2" using uf(4,5) by (cases u) (simp_all add: ends_digits_def unit_char_def)
  then have e1: "ends_digits ?s1" by (simp add: ends_digits_def is_digit_def)
  have n: "n * ?unit \<le> 2 ^ 63" using le by (simp add: x part_ns_def)
  then have "n \<le> 2 ^ 63" using uf(2) le_trans [of n "n * ?unit"] by simp
  then have li: "leadingInt 0 (show_nat n @ ?s1) = Some (n, ?s1)"
    using leadingInt_digits [of "show_nat n" ?s1 0] e1 show_nat_digits [of n] by simp
  have "digits_val ds < 2 ^ 53" using f scale uf(3) by linarith
  then have "digits_val ds \<le> 2 ^ 63 - 1" by simp
  then have pf: "part_fraction ?s1 = (digits_val ds, 10 ^ ?k, ?s2)"
    using leadingFraction_digits [OF u(2) e2, of 0 1] uf(4,5)
    by (cases u) (auto simp: part_fraction_def unit_char_def)
  have fr: "(if 0 < digits_val ds then fraction_ns (digits_val ds) ?unit (10 ^ ?k) else 0)
      = digits_val ds * (?unit div 10 ^ ?k)"
    using fraction_exact [OF unit uf(2) f uf(3)] by simp
  have hd: "is_digit (hd (show_nat n @ ?s1))" "length ?s1 \<noteq> length (show_nat n @ ?s1)"
    using show_nat_digits [of n] by (cases "show_nat n"; simp)+
  have nd: "\<not> 2 ^ 63 div ?unit < n" using n uf(2) by (simp add: less_eq_div_iff_mult_less_eq not_less)
  have "\<not> 2 ^ 63 < n * ?unit + digits_val ds * (?unit div 10 ^ ?k)"
    using le by (simp add: x part_ns_def)
  then have "parse_part orig (show_nat n @ ?s1) = Inr (n * ?unit + digits_val ds * (?unit div 10 ^ ?k), rest)"
    using hd nd uf(1,4) take_unit [OF uf(5) r]
    by (simp only: parse_part_def li pf option.case prod.case Let_def fr if_False if_True simp_thms)
  then show ?thesis by (simp add: x part_text_def part_ns_def)
qed

lemma parts_ends: "list_all part_ok xs \<Longrightarrow> ends_unit (concat (map part_text xs))"
proof (cases xs)
  case (Cons x ys)
  obtain n ds u where "x = (n, ds, u)" by (cases x)
  with Cons show ?thesis
    using show_nat_digits [of n] by (cases "show_nat n") (auto simp: ends_unit_def part_text_def unit_char_def)
qed (simp add: ends_unit_def)

lemma parts_read:
  "list_all part_ok xs \<Longrightarrow> d + sum_list (map part_ns xs) \<le> 2 ^ 63 \<Longrightarrow>
     parse_parts orig d (concat (map part_text xs)) = Inr (d + sum_list (map part_ns xs))"
proof (induction xs arbitrary: d)
  case (Cons x xs)
  let ?rest = "concat (map part_text xs)"
  have le: "part_ns x \<le> 2 ^ 63" "d + part_ns x \<le> 2 ^ 63" using Cons.prems(2) by simp_all
  have p: "parse_part orig (part_text x @ ?rest) = Inr (part_ns x, ?rest)"
    using part_read [OF _ le(1) parts_ends] Cons.prems(1) by simp
  have ne: "part_text x @ ?rest \<noteq> []"
    using show_nat_digits [of "fst x"] by (auto simp: part_text_def split: prod.splits)
  have "(d + part_ns x) mod 2 ^ 64 = d + part_ns x" using le(2) by simp
  moreover have "\<not> 2 ^ 63 < d + part_ns x" using le(2) by (simp only: not_less)
  ultimately have "parse_parts orig d (part_text x @ ?rest) = parse_parts orig (d + part_ns x) ?rest"
    using ne p by (subst parse_parts.simps) (simp only: sum.case prod.case Let_def if_False)
  then show ?case using Cons.IH [of "d + part_ns x"] Cons.prems by (simp add: add.assoc)
qed (simp add: parse_parts.simps)

text \<open>A sequence of such numbers is read exactly, with a sign or without.\<close>

lemma ParseDuration_parts:
  assumes ok: "list_all part_ok xs" and ne: "xs \<noteq> []" and le: "sum_list (map part_ns xs) < 2 ^ 63"
  shows "ParseDuration (concat (map part_text xs)) = Inr (int (sum_list (map part_ns xs)))"
    and "ParseDuration (CHR ''-'' # concat (map part_text xs)) = Inr (- int (sum_list (map part_ns xs)))"
proof -
  let ?t = "concat (map part_text xs)"
  obtain n ds u ys where xs: "xs = (n, ds, u) # ys" using ne by (cases xs) auto
  have u: "u \<in> fst ` set unitMap" using ok by (simp add: xs part_ok_def)
  obtain c cs where c: "show_nat n = c # cs" "is_digit c" using show_nat_digits [of n] by (cases "show_nat n") auto
  have t: "?t = c # cs @ (if ds = [] then [] else CHR ''.'' # ds) @ u @ concat (map part_text ys)"
    by (simp add: xs part_text_def c)
  then have nz: "?t \<noteq> ''0''" "?t \<noteq> []" using unit_facts(4) [OF u] by auto
  have sg: "duration_sign ?t = (False, ?t)" using c(2) t by (auto simp: duration_sign_def is_digit_def)
  have p: "parse_parts orig 0 ?t = Inr (sum_list (map part_ns xs))" for orig
    using parts_read [OF ok, of 0] le by simp
  show "ParseDuration ?t = Inr (int (sum_list (map part_ns xs)))"
    using sg nz p le by (simp add: ParseDuration_def)
  show "ParseDuration (CHR ''-'' # ?t) = Inr (- int (sum_list (map part_ns xs)))"
    using nz p by (simp add: ParseDuration_def duration_sign_def)
qed

end
