(* ===== verification/Config.thy ===== *)
theory Config
  imports Batcher Receiver GoDuration
begin

text \<open>
  internal/pipeline/config.go and the start-up checks of pipeline.go: the
  configuration, its defaults, the routing check and the choice of an adapter. The
  YAML decoder is the library's; what it calls back for a duration is \<open>UnmarshalYAML\<close>.
\<close>

section \<open>The configuration\<close>

text \<open>\<^verbatim>\<open>Duration.UnmarshalYAML\<close>: the node is what its \<^verbatim>\<open>Decode\<close> into a string returns.\<close>

definition UnmarshalYAML :: "string + string \<Rightarrow> duration \<Rightarrow> string option \<times> duration" where
  "UnmarshalYAML value d =
     (case value of
        Inl e \<Rightarrow> (Some e, d)
      | Inr s \<Rightarrow>
          (case ParseDuration s of
             Inl e \<Rightarrow> (Some (''invalid duration '' @ str_text s @ '': '' @ e), d)
           | Inr parsed \<Rightarrow> (None, parsed)))"

record BatchConfig =
  MaxEvents :: int
  cfg_Linger :: duration

record RetryConfig =
  cfg_MaxElapsed :: duration
  cfg_MaxInterval :: duration

record ProviderConfig =
  pc_Type :: string
  pc_Endpoint :: string
  pc_TokenEnv :: string
  pc_Batch :: BatchConfig
  pc_Retry :: RetryConfig

record RoutingRule =
  match_EventName :: string
  rule_Route :: "string list"

record Config =
  listen_HTTP :: string
  listen_GRPC :: string
  buffer_Dir :: string
  buffer_MaxBytes :: int
  buffer_OnFull :: string
  Providers :: "(string, ProviderConfig) gomap"
  routing_Default :: "string list"
  routing_Rules :: "RoutingRule list"

section \<open>Defaults\<close>

definition provider_defaults :: "ProviderConfig \<Rightarrow> ProviderConfig" where
  "provider_defaults pc =
     \<lparr>pc_Type = (if pc_Type pc = [] then ''stdout'' else pc_Type pc),
      pc_Endpoint = pc_Endpoint pc, pc_TokenEnv = pc_TokenEnv pc,
      pc_Batch = \<lparr>MaxEvents = (if MaxEvents (pc_Batch pc) \<le> 0 then 500 else MaxEvents (pc_Batch pc)),
        cfg_Linger = (if cfg_Linger (pc_Batch pc) \<le> 0 then 10 * second_ns else cfg_Linger (pc_Batch pc))\<rparr>,
      pc_Retry = \<lparr>cfg_MaxElapsed =
          (if cfg_MaxElapsed (pc_Retry pc) \<le> 0 then 30 * 60 * second_ns else cfg_MaxElapsed (pc_Retry pc)),
        cfg_MaxInterval =
          (if cfg_MaxInterval (pc_Retry pc) \<le> 0 then 2 * 60 * second_ns else cfg_MaxInterval (pc_Retry pc))\<rparr>\<rparr>"

definition applyDefaults :: "Config \<Rightarrow> Config" where
  "applyDefaults c =
     c\<lparr>listen_HTTP := (if listen_HTTP c = [] then ''127.0.0.1:8999'' else listen_HTTP c),
       buffer_Dir := (if buffer_Dir c = [] then ''/var/lib/tallyd/wal'' else buffer_Dir c),
       buffer_OnFull := (if buffer_OnFull c = [] then ''reject'' else buffer_OnFull c),
       Providers := map (\<lambda>(name, pc). (name, provider_defaults pc)) (Providers c)\<rparr>"

section \<open>Start-up checks\<close>

definition unknown_name :: "Config \<Rightarrow> string list \<Rightarrow> string option" where
  "unknown_name c names = List.find (\<lambda>name. map_of (Providers c) name = None) names"

fun check_rules :: "Config \<Rightarrow> nat \<Rightarrow> RoutingRule list \<Rightarrow> go_error option" where
  "check_rules c i [] = None"
| "check_rules c i (rule # rules) =
     (case unknown_name c (rule_Route rule) of
        Some name \<Rightarrow> Some (GoError (''routing.rules['' @ show_nat i @ ''] (event_name=''
          @ str_text (match_EventName rule) @ '') references unknown provider '' @ str_text name))
      | None \<Rightarrow> check_rules c (Suc i) rules)"

definition validateRouting :: "Config \<Rightarrow> go_error option" where
  "validateRouting c =
     (case unknown_name c (routing_Default c) of
        Some name \<Rightarrow> Some (GoError (''routing.default references unknown provider '' @ str_text name))
      | None \<Rightarrow> check_rules c 0 (routing_Rules c))"

text \<open>\<^verbatim>\<open>os.Getenv\<close> is the argument \<open>getenv\<close>.\<close>

definition buildAdapter :: "(string \<Rightarrow> string) \<Rightarrow> ProviderConfig \<Rightarrow> go_error + adapter" where
  "buildAdapter getenv pc =
     (let n = MaxEvents (pc_Batch pc) in
      if pc_Type pc = [] \<or> pc_Type pc = ''stdout'' then
        Inr (stdout_adapter (if n > 0 then n else stdout_defaultMaxBatchSize))
      else if pc_Type pc = ''metronome'' then
        (if getenv (pc_TokenEnv pc) = [] then
           Inl (GoError (''metronome: token_env '' @ str_text (pc_TokenEnv pc) @ '' is unset or empty''))
         else let a = metronome_New (pc_Endpoint pc) (getenv (pc_TokenEnv pc)) in
              Inr (metronome_adapter (if n > 0 then a\<lparr>m_MaxBatch := n\<rparr> else a)))
      else Inl (GoError (''unsupported adapter type '' @ str_text (pc_Type pc))))"

definition config_router :: "Config \<Rightarrow> StaticRouter" where
  "config_router c =
     \<lparr>Default = routing_Default c,
      Rules = map (\<lambda>r. \<lparr>Rule_EventName = match_EventName r, Rule_Providers = rule_Route r\<rparr>)
        (routing_Rules c)\<rparr>"

definition retry_policy :: "ProviderConfig \<Rightarrow> RetryPolicy" where
  "retry_policy pc =
     \<lparr>InitialBackoff = 0, MaxBackoff = cfg_MaxInterval (pc_Retry pc), MaxElapsed = cfg_MaxElapsed (pc_Retry pc)\<rparr>"

fun build_batchers ::
  "(string \<Rightarrow> string) \<Rightarrow> (string, ProviderConfig) gomap \<Rightarrow> go_error + (string, batcher) gomap" where
  "build_batchers getenv [] = Inr []"
| "build_batchers getenv ((name, pc) # rest) =
     (case buildAdapter getenv pc of
        Inl e \<Rightarrow> Inl (GoError (''pipeline: provider '' @ str_text name @ '': '' @ error_text e))
      | Inr ad \<Rightarrow>
          (case build_batchers getenv rest of
             Inl e \<Rightarrow> Inl e
           | Inr bs \<Rightarrow> Inr ((name, \<lparr>Provider = name, b_Adapter = ad, b_Retry = retry_policy pc,
               has_Metrics = True, has_Logger = True\<rparr>) # bs)))"

section \<open>What the checks establish\<close>

lemma provider_defaults_idem: "provider_defaults (provider_defaults pc) = provider_defaults pc"
  by (simp add: provider_defaults_def)

lemma applyDefaults_idem: "applyDefaults (applyDefaults c) = applyDefaults c"
  by (simp add: applyDefaults_def provider_defaults_idem o_def case_prod_beta)

lemma unknown_name_None: "unknown_name c names = None \<longleftrightarrow> set names \<subseteq> dom (map_of (Providers c))"
  by (auto simp: unknown_name_def find_None_iff)

lemma check_rules_None:
  "check_rules c i rules = None \<longleftrightarrow> (\<forall>r \<in> set rules. set (rule_Route r) \<subseteq> dom (map_of (Providers c)))"
proof (induction rules arbitrary: i)
  case (Cons r rules)
  then show ?case using unknown_name_None [of c "rule_Route r"] by (cases "unknown_name c (rule_Route r)") auto
qed simp

lemma validateRouting_None:
  "validateRouting c = None \<longleftrightarrow> set (routing_Default c) \<subseteq> dom (map_of (Providers c))
     \<and> (\<forall>r \<in> set (routing_Rules c). set (rule_Route r) \<subseteq> dom (map_of (Providers c)))"
  using unknown_name_None [of c "routing_Default c"] check_rules_None [of c 0 "routing_Rules c"]
  by (cases "unknown_name c (routing_Default c)") (auto simp: validateRouting_def)

lemma first_rule_set: "first_rule rs name = Some ps \<Longrightarrow> \<exists>r \<in> set rs. Rule_Providers r = ps"
  by (induction rs) (auto split: if_splits)

lemma router_known:
  assumes "validateRouting c = None"
  shows "set (StaticRouter_Route (config_router c) e) \<subseteq> dom (map_of (Providers c))"
proof (cases "first_rule (Rules (config_router c)) (EventName e)")
  case None
  then show ?thesis
    using assms by (simp add: validateRouting_None StaticRouter_Route_def config_router_def)
next
  case (Some ps)
  then obtain r where "r \<in> set (routing_Rules c)" "rule_Route r = ps"
    using first_rule_set [OF Some] by (auto simp: config_router_def)
  with assms Some show ?thesis by (auto simp: validateRouting_None StaticRouter_Route_def)
qed

lemma build_batchers_names: "build_batchers getenv pcs = Inr bs \<Longrightarrow> map fst bs = map fst pcs"
  by (induction pcs arbitrary: bs) (auto split: sum.splits)

lemma build_batchers_provider: "build_batchers getenv pcs = Inr bs \<Longrightarrow> (name, b) \<in> set bs \<Longrightarrow> Provider b = name"
  by (induction pcs arbitrary: bs) (auto split: sum.splits)

section \<open>Durations\<close>

lemma UnmarshalYAML_range: "UnmarshalYAML v d0 = (None, d) \<Longrightarrow> - (2 ^ 63) \<le> d \<and> d < 2 ^ 63"
  by (auto simp: UnmarshalYAML_def dest!: ParseDuration_range split: sum.splits)

text \<open>
  A configured duration means what it says: a sequence of numbers, each with a unit and
  perhaps decimals that come to whole nanoseconds, is decoded to the exact sum, with a minus sign to its
  negation, whatever the field held before; the binary floating point the decimals go through costs nothing.
\<close>

theorem configured_duration_is_exact:
  assumes "xs \<noteq> []" "list_all part_ok xs" "sum_list (map part_ns xs) < 2 ^ 63"
  shows "UnmarshalYAML (Inr (concat (map part_text xs))) d = (None, int (sum_list (map part_ns xs)))
     \<and> UnmarshalYAML (Inr (CHR ''-'' # concat (map part_text xs))) d = (None, - int (sum_list (map part_ns xs)))"
  using ParseDuration_parts [OF assms(2,1,3)] by (simp add: UnmarshalYAML_def)

theorem configured_duration_is_exact_witness:
  "UnmarshalYAML (Inr ''1h30.25m'') 0 = (None, 5415 * second_ns)"
proof -
  let ?xs = "[(1, [], ''h''), (30, ''25'', ''m'')]"
  have "concat (map part_text ?xs) = ''1h30.25m''" by code_simp
  then show ?thesis
    using configured_duration_is_exact [of ?xs 0]
    by (simp add: part_ok_def part_ns_def unit_ns_def unitMap_def is_digit_def digits_val_def)
qed

lemma backoff_loop_snoc:
  "backoff_loop (Suc n) d mx = (let r = backoff_loop n d mx in if r < mx then int64 (r * 2) else r)"
proof (induction n arbitrary: d)
  case (Suc n)
  show ?case
  proof (cases "d < mx")
    case True
    then show ?thesis using Suc [of "int64 (d * 2)"] by (simp only: backoff_loop.simps if_True)
  qed simp
qed simp

lemma backoff_loop_doubles:
  "0 < d \<Longrightarrow> d * 2 ^ n < mx \<Longrightarrow> d * 2 ^ n < 2 ^ 63 \<Longrightarrow> backoff_loop n d mx = d * 2 ^ n"
proof (induction n)
  case (Suc n)
  then have "0 < d * 2 ^ n" "d * 2 ^ Suc n = 2 * (d * 2 ^ n)" by simp_all
  then have "d * 2 ^ n < mx" "d * 2 ^ n < 2 ^ 63" using Suc.prems by linarith+
  moreover have "int64 (d * 2 ^ Suc n) = d * 2 ^ Suc n"
    using Suc.prems(3) \<open>0 < d * 2 ^ n\<close> by (intro int64_id) simp_all
  ultimately show ?case
    using Suc by (simp only: backoff_loop_snoc Let_def) (simp add: mult.commute mult.left_commute)
qed simp

text \<open>
  A \<^verbatim>\<open>max_interval\<close> beyond two to the 33 seconds, which the configuration may hold, lets the doubling
  backoff overflow: at the attempt after 34 retries the delay has wrapped to a negative number, the bound given to
  \<^verbatim>\<open>rand.Int63n\<close> is not positive and the daemon panics, whatever the other settings.
\<close>

theorem huge_max_interval_panics:
  assumes "2 ^ 33 * second_ns < cfg_MaxInterval (pc_Retry pc)"
  shows "backoff (retry_policy pc) 35 draw = Panics"
proof -
  let ?mx = "cfg_MaxInterval (pc_Retry pc)"
  have "backoff_loop 33 second_ns ?mx = second_ns * 2 ^ 33"
    using assms by (intro backoff_loop_doubles) simp_all
  then have "backoff_loop 34 second_ns ?mx = int64 (second_ns * 2 ^ 34)"
    using assms backoff_loop_snoc [of 33 second_ns ?mx] by (simp add: numeral_eq_Suc [of num.One])
  then have "backoff_loop 34 second_ns ?mx = - 1266874889709551616"
    by (simp add: int64_def)
  then show ?thesis
    using assms by (simp add: backoff_def withDefaults_def retry_policy_def Let_def Int63n_def int64_def)
qed

theorem huge_max_interval_panics_witness:
  "\<exists>d. UnmarshalYAML (Inr ''2400000h'') 0 = (None, d)
     \<and> backoff (retry_policy \<lparr>pc_Type = [], pc_Endpoint = [], pc_TokenEnv = [],
          pc_Batch = \<lparr>MaxEvents = 1, cfg_Linger = 1\<rparr>, pc_Retry = \<lparr>cfg_MaxElapsed = d, cfg_MaxInterval = d\<rparr>\<rparr>) 35 0 = Panics"
proof -
  have lit: "part_text (2400000, [], ''h'') = ''2400000h''"
    by (simp add: part_text_def show_nat.simps digit_char_def) code_simp
  have "UnmarshalYAML (Inr ''2400000h'') 0 = (None, 2400000 * 3600 * second_ns)"
    using ParseDuration_parts(1) [of "[(2400000, [], ''h'')]"] lit
    by (simp add: UnmarshalYAML_def part_ok_def part_ns_def unit_ns_def unitMap_def)
  then show ?thesis by (auto intro!: huge_max_interval_panics)
qed

end
