(* ===== verification/Flush_Steps.thy ===== *)
theory Flush_Steps
  imports Batcher
begin

text \<open>
  internal/batcher/batcher.go, a flush as the goroutine it runs in: the shared log and
  dead-letter queue see one call of it at a time, and anything else may happen in between.
  What is left of a flush after its \<^verbatim>\<open>Send\<close> is a list of jobs; each step takes one of them one
  call further. Run without interleaving the steps are \<open>batcher_flush\<close>, in both directions.
\<close>

section \<open>Jobs\<close>

text \<open>Where one event of the batch stands: still to be resolved, about to be put, about to be acked.\<close>

datatype job =
    Resolving queued Disposition "go_error option"
  | Parking queued string bool
  | Acking queued Disposition

fun job_q :: "job \<Rightarrow> queued" where
  "job_q (Resolving q disp cause) = q"
| "job_q (Parking q reason permanent) = q"
| "job_q (Acking q disp) = q"

text \<open>\<^verbatim>\<open>flush\<close> up to its loop: encoding, sending, and what the loop will go through.\<close>

definition flush_start ::
  "batcher \<Rightarrow> (go_error + BatchResult) \<Rightarrow> queued list \<Rightarrow> 's env \<Rightarrow> job list \<times> 's env" where
  "flush_start b sent batch env =
     (case Encode (b_Adapter b) (map q_event batch) of
        Inl e \<Rightarrow> (map (\<lambda>q. Parking q (''encode error: '' @ error_text e) True) batch, env)
      | Inr body \<Rightarrow>
          (let env1 = observe (has_Metrics b) (FlushLatency (Provider b)) env in
           case sent of
             Inl e \<Rightarrow>
               (let disp = Classify (b_Adapter b) e 0 in
                (map (\<lambda>q. Resolving q disp (Some e)) batch,
                 observe (has_Metrics b) (RecordSendError (Provider b) disp) env1))
           | Inr rs \<Rightarrow>
               (map (\<lambda>q. Resolving q (fst (result_verdict rs q)) (snd (result_verdict rs q))) batch, env1)))"

text \<open>
  One step of a job: \<^verbatim>\<open>resolve\<close> decides, \<^verbatim>\<open>deadLetter\<close> puts and then acks. The result is
  what is left of the job and the timers it started.
\<close>

fun job_step ::
  "batcher \<Rightarrow> 's backend \<Rightarrow> tick \<Rightarrow> job \<Rightarrow> 's env \<Rightarrow> (job list \<times> (queued \<times> duration) list) go \<times> 's env" where
  "job_step b be tk (Resolving q disp cause) env =
     (case disp of
        Ok \<Rightarrow> (Returns ([Acking q Ok], []), env)
      | DeadLetter \<Rightarrow>
          (Returns ([Parking q (case cause of None \<Rightarrow> ''dead-lettered by provider'' | Some e \<Rightarrow> error_text e) True], []), env)
      | Retry \<Rightarrow>
          (if fst tk - q_firstQueue q \<ge> MaxElapsed (withDefaults (b_Retry b)) then
             (Returns ([Parking q (case cause of None \<Rightarrow> ''retry budget exhausted''
                 | Some e \<Rightarrow> ''retry budget exhausted: '' @ error_text e) False], []), env)
           else
             (case scheduleRetry b (snd tk) q of
                Panics \<Rightarrow> (Panics, env)
              | Returns r \<Rightarrow> (Returns ([], [r]), env))))"
| "job_step b be tk (Parking q reason permanent) env =
     (Returns ([Acking q DeadLetter], []), deadLetter_put b be q reason permanent env)"
| "job_step b be tk (Acking q disp) env = (Returns ([], []), batcher_ack b be q disp env)"

inductive jobs_run ::
  "batcher \<Rightarrow> 's backend \<Rightarrow> job list \<Rightarrow> 's env \<Rightarrow> (queued \<times> duration) list \<Rightarrow> 's env \<Rightarrow> bool"
  for b :: batcher and be :: "'s backend" where
  jobs_done: "jobs_run b be [] env [] env"
| jobs_next: "job_step b be tk j env = (Returns (js', rs), env1) \<Longrightarrow> jobs_run b be (js' @ js) env1 rs' env' \<Longrightarrow>
     jobs_run b be (j # js) env (rs @ rs') env'"

inductive_simps jobs_run_Nil [simp]: "jobs_run b be [] env rs env'"
inductive_cases jobs_run_ConsE: "jobs_run b be (j # js) env rs env'"

lemma jobs_run_Cons:
  "jobs_run b be (j # js) env rs env' \<longleftrightarrow>
     (\<exists>tk js' rs1 env1 rs'. job_step b be tk j env = (Returns (js', rs1), env1)
        \<and> jobs_run b be (js' @ js) env1 rs' env' \<and> rs = rs1 @ rs')"
  by (blast elim: jobs_run_ConsE intro: jobs_next)

text \<open>How many steps a job still takes.\<close>

fun job_work :: "job \<Rightarrow> nat" where
  "job_work (Resolving q disp cause) = 3"
| "job_work (Parking q reason permanent) = 2"
| "job_work (Acking q disp) = 1"

section \<open>What a step does\<close>

lemma job_step_work:
  "job_step b be tk j env = (Returns (js, rs), env') \<Longrightarrow> sum_list (map job_work js) < job_work j \<and> length js \<le> 1"
  by (cases j) (auto split: Disposition.splits if_splits go.splits)

lemma job_step_returns:
  assumes "\<And>a dr. backoff (b_Retry b) a dr \<noteq> Panics"
  shows "\<exists>js rs env'. job_step b be tk j env = (Returns (js, rs), env')"
proof (cases j)
  case (Resolving q disp cause)
  have "scheduleRetry b (snd tk) q \<noteq> Panics"
    using assms [of "q_attempt q + 1" "snd tk"] by (auto simp: scheduleRetry_def Let_def split: go.splits)
  then show ?thesis using Resolving by (cases disp) (auto split: go.splits)
qed simp_all

text \<open>A step makes at most one call, and its event is acked, still there, or on a timer.\<close>

fun job_calls :: "job \<Rightarrow> call list" where
  "job_calls (Resolving q disp cause) = []"
| "job_calls (Parking q reason permanent) = [CallPut (q_event q) reason permanent]"
| "job_calls (Acking q disp) = [CallAck (ID (q_event q)) disp]"

lemma job_step_calls:
  "job_step b be tk j env = (r, env') \<Longrightarrow> env_backend env' = fold (perform b be) (job_calls j) (env_backend env)"
  by (cases j) (auto split: Disposition.splits if_splits go.splits)

lemma job_step_event:
  "job_step b be tk j env = (Returns (js, rs), env') \<Longrightarrow>
     map (\<lambda>q. q\<lparr>q_attempt := 0\<rparr>) (map job_q js @ map fst rs) =
       (case j of Acking q disp \<Rightarrow> [] | _ \<Rightarrow> [(job_q j)\<lparr>q_attempt := 0\<rparr>])"
  by (cases j) (auto simp: scheduleRetry_def Let_def split: Disposition.splits if_splits go.splits)

lemma flush_start_jobs:
  assumes "flush_start b sent batch env = (js, env')"
  shows "map job_q js = batch" "sum_list (map job_work js) \<le> 3 * length batch" "env_backend env' = env_backend env"
proof -
  have w: "sum_list (map job_work (map (\<lambda>q. Parking q r m) qs)) = 2 * length qs"
    "sum_list (map job_work (map (\<lambda>q. Resolving q (f q) (g q)) qs)) = 3 * length qs" for r m f g qs
    by (induction qs) simp_all
  show "map job_q js = batch" "env_backend env' = env_backend env"
    using assms by (auto simp: flush_start_def Let_def o_def split: sum.splits)
  show "sum_list (map job_work js) \<le> 3 * length batch"
    using assms w by (auto simp: flush_start_def Let_def split: sum.splits simp del: map_map)
qed

text \<open>A flush panics only if a backoff does.\<close>

lemma resolve_returns:
  assumes "\<And>a dr. backoff (b_Retry b) a dr \<noteq> Panics"
  shows "fst (batcher_resolve b be tk q disp cause env) \<noteq> Panics"
  using assms [of "q_attempt q + 1" "snd tk"]
  by (cases disp) (auto simp: batcher_resolve_def scheduleRetry_def Let_def split: go.splits)

lemma resolve_all_returns:
  assumes "\<And>a dr. backoff (b_Retry b) a dr \<noteq> Panics"
  shows "fst (resolve_all b be vd tk qs env) \<noteq> Panics"
proof (induction qs arbitrary: tk env)
  case (Cons q qs)
  then show ?case
    using resolve_returns [OF assms, of be "tk 0" q "fst (vd q)" "snd (vd q)" env]
    by (auto split: prod.splits go.splits) (metis fst_conv)
qed simp

lemma flush_returns:
  assumes "\<And>a dr. backoff (b_Retry b) a dr \<noteq> Panics"
  obtains rs env' where "batcher_flush b be sent tk batch env = (Returns rs, env')"
proof -
  have "fst (batcher_flush b be sent tk batch env) \<noteq> Panics"
    by (simp add: batcher_flush_def Let_def resolve_all_returns [OF assms] split: sum.split)
  then show ?thesis using that by (metis go.exhaust prod.collapse)
qed

section \<open>Without interleaving the steps are the flush\<close>

lemma resolve_job_at:
  "(\<exists>js' rs1 env1 rs'. job_step b be tk (Resolving q disp cause) env = (Returns (js', rs1), env1)
       \<and> jobs_run b be (js' @ js) env1 rs' env' \<and> rs = rs1 @ rs') \<longleftrightarrow>
     (\<exists>r env1 rs'. batcher_resolve b be tk q disp cause env = (Returns r, env1) \<and> jobs_run b be js env1 rs' env'
        \<and> rs = (case r of None \<Rightarrow> rs' | Some x \<Rightarrow> x # rs'))"
  by (cases disp) (auto simp: jobs_run_Cons batcher_resolve_def batcher_deadLetter_def split: if_splits go.splits)

lemma resolve_job:
  "jobs_run b be (Resolving q disp cause # js) env rs env' \<longleftrightarrow>
     (\<exists>tk r env1 rs'. batcher_resolve b be tk q disp cause env = (Returns r, env1) \<and> jobs_run b be js env1 rs' env'
        \<and> rs = (case r of None \<Rightarrow> rs' | Some x \<Rightarrow> x # rs'))"
  by (simp only: jobs_run_Cons resolve_job_at)

lemma park_jobs:
  "jobs_run b be (map (\<lambda>q. Parking q reason permanent) batch @ js) env rs env' \<longleftrightarrow>
     jobs_run b be js (fold (\<lambda>q. batcher_deadLetter b be q reason permanent) batch env) rs env'"
  by (induction batch arbitrary: env) (simp_all add: jobs_run_Cons batcher_deadLetter_def)

lemma resolve_jobs:
  "jobs_run b be (map (\<lambda>q. Resolving q (fst (vd q)) (snd (vd q))) batch) env rs env' \<longleftrightarrow>
     (\<exists>tk. resolve_all b be vd tk batch env = (Returns rs, env'))"
proof (induction batch arbitrary: env rs)
  case (Cons q batch)
  show ?case
  proof
    assume "jobs_run b be (map (\<lambda>q. Resolving q (fst (vd q)) (snd (vd q))) (q # batch)) env rs env'"
    then obtain t r env1 rs' tk where "batcher_resolve b be t q (fst (vd q)) (snd (vd q)) env = (Returns r, env1)"
      "resolve_all b be vd tk batch env1 = (Returns rs', env')" "rs = (case r of None \<Rightarrow> rs' | Some x \<Rightarrow> x # rs')"
      by (auto simp: resolve_job Cons.IH)
    then have "resolve_all b be vd (case_nat t tk) (q # batch) env = (Returns rs, env')" by simp
    then show "\<exists>tk. resolve_all b be vd tk (q # batch) env = (Returns rs, env')" by blast
  next
    assume "\<exists>tk. resolve_all b be vd tk (q # batch) env = (Returns rs, env')"
    then obtain tk where "resolve_all b be vd tk (q # batch) env = (Returns rs, env')" ..
    then obtain r env1 rs' where
      "batcher_resolve b be (tk 0) q (fst (vd q)) (snd (vd q)) env = (Returns r, env1)"
      "resolve_all b be vd (\<lambda>n. tk (Suc n)) batch env1 = (Returns rs', env')"
      "rs = (case r of None \<Rightarrow> rs' | Some x \<Rightarrow> x # rs')"
      by (auto split: prod.splits go.splits)
    then show "jobs_run b be (map (\<lambda>q. Resolving q (fst (vd q)) (snd (vd q))) (q # batch)) env rs env'"
      unfolding list.map resolve_job Cons.IH by blast
  qed
qed auto

lemma flush_jobs:
  assumes "flush_start b sent batch env = (js, env1)"
  shows "jobs_run b be js env1 rs env' \<longleftrightarrow> (\<exists>tk. batcher_flush b be sent tk batch env = (Returns rs, env'))"
proof (cases "Encode (b_Adapter b) (map q_event batch)")
  case (Inl e)
  then show ?thesis
    using assms park_jobs [of b be "''encode error: '' @ error_text e" True batch "[]"]
    by (auto simp: flush_start_def batcher_flush_def)
next
  case (Inr body)
  then show ?thesis
    using assms resolve_jobs [of b be "\<lambda>q. (Classify (b_Adapter b) (projl sent) 0, Some (projl sent))" batch]
      resolve_jobs [of b be "result_verdict (projr sent)" batch]
    by (cases sent) (auto simp: flush_start_def batcher_flush_def Let_def)
qed

end
