(* ===== verification/Batcher_Run.thy ===== *)
theory Batcher_Run
  imports Flush_Steps "HOL-Library.Multiset"
begin

text \<open>
  internal/batcher/batcher.go, the queue: \<^verbatim>\<open>Enqueue\<close>, the \<^verbatim>\<open>run\<close> loop with its
  linger timer and semaphore, the flush goroutines, the retry timers and
  \<^verbatim>\<open>Close\<close>, as a step relation. A goroutine blocked in \<^verbatim>\<open>enqueue\<close> is a member of
  \<open>senders\<close>; the loop blocked on the semaphore holds its batch in \<open>handoff\<close>; a flush
  goroutine is a member of \<open>inflight\<close> and takes one call at a time, any of them next. The
  two comparisons the loop makes are read through \<open>effective_max\<close> and
  \<open>defaultMaxInFlight\<close>.
\<close>

section \<open>State\<close>

definition defaultMaxInFlight :: nat where
  "defaultMaxInFlight = 4"

definition chan_capacity :: nat where
  "chan_capacity = 1024"

definition effective_max :: "batcher \<Rightarrow> nat" where
  "effective_max b =
     (if MaxBatchSize (b_Adapter b) \<le> 0 then 500 else nat (MaxBatchSize (b_Adapter b)))"

text \<open>A flush goroutine: before its \<^verbatim>\<open>Send\<close> returned, or with the jobs left of its loop.\<close>

datatype flight =
    Sending "queued list"
  | Settling "job list"

fun flight_held :: "flight \<Rightarrow> queued list" where
  "flight_held (Sending batch) = batch"
| "flight_held (Settling js) = map job_q js"

record 's bstate =
  senders :: "queued list"
  in_ch :: "queued list"
  pending :: "queued list"
  handoff :: "queued list option"
  inflight :: "flight list"
  timers :: "(queued \<times> duration) list"
  closeCh_closed :: bool
  draining :: bool
  stopped :: bool
  b_env :: "'s env"

definition batcher_New :: "'s env \<Rightarrow> 's bstate" where
  "batcher_New env =
     \<lparr>senders = [], in_ch = [], pending = [], handoff = None, inflight = [], timers = [],
      closeCh_closed = False, draining = False, stopped = False, b_env = env\<rparr>"

datatype label =
    Enqueued queued
  | Dropped queued
  | Answered "queued list" "go_error + BatchResult"
  | Job job "(queued \<times> duration) list"
  | Fired queued
  | Internal

section \<open>The loop's actions\<close>

text \<open>The closure \<^verbatim>\<open>flush\<close> of \<^verbatim>\<open>run\<close>, up to its wait for a slot.\<close>

definition run_flush :: "'s bstate \<Rightarrow> 's bstate" where
  "run_flush s =
     (if pending s = [] then s else s\<lparr>handoff := Some (pending s), pending := []\<rparr>)"

definition run_receive :: "batcher \<Rightarrow> queued \<Rightarrow> 's bstate \<Rightarrow> 's bstate" where
  "run_receive b q s =
     (let s1 = s\<lparr>pending := pending s @ [q]\<rparr> in
      if \<not> draining s \<and> effective_max b \<le> length (pending s1) then run_flush s1 else s1)"

inductive bstep :: "batcher \<Rightarrow> 's backend \<Rightarrow> 's bstate \<Rightarrow> label \<Rightarrow> 's bstate \<Rightarrow> bool"
  for b :: batcher and be :: "'s backend" where
  enqueue: "q = \<lparr>q_event = e, q_attempt = 0, q_firstQueue = now\<rparr> \<Longrightarrow>
     bstep b be s (Enqueued q) (s\<lparr>senders := senders s @ [q]\<rparr>)"
| admit: "senders s = xs @ q # ys \<Longrightarrow> length (in_ch s) < chan_capacity \<Longrightarrow>
     bstep b be s Internal (s\<lparr>senders := xs @ ys, in_ch := in_ch s @ [q]\<rparr>)"
| abandon: "senders s = xs @ q # ys \<Longrightarrow> closeCh_closed s \<Longrightarrow>
     bstep b be s (Dropped q) (s\<lparr>senders := xs @ ys\<rparr>)"
| receive: "in_ch s = q # qs \<Longrightarrow> handoff s = None \<Longrightarrow> \<not> stopped s \<Longrightarrow>
     bstep b be s Internal (run_receive b q (s\<lparr>in_ch := qs\<rparr>))"
| linger: "handoff s = None \<Longrightarrow> \<not> stopped s \<Longrightarrow> \<not> draining s \<Longrightarrow>
     bstep b be s Internal (run_flush s)"
| acquire: "handoff s = Some batch \<Longrightarrow> length (inflight s) < defaultMaxInFlight \<Longrightarrow>
     bstep b be s Internal
       (s\<lparr>handoff := None, inflight := inflight s @ [Sending batch], stopped := draining s\<rparr>)"
| sent: "inflight s = xs @ Sending batch # ys \<Longrightarrow> flush_start b sent batch (b_env s) = (js, env') \<Longrightarrow>
     (\<And>body. Encode (b_Adapter b) (map q_event batch) = Inr body \<Longrightarrow> Send (b_Adapter b) body sent) \<Longrightarrow>
     bstep b be s (Answered batch sent) (s\<lparr>inflight := xs @ Settling js # ys, b_env := env'\<rparr>)"
| job: "inflight s = xs @ Settling (j # js) # ys \<Longrightarrow>
     job_step b be tk j (b_env s) = (Returns (js', rs), env') \<Longrightarrow>
     bstep b be s (Job j rs)
       (s\<lparr>inflight := xs @ Settling (js' @ js) # ys, timers := timers s @ rs, b_env := env'\<rparr>)"
| flushed: "inflight s = xs @ Settling [] # ys \<Longrightarrow> bstep b be s Internal (s\<lparr>inflight := xs @ ys\<rparr>)"
| retry: "timers s = xs @ (q, d) # ys \<Longrightarrow>
     bstep b be s (Fired q) (s\<lparr>timers := xs @ ys, senders := senders s @ [q]\<rparr>)"
| close: "\<not> closeCh_closed s \<Longrightarrow>
     bstep b be s Internal (s\<lparr>closeCh_closed := True\<rparr>)"
| drain: "closeCh_closed s \<Longrightarrow> handoff s = None \<Longrightarrow> \<not> stopped s \<Longrightarrow>
     bstep b be s Internal (s\<lparr>draining := True\<rparr>)"
| drained: "draining s \<Longrightarrow> \<not> stopped s \<Longrightarrow> in_ch s = [] \<Longrightarrow> handoff s = None \<Longrightarrow>
     bstep b be s Internal (if pending s = [] then s\<lparr>stopped := True\<rparr> else run_flush s)"

inductive bruns :: "batcher \<Rightarrow> 's backend \<Rightarrow> 's bstate \<Rightarrow> label list \<Rightarrow> 's bstate \<Rightarrow> bool"
  for b :: batcher and be :: "'s backend" and s0 :: "'s bstate" where
  start: "bruns b be s0 [] s0"
| more: "bruns b be s0 ls s \<Longrightarrow> bstep b be s l s' \<Longrightarrow> bruns b be s0 (ls @ [l]) s'"

lemma bruns_step: "bruns b be t ls u \<Longrightarrow> bstep b be s l t \<Longrightarrow> bruns b be s (l # ls) u"
proof (induction rule: bruns.induct)
  case start
  from bruns.more [OF bruns.start this] show ?case by simp
next
  case (more ls u l' v)
  then show ?case using bruns.more [of b be s "l # ls" u l' v] by simp
qed

inductive_cases sent_cases: "bstep b be s (Answered batch sent) s'"
inductive_cases job_cases: "bstep b be s (Job j rs) s'"
inductive_cases dropped_cases: "bstep b be s (Dropped q) s'"
inductive_simps enqueued_simps: "bstep b be s (Enqueued q) s'"

text \<open>\<^verbatim>\<open>Close\<close> returns once the loop has stopped and no flush is running.\<close>

definition close_returns :: "'s bstate \<Rightarrow> bool" where
  "close_returns s \<longleftrightarrow> closeCh_closed s \<and> stopped s \<and> inflight s = []"

section \<open>Bounds\<close>

definition batcher_bounds :: "batcher \<Rightarrow> 's bstate \<Rightarrow> bool" where
  "batcher_bounds b s \<longleftrightarrow>
     length (in_ch s) \<le> chan_capacity \<and> length (inflight s) \<le> defaultMaxInFlight
     \<and> (draining s \<longrightarrow> closeCh_closed s) \<and> (stopped s \<longrightarrow> draining s)
     \<and> Sending [] \<notin> set (inflight s) \<and> handoff s \<noteq> Some []
     \<and> (stopped s \<longrightarrow> pending s = [] \<and> handoff s = None)
     \<and> (\<forall>batch. handoff s = Some batch \<longrightarrow> pending s = [])
     \<and> (\<not> draining s \<longrightarrow>
          length (pending s) < effective_max b
          \<and> (\<forall>batch. handoff s = Some batch \<longrightarrow> length batch \<le> effective_max b)
          \<and> (\<forall>f \<in> set (inflight s). length (flight_held f) \<le> effective_max b))"

lemma effective_max_pos: "0 < effective_max b"
  by (simp add: effective_max_def)

lemma run_flush_simps [simp]:
  "senders (run_flush s) = senders s" "in_ch (run_flush s) = in_ch s"
  "inflight (run_flush s) = inflight s" "timers (run_flush s) = timers s"
  "closeCh_closed (run_flush s) = closeCh_closed s" "draining (run_flush s) = draining s"
  "stopped (run_flush s) = stopped s" "b_env (run_flush s) = b_env s"
  "pending (run_flush s) = []"
  "handoff (run_flush s) = (if pending s = [] then handoff s else Some (pending s))"
  by (simp_all add: run_flush_def)

lemma run_receive_simps [simp]:
  "senders (run_receive b q s) = senders s" "in_ch (run_receive b q s) = in_ch s"
  "inflight (run_receive b q s) = inflight s" "timers (run_receive b q s) = timers s"
  "closeCh_closed (run_receive b q s) = closeCh_closed s"
  "draining (run_receive b q s) = draining s"
  "stopped (run_receive b q s) = stopped s" "b_env (run_receive b q s) = b_env s"
  by (simp_all add: run_receive_def Let_def)

lemma run_receive_pending:
  "pending (run_receive b q s) =
     (if \<not> draining s \<and> effective_max b \<le> Suc (length (pending s)) then [] else pending s @ [q])"
  "handoff (run_receive b q s) =
     (if \<not> draining s \<and> effective_max b \<le> Suc (length (pending s)) then Some (pending s @ [q]) else handoff s)"
  by (simp_all add: run_receive_def Let_def)

lemma bounds_init: "batcher_bounds b (batcher_New env)"
  by (simp add: batcher_bounds_def batcher_New_def effective_max_pos)

lemma bounds_step:
  assumes "bstep b be s l s'" "batcher_bounds b s"
  shows "batcher_bounds b s'"
  using assms
proof (cases rule: bstep.cases)
  case (receive q qs)
  then show ?thesis
    using assms(2) by (auto simp: batcher_bounds_def run_receive_pending)
next
  case (sent xs batch ys st js env')
  then show ?thesis
    using assms(2) flush_start_jobs(1) [OF sent(4)] by (auto simp: batcher_bounds_def dest: arg_cong [of _ _ length])
next
  case (job xs j js ys tk js' rs env')
  then show ?thesis
    using assms(2) job_step_work [OF job(4)] by (auto simp: batcher_bounds_def)
qed (auto simp: batcher_bounds_def)

lemma bruns_bounds: "bruns b be (batcher_New env) ls s \<Longrightarrow> batcher_bounds b s"
  by (induction rule: bruns.induct) (simp_all add: bounds_init bounds_step)

text \<open>With an adapter that keeps its contract a batch is within what the provider takes.\<close>

context bounded_adapter
begin

lemma gathered_within: "b_Adapter b = ad \<Longrightarrow> int (effective_max b) \<le> limit"
  using batch_size by (simp add: effective_max_def)

end

section \<open>Conservation\<close>

definition held :: "'s bstate \<Rightarrow> queued multiset" where
  "held s = mset (senders s) + mset (in_ch s) + mset (pending s)
     + (case handoff s of None \<Rightarrow> {#} | Some batch \<Rightarrow> mset batch)
     + mset (concat (map flight_held (inflight s))) + mset (map fst (timers s))"

text \<open>The event and the time it entered the queue: what a retry does not change.\<close>

definition item :: "queued \<Rightarrow> Event \<times> int" where
  "item q = (q_event q, q_firstQueue q)"

abbreviation items :: "queued multiset \<Rightarrow> (Event \<times> int) multiset" where
  "items \<equiv> image_mset item"

text \<open>An event is settled by its ack, delivered or dead-lettered.\<close>

fun settled :: "label \<Rightarrow> (Event \<times> int) multiset" where
  "settled (Job (Acking q disp) rs) = {#item q#}"
| "settled _ = {#}"

fun entered :: "label \<Rightarrow> (Event \<times> int) multiset" where
  "entered (Enqueued q) = {#item q#}"
| "entered _ = {#}"

fun gone :: "label \<Rightarrow> (Event \<times> int) multiset" where
  "gone (Dropped q) = {#item q#}"
| "gone _ = {#}"

definition tally :: "(label \<Rightarrow> (Event \<times> int) multiset) \<Rightarrow> label list \<Rightarrow> (Event \<times> int) multiset" where
  "tally g ls = sum_list (map g ls)"

lemma tally_simps [simp]: "tally g [] = {#}" "tally g (ls @ [l]) = tally g ls + g l"
  by (simp_all add: tally_def)

lemma item_job_step:
  assumes "job_step b be tk j env = (Returns (js, rs), env')"
  shows "items (mset (map job_q js)) + items (mset (map fst rs)) + settled (Job j rs) = {#item (job_q j)#}"
proof -
  have i: "item q = (q_event (q\<lparr>q_attempt := 0\<rparr>), q_firstQueue (q\<lparr>q_attempt := 0\<rparr>))" for q
    by (simp add: item_def)
  have "map item (map job_q js @ map fst rs) = (case j of Acking q disp \<Rightarrow> [] | _ \<Rightarrow> [item (job_q j)])"
    using arg_cong [OF job_step_event [OF assms], of "map (\<lambda>q. (q_event q, q_firstQueue q))"]
    by (cases j) (simp_all add: i [abs_def] o_def)
  from arg_cong [OF this, of mset] show ?thesis by (cases j) (simp_all add: add_eq_conv_ex multiset.map_comp)
qed

lemma items_step:
  assumes "bstep b be s l s'"
  shows "items (held s') + settled l + gone l = items (held s) + entered l"
  using assms
proof (cases rule: bstep.cases)
  case (sent xs batch ys st js env')
  then show ?thesis by (simp add: held_def flush_start_jobs(1) [OF sent(4)])
next
  case (job xs j js ys tk js' rs env')
  let ?rest = "items (held (s\<lparr>inflight := xs @ Settling js # ys\<rparr>))"
  have "items (held s') = ?rest + (items (mset (map job_q js')) + items (mset (map fst rs)))"
    by (simp add: held_def job(2) ac_simps)
  moreover have "items (held s) = ?rest + {#item (job_q j)#}"
    by (simp add: held_def job(3) ac_simps)
  ultimately show ?thesis
    unfolding item_job_step [OF job(4), symmetric] job(1) by (simp add: ac_simps)
qed (auto simp: held_def run_receive_pending split: option.splits)

lemma bruns_items:
  "bruns b be s0 ls s \<Longrightarrow>
     items (held s) + tally settled ls + tally gone ls = items (held s0) + tally entered ls"
proof (induction rule: bruns.induct)
  case (more ls s l s')
  have "items (held s') + tally settled (ls @ [l]) + tally gone (ls @ [l]) =
      (items (held s') + settled l + gone l) + (tally settled ls + tally gone ls)"
    by (simp add: ac_simps)
  also have "\<dots> = (items (held s) + tally settled ls + tally gone ls) + entered l"
    by (simp only: items_step [OF more.hyps(2)]) (simp add: ac_simps)
  also have "\<dots> = items (held s0) + tally entered ls + entered l"
    by (simp only: more.IH)
  finally show ?case by (simp add: ac_simps)
qed simp

lemma bruns_closed_mono:
  "bruns b be s0 ls s \<Longrightarrow> \<not> closeCh_closed s \<Longrightarrow> tally gone ls = {#} \<and> \<not> closeCh_closed s0"
proof (induction rule: bruns.induct)
  case (more ls s l s')
  have "\<not> closeCh_closed s \<and> gone l = {#}"
    using more.hyps(2) more.prems by (induction rule: bstep.cases) (auto split: if_splits)
  with more.IH show ?case by simp
qed simp

section \<open>Close returns\<close>

text \<open>Work left to do: every step but a new event or a retry timer makes it less.\<close>

fun flight_work :: "flight \<Rightarrow> nat" where
  "flight_work (Sending batch) = 4 * length batch + 2"
| "flight_work (Settling js) = sum_list (map job_work js) + 1"

definition work :: "'s bstate \<Rightarrow> nat" where
  "work s = 10 * length (senders s) + 9 * length (in_ch s) + 8 * length (pending s)
     + (case handoff s of None \<Rightarrow> 0 | Some batch \<Rightarrow> 4 * length batch + 3)
     + sum_list (map flight_work (inflight s))
     + (if draining s then 0 else 1) + (if stopped s then 0 else 1) + (if closeCh_closed s then 0 else 1)"

fun own_label :: "label \<Rightarrow> bool" where
  "own_label (Enqueued q) = False"
| "own_label (Fired q) = False"
| "own_label _ = True"

lemma work_step:
  assumes "bstep b be s l s'" "own_label l" "s' \<noteq> s" "batcher_bounds b s"
  shows "work s' < work s"
  using assms(1-3)
proof (cases rule: bstep.cases)
  case (receive q qs)
  then show ?thesis by (auto simp: work_def run_receive_pending split: option.split)
next
  case linger
  then have "pending s \<noteq> []" using assms(3) by (auto simp: run_flush_def)
  with linger show ?thesis by (cases "pending s") (auto simp: work_def)
next
  case drain
  then have "\<not> draining s" using assms(3) by (cases s) auto
  with drain show ?thesis by (simp add: work_def)
next
  case (acquire batch)
  with assms(4) show ?thesis by (auto simp: work_def batcher_bounds_def)
next
  case (sent xs batch ys st js env')
  then show ?thesis using flush_start_jobs(2) [OF sent(4)] by (simp add: work_def)
next
  case (job xs j js ys tk js' rs env')
  then show ?thesis using job_step_work [OF job(4)] by (simp add: work_def)
next
  case drained
  then show ?thesis by (cases "pending s") (auto simp: work_def)
qed (auto simp: work_def split: option.splits)

lemma drain_progress:
  assumes cl: "closeCh_closed s" and ns: "\<not> stopped s" and idle: "inflight s = []"
  shows "\<exists>l s'. bstep b be s l s' \<and> own_label l \<and> s' \<noteq> s"
proof (cases "handoff s")
  case (Some batch)
  let ?s' = "s\<lparr>handoff := None, inflight := inflight s @ [Sending batch], stopped := draining s\<rparr>"
  have "bstep b be s Internal ?s'"
    using Some idle by (intro bstep.acquire) (simp_all add: defaultMaxInFlight_def)
  moreover have "handoff ?s' \<noteq> handoff s" using Some by simp
  then have "?s' \<noteq> s" by metis
  ultimately show ?thesis by (metis own_label.simps(6))
next
  case None
  show ?thesis
  proof (cases "draining s")
    case False
    have "bstep b be s Internal (s\<lparr>draining := True\<rparr>)"
      using cl None ns by (rule bstep.drain)
    moreover have "draining (s\<lparr>draining := True\<rparr>) \<noteq> draining s" using False by simp
    then have "s\<lparr>draining := True\<rparr> \<noteq> s" by metis
    ultimately show ?thesis by (metis own_label.simps(6))
  next
    case True
    show ?thesis
    proof (cases "in_ch s")
      case (Cons q qs)
      have "bstep b be s Internal (run_receive b q (s\<lparr>in_ch := qs\<rparr>))"
        using Cons None ns by (rule bstep.receive)
      moreover have "in_ch (run_receive b q (s\<lparr>in_ch := qs\<rparr>)) \<noteq> in_ch s" using Cons by simp
      then have "run_receive b q (s\<lparr>in_ch := qs\<rparr>) \<noteq> s" by metis
      ultimately show ?thesis by (metis own_label.simps(6))
    next
      case Nil
      let ?s' = "if pending s = [] then s\<lparr>stopped := True\<rparr> else run_flush s"
      have "bstep b be s Internal ?s'"
        using True ns Nil None by (rule bstep.drained)
      moreover have "(stopped ?s', handoff ?s') \<noteq> (stopped s, handoff s)"
        using ns None by simp
      then have "?s' \<noteq> s" by (rule contrapos_nn) (simp only:)
      ultimately show ?thesis by (metis own_label.simps(6))
    qed
  qed
qed

lemma close_progress:
  assumes bd: "batcher_bounds b s" and cl: "closeCh_closed s" and nr: "\<not> close_returns s"
    and bo: "\<And>a dr. backoff (b_Retry b) a dr \<noteq> Panics"
    and send: "\<And>body. \<exists>r. Send (b_Adapter b) body r"
  shows "\<exists>l s'. bstep b be s l s' \<and> own_label l \<and> s' \<noteq> s"
proof (cases "inflight s")
  case (Cons f rest)
  then have fl: "inflight s = [] @ f # rest" by simp
  show ?thesis
  proof (cases f)
    case (Sending batch)
    obtain st where st: "\<And>body. Encode (b_Adapter b) (map q_event batch) = Inr body \<Longrightarrow> Send (b_Adapter b) body st"
      using send by (metis sum.sel(2))
    obtain js env' where js: "flush_start b st batch (b_env s) = (js, env')" by fastforce
    have "bstep b be s (Answered batch st) (s\<lparr>inflight := [] @ Settling js # rest, b_env := env'\<rparr>)"
      using fl Sending js st by (intro bstep.sent) simp_all
    moreover have "inflight (s\<lparr>inflight := [] @ Settling js # rest, b_env := env'\<rparr>) \<noteq> inflight s"
      using Cons Sending by simp
    ultimately show ?thesis by (metis own_label.simps(4))
  next
    case (Settling js)
    show ?thesis
    proof (cases js)
      case Nil
      have "bstep b be s Internal (s\<lparr>inflight := [] @ rest\<rparr>)"
        using fl Settling Nil by (intro bstep.flushed) simp
      moreover have "inflight (s\<lparr>inflight := [] @ rest\<rparr>) \<noteq> inflight s" using Cons by simp
      ultimately show ?thesis by (metis own_label.simps(6))
    next
      case (Cons j js1)
      obtain js' rs env' where j: "job_step b be (0, 0) j (b_env s) = (Returns (js', rs), env')"
        using job_step_returns [OF bo] by blast
      let ?s' = "s\<lparr>inflight := [] @ Settling (js' @ js1) # rest, timers := timers s @ rs, b_env := env'\<rparr>"
      have "bstep b be s (Job j rs) ?s'"
        using fl Settling Cons j by (intro bstep.job) simp_all
      moreover have "sum_list (map job_work (js' @ js1)) \<noteq> sum_list (map job_work js)"
        using job_step_work [OF j] Cons by simp
      then have "inflight ?s' \<noteq> inflight s" using fl Settling by auto
      ultimately show ?thesis by (metis own_label.simps(5))
    qed
  qed
next
  case Nil
  have "\<not> stopped s" using nr cl Nil by (simp add: close_returns_def)
  then show ?thesis using cl Nil by (intro drain_progress)
qed

section \<open>Nothing is taken off the books early\<close>

context delivery_backend
begin

lemma step_keeps:
  assumes "bstep b be s l s'" "sane (env_backend (b_env s))"
  shows "sane (env_backend (b_env s'))"
    and "(i, p) \<in> undelivered (env_backend (b_env s)) \<Longrightarrow>
      (\<And>e t. p = Provider b \<Longrightarrow> (e, t) \<in># settled l \<Longrightarrow> ID e \<noteq> i) \<Longrightarrow>
      (i, p) \<in> undelivered (env_backend (b_env s'))"
proof -
  have "sane (env_backend (b_env s')) \<and> ((i, p) \<in> undelivered (env_backend (b_env s)) \<longrightarrow>
      (\<forall>e t. p = Provider b \<longrightarrow> (e, t) \<in># settled l \<longrightarrow> ID e \<noteq> i) \<longrightarrow>
      (i, p) \<in> undelivered (env_backend (b_env s')))"
    using assms(1)
  proof (cases rule: bstep.cases)
    case (sent xs batch ys st js env')
    then show ?thesis using assms(2) flush_start_jobs(3) [OF sent(4)] by simp
  next
    case (job xs j js ys tk js' rs env')
    have e: "env_backend env' = fold (perform b be) (job_calls j) (env_backend (b_env s))"
      using job(4) by (rule job_step_calls)
    show ?thesis
      using perform_all [OF assms(2), of b "job_calls j"] job(1,2) unfolding e [symmetric]
      by (cases j) (auto simp: acked_ids_def item_def)
  qed (use assms(2) in simp_all)
  then show "sane (env_backend (b_env s'))"
    "(i, p) \<in> undelivered (env_backend (b_env s)) \<Longrightarrow>
      (\<And>e t. p = Provider b \<Longrightarrow> (e, t) \<in># settled l \<Longrightarrow> ID e \<noteq> i) \<Longrightarrow>
      (i, p) \<in> undelivered (env_backend (b_env s'))"
    by blast+
qed

lemma step_shrinks:
  assumes "bstep b be s l s'" "sane (env_backend (b_env s))"
  shows "undelivered (env_backend (b_env s')) \<subseteq> undelivered (env_backend (b_env s))"
  using assms(1)
proof (cases rule: bstep.cases)
  case (sent xs batch ys st js env')
  then show ?thesis using flush_start_jobs(3) [OF sent(4)] by simp
next
  case (job xs j js ys tk js' rs env')
  then show ?thesis
    using perform_all [OF assms(2), of b "job_calls j"] job_step_calls [OF job(4)] by simp
qed simp_all

end

section \<open>A flush with nothing in between\<close>

lemma jobs_bruns:
  "jobs_run b be js env rs env' \<Longrightarrow> inflight s = xs @ Settling js # ys \<Longrightarrow> b_env s = env \<Longrightarrow>
     \<exists>ls. bruns b be s ls (s\<lparr>inflight := xs @ ys, timers := timers s @ rs, b_env := env'\<rparr>)"
proof (induction arbitrary: s rule: jobs_run.induct)
  case (jobs_done env)
  have "bstep b be s Internal (s\<lparr>inflight := xs @ ys\<rparr>)" using jobs_done(1) by (rule bstep.flushed)
  moreover have "s\<lparr>inflight := xs @ ys\<rparr> = s\<lparr>inflight := xs @ ys, timers := timers s @ [], b_env := env\<rparr>"
    using jobs_done(2) by simp
  ultimately show ?case using bruns.more [OF bruns.start] by metis
next
  case (jobs_next tk j env js' rs env1 js rs' env')
  let ?t = "s\<lparr>inflight := xs @ Settling (js' @ js) # ys, timers := timers s @ rs, b_env := env1\<rparr>"
  have "bstep b be s (Job j rs) ?t"
    using jobs_next.hyps(1) jobs_next.prems by (intro bstep.job) simp_all
  moreover obtain ls where "bruns b be ?t ls (s\<lparr>inflight := xs @ ys, timers := timers s @ (rs @ rs'), b_env := env'\<rparr>)"
    using jobs_next.IH [of ?t] by auto
  ultimately show ?case by (blast dest: bruns_step)
qed

lemma flush_bruns:
  assumes "inflight s = xs @ Sending batch # ys" "batcher_flush b be st tk batch (b_env s) = (Returns rs, env')"
    and "\<And>body. Encode (b_Adapter b) (map q_event batch) = Inr body \<Longrightarrow> Send (b_Adapter b) body st"
  shows "\<exists>ls. bruns b be s (Answered batch st # ls) (s\<lparr>inflight := xs @ ys, timers := timers s @ rs, b_env := env'\<rparr>)"
proof -
  obtain js env1 where js: "flush_start b st batch (b_env s) = (js, env1)" by fastforce
  have run: "jobs_run b be js env1 rs env'" using assms(2) flush_jobs [OF js] by blast
  let ?t = "s\<lparr>inflight := xs @ Settling js # ys, b_env := env1\<rparr>"
  have "bstep b be s (Answered batch st) ?t" using assms(1) js assms(3) by (rule bstep.sent)
  moreover obtain ls where "bruns b be ?t ls (s\<lparr>inflight := xs @ ys, timers := timers s @ rs, b_env := env'\<rparr>)"
    using jobs_bruns [OF run, of ?t] by auto
  ultimately show ?thesis by (blast dest: bruns_step)
qed

section \<open>Every ack has its reason\<close>

text \<open>What the adapter answered, or its error, decided so about the event.\<close>

definition answered :: "batcher \<Rightarrow> label list \<Rightarrow> queued \<Rightarrow> Disposition \<Rightarrow> bool" where
  "answered b ls q disp \<longleftrightarrow> (\<exists>batch st body. Answered batch st \<in> set ls \<and> q \<in> set batch
     \<and> Encode (b_Adapter b) (map q_event batch) = Inr body \<and> Send (b_Adapter b) body st
     \<and> disp = (case st of Inl e \<Rightarrow> Classify (b_Adapter b) e 0 | Inr rs \<Rightarrow> fst (result_verdict rs q)))"

definition unencodable :: "batcher \<Rightarrow> label list \<Rightarrow> queued \<Rightarrow> bool" where
  "unencodable b ls q \<longleftrightarrow> (\<exists>batch st e. Answered batch st \<in> set ls \<and> q \<in> set batch
     \<and> Encode (b_Adapter b) (map q_event batch) = Inl e)"

definition parkable :: "batcher \<Rightarrow> label list \<Rightarrow> queued \<Rightarrow> bool" where
  "parkable b ls q \<longleftrightarrow> answered b ls q DeadLetter \<or> answered b ls q Retry \<or> unencodable b ls q"

fun warranted :: "batcher \<Rightarrow> label list \<Rightarrow> job \<Rightarrow> bool" where
  "warranted b ls (Resolving q disp cause) \<longleftrightarrow> answered b ls q disp"
| "warranted b ls (Parking q reason permanent) \<longleftrightarrow>
     parkable b ls q"
| "warranted b ls (Acking q disp) \<longleftrightarrow> (disp = Ok \<and> answered b ls q Ok)
     \<or> (disp = DeadLetter \<and> parkable b ls q \<and> (\<exists>reason permanent. Job (Parking q reason permanent) [] \<in> set ls))"

definition flights_warranted :: "batcher \<Rightarrow> label list \<Rightarrow> 's bstate \<Rightarrow> bool" where
  "flights_warranted b ls s \<longleftrightarrow> (\<forall>js. Settling js \<in> set (inflight s) \<longrightarrow> list_all (warranted b ls) js)"

lemma answered_mono: "answered b ls q disp \<Longrightarrow> set ls \<subseteq> set ms \<Longrightarrow> answered b ms q disp"
  unfolding answered_def by blast

lemma unencodable_mono: "unencodable b ls q \<Longrightarrow> set ls \<subseteq> set ms \<Longrightarrow> unencodable b ms q"
  unfolding unencodable_def by blast

lemma warranted_mono: "warranted b ls j \<Longrightarrow> set ls \<subseteq> set ms \<Longrightarrow> warranted b ms j"
  by (cases j) (use answered_mono unencodable_mono in \<open>auto simp: parkable_def\<close>)

lemma flights_mono: "flights_warranted b ls s \<Longrightarrow> set ls \<subseteq> set ms \<Longrightarrow> flights_warranted b ms s"
  unfolding flights_warranted_def list_all_iff using warranted_mono by blast

lemma start_warranted:
  assumes "flush_start b st batch env = (js, env')" "Answered batch st \<in> set ls"
    and "\<And>body. Encode (b_Adapter b) (map q_event batch) = Inr body \<Longrightarrow> Send (b_Adapter b) body st"
  shows "list_all (warranted b ls) js"
proof (cases "Encode (b_Adapter b) (map q_event batch)")
  case (Inl e)
  then show ?thesis
    using assms(1,2) by (auto simp: flush_start_def list_all_iff parkable_def unencodable_def) blast
next
  case (Inr body)
  then show ?thesis
    using assms by (auto simp: flush_start_def list_all_iff answered_def Let_def split: sum.splits) blast+
qed

lemma job_warranted:
  assumes "job_step b be tk j env = (Returns (js, rs), env')" "warranted b ls j" "Job j rs \<in> set ls"
  shows "list_all (warranted b ls) js"
  using assms by (cases j) (auto simp: parkable_def split: Disposition.splits if_splits go.splits; blast)+

lemma flights_step:
  assumes "bstep b be s l s'" "flights_warranted b ls s"
  shows "flights_warranted b (ls @ [l]) s'"
    and "l = Job j0 rs0 \<Longrightarrow> warranted b ls j0"
proof -
  have w: "flights_warranted b (ls @ [l]) s" using assms(2) by (rule flights_mono) auto
  show "flights_warranted b (ls @ [l]) s'"
    using assms(1)
  proof (cases rule: bstep.cases)
    case (sent xs batch ys st js env')
    have "list_all (warranted b (ls @ [l])) js"
      using sent(4) _ sent(5) by (rule start_warranted) (simp add: sent(1))
    then show ?thesis using w sent(2,3) by (auto simp: flights_warranted_def)
  next
    case (job xs j js ys tk js' rs env')
    have "warranted b (ls @ [l]) j" "list_all (warranted b (ls @ [l])) js"
      using w job(3) by (auto simp: flights_warranted_def)
    moreover from this have "list_all (warranted b (ls @ [l])) js'"
      using job_warranted [OF job(4), of "ls @ [l]"] by (simp add: job(1))
    ultimately show ?thesis using w job(2,3) by (auto simp: flights_warranted_def)
  qed (use w in \<open>auto simp: flights_warranted_def\<close>)
  show "warranted b ls j0" if "l = Job j0 rs0"
    using assms(1) unfolding that by (cases rule: bstep.cases) (use assms(2) in \<open>auto simp: flights_warranted_def\<close>)
qed

section \<open>The life of one refused event\<close>

lemma parked_run:
  assumes "1 < effective_max b" "flush_start b st [q] env = ([Resolving q DeadLetter (Some e)], env1)"
    and "\<And>body. Encode (b_Adapter b) [q_event q] = Inr body \<Longrightarrow> Send (b_Adapter b) body st"
  shows "bruns b be ((batcher_New env)\<lparr>senders := [q]\<rparr>)
     [Internal, Internal, Internal, Internal, Answered [q] st, Job (Resolving q DeadLetter (Some e)) [],
      Job (Parking q (error_text e) True) [], Job (Acking q DeadLetter) [], Internal]
     (batcher_New (batcher_deadLetter b be q (error_text e) True env1))"
proof -
  let ?s = "batcher_New env" and ?e2 = "deadLetter_put b be q (error_text e) True env1"
  let ?e3 = "batcher_ack b be q DeadLetter ?e2"
  let ?f = "\<lambda>js en. ?s\<lparr>inflight := [Settling js], b_env := en\<rparr>"
  have s1: "bstep b be (?s\<lparr>senders := [q]\<rparr>) Internal (?s\<lparr>in_ch := [q]\<rparr>)"
    using bstep.admit [of "?s\<lparr>senders := [q]\<rparr>" "[]" q "[]"] by (simp add: batcher_New_def chan_capacity_def)
  have s2: "bstep b be (?s\<lparr>in_ch := [q]\<rparr>) Internal (?s\<lparr>pending := [q]\<rparr>)"
    using bstep.receive [of "?s\<lparr>in_ch := [q]\<rparr>" q "[]" b be] assms(1) by (simp add: batcher_New_def run_receive_def Let_def)
  have s3: "bstep b be (?s\<lparr>pending := [q]\<rparr>) Internal (?s\<lparr>handoff := Some [q]\<rparr>)"
    using bstep.linger [of "?s\<lparr>pending := [q]\<rparr>"] by (simp add: batcher_New_def run_flush_def)
  have s4: "bstep b be (?s\<lparr>handoff := Some [q]\<rparr>) Internal (?s\<lparr>inflight := [Sending [q]]\<rparr>)"
    using bstep.acquire [of "?s\<lparr>handoff := Some [q]\<rparr>" "[q]"] by (simp add: batcher_New_def defaultMaxInFlight_def)
  have s5: "bstep b be (?s\<lparr>inflight := [Sending [q]]\<rparr>) (Answered [q] st) (?f [Resolving q DeadLetter (Some e)] env1)"
    using bstep.sent [of "?s\<lparr>inflight := [Sending [q]]\<rparr>" "[]" "[q]" "[]" b st _ env1] assms(2,3)
    by (simp add: batcher_New_def)
  have job: "bstep b be (?f [j] en) (Job j []) (?f js en')"
    if "job_step b be (0, 0) j en = (Returns (js, []), en')" for j js en en'
    using bstep.job [of "?f [j] en" "[]" j "[]" "[]" b be "(0, 0)" js "[]" en'] that by simp
  have s9: "bstep b be (?f [] ?e3) Internal (batcher_New ?e3)"
    using bstep.flushed [of "?f [] ?e3" "[]" "[]"] by (simp add: batcher_New_def)
  note more = bruns.more [OF bruns.more [OF bruns.more [OF bruns.more [OF bruns.more [OF bruns.start s1] s2] s3] s4] s5]
  note more = bruns.more [OF more job [of "Resolving q DeadLetter (Some e)" env1 "[Parking q (error_text e) True]" env1]]
  note more = bruns.more [OF more job [of "Parking q (error_text e) True" env1 "[Acking q DeadLetter]" ?e2]]
  note more = bruns.more [OF bruns.more [OF more job [of "Acking q DeadLetter" ?e2 "[]" ?e3]] s9]
  show ?thesis using more by (simp add: batcher_deadLetter_def)
qed

end
