(* ===== verification/Pipeline.thy ===== *)
theory Pipeline
  imports Config Batcher_Run Admin Wal_Crash
begin

text \<open>
  internal/pipeline/pipeline.go: the components wired together. The batchers share
  one backend, the write-ahead log and the dead-letter queue; the sink of the
  receiver and of DLQ replay appends to the log and then dispatches. A running
  pipeline is a step relation over its parts.
\<close>

section \<open>The shared backend\<close>

record stores =
  bk_wal :: wal
  bk_dlq :: dlq
  bk_now :: gotime

fun wal_error_value :: "wal_error \<Rightarrow> go_error" where
  "wal_error_value ErrClosed = GoError ''wal: closed''"
| "wal_error_value ErrBufferFull = GoError ''wal: buffer full''"
| "wal_error_value ErrMarshal = GoError ''wal: marshal''"
| "wal_error_value ErrIO = GoError ''wal: io''"

definition pipeline_backend :: "stores backend" where
  "pipeline_backend =
     \<lparr>be_Ack = (\<lambda>i p disp s. case wal_Ack i p disp (bk_wal s) of (err, w) \<Rightarrow>
        (map_option wal_error_value err, s\<lparr>bk_wal := w\<rparr>)),
      be_Put = (\<lambda>p e reason permanent s.
        case dlq_Put (bk_now s) p e reason permanent (bk_dlq s) of (err, d) \<Rightarrow>
        (err, s\<lparr>bk_dlq := d\<rparr>))\<rparr>"

section \<open>State and construction\<close>

text \<open>A request being served: an ingest, or a DLQ replay, part way through its loop.\<close>

datatype handler =
    Ingesting nat "(Event \<times> string list) list"
  | Replaying admin_request "dlq_record list" replay_result

record pipeline =
  p_config :: Config
  p_stores :: stores
  p_obs :: "observation list"
  p_batchers :: "(string, batcher) gomap"
  p_queues :: "(string, stores bstate) gomap"
  p_received :: nat
  p_handlers :: "handler list"

definition p_env :: "pipeline \<Rightarrow> stores env" where
  "p_env P = \<lparr>env_backend = p_stores P, env_obs = p_obs P\<rparr>"

text \<open>\<^verbatim>\<open>Batcher.Enqueue\<close>: a new goroutine at the queue's select.\<close>

definition batcher_Enqueue :: "gotime \<Rightarrow> Event \<Rightarrow> 's bstate \<Rightarrow> 's bstate" where
  "batcher_Enqueue now e s =
     s\<lparr>senders := senders s @ [\<lparr>q_event = e, q_attempt = 0, q_firstQueue = instant now\<rparr>]\<rparr>"

definition walDispatchSink_Append :: "pipeline sink" where
  "walDispatchSink_Append e ps P =
     (case wal_Append e ps (bk_wal (p_stores P)) of
        (Some err, w) \<Rightarrow> (Some (wal_error_value err), P\<lparr>p_stores := (p_stores P)\<lparr>bk_wal := w\<rparr>\<rparr>)
      | (None, w) \<Rightarrow>
          (case Dispatch (batcher_Enqueue (bk_now (p_stores P))) e ps (p_queues P) of (err, qs) \<Rightarrow>
             (err, P\<lparr>p_stores := (p_stores P)\<lparr>bk_wal := w\<rparr>, p_queues := qs\<rparr>)))"

definition pipeline_receiver :: "pipeline \<Rightarrow> receiver" where
  "pipeline_receiver P =
     \<lparr>rcv_Router = StaticRouter_Route (config_router (p_config P)),
      rcv_KnownProviders = Some (map fst (Providers (p_config P)))\<rparr>"

definition pipeline_Ingest :: "Event list \<Rightarrow> pipeline \<Rightarrow> ingest_error option \<times> pipeline" where
  "pipeline_Ingest es P =
     (case Ingest (pipeline_receiver P) walDispatchSink_Append (bk_now (p_stores P)) es P of
        (err, P', n) \<Rightarrow> (err, P'\<lparr>p_received := p_received P' + n\<rparr>))"

text \<open>\<^verbatim>\<open>Build\<close> on a configuration, the environment, the disks and the time of day.\<close>

definition Build ::
  "Config \<Rightarrow> (string \<Rightarrow> string) \<Rightarrow> disk \<Rightarrow> (string, string) gomap \<Rightarrow> fault list \<Rightarrow> gotime
    \<Rightarrow> (go_error + pipeline) go" where
  "Build cfg0 getenv disk0 dlqfiles dlqfaults now =
     (let cfg = applyDefaults cfg0 in
      if buffer_OnFull cfg \<noteq> ''reject'' then Returns (Inl (GoError ''pipeline: buffer.on_full not implemented''))
      else case validateRouting cfg of
        Some e \<Rightarrow> Returns (Inl (GoError (''pipeline: '' @ error_text e)))
      | None \<Rightarrow>
          (case fst (wal_Open defaultMaxSegmentBytes (buffer_MaxBytes cfg) disk0) of
             Inl OpenPanic \<Rightarrow> Panics
           | Inl e \<Rightarrow> Returns (Inl (GoError ''pipeline: open wal''))
           | Inr w \<Rightarrow>
               (case dlq_Open dlqfiles dlqfaults of
                  Inl e \<Rightarrow> Returns (Inl (GoError (''pipeline: open dlq: '' @ error_text e)))
                | Inr dq \<Rightarrow>
                    (case build_batchers getenv (Providers cfg) of
                       Inl e \<Rightarrow> Returns (Inl e)
                     | Inr bs \<Rightarrow>
                         (let st = \<lparr>bk_wal = w, bk_dlq = dq, bk_now = now\<rparr>;
                              env = \<lparr>env_backend = st, env_obs = []\<rparr>;
                              qs0 = map (\<lambda>(name, b). (name, batcher_New env)) bs
                          in case ReplayPending (batcher_Enqueue now) (wal_Pending w) qs0 of (logs, qs) \<Rightarrow>
                             Returns (Inr \<lparr>p_config = cfg, p_stores = st, p_obs = map LogLine logs, p_batchers = bs,
                                  p_queues = qs, p_received = 0, p_handlers = []\<rparr>))))))"

text \<open>DLQ replay over the whole pipeline: the store is its dead-letter queue.\<close>

definition pipeline_store :: "pipeline store" where
  "pipeline_store =
     (let lift = (\<lambda>op P. case op (bk_dlq (p_stores P)) of (r, d) \<Rightarrow>
            (r, P\<lparr>p_stores := (p_stores P)\<lparr>bk_dlq := d\<rparr>\<rparr>))
      in \<lparr>st_List = (\<lambda>p. lift (dlq_List p)), st_ListPoison = (\<lambda>p. lift (dlq_ListPoison p)),
          st_Remove = (\<lambda>p ids P. case dlq_Remove p ids (bk_dlq (p_stores P)) of (r, d) \<Rightarrow>
            (r, P\<lparr>p_stores := (p_stores P)\<lparr>bk_dlq := d\<rparr>\<rparr>))\<rparr>)"

definition pipeline_replay :: "admin_request \<Rightarrow> pipeline \<Rightarrow> replay_result response \<times> pipeline" where
  "pipeline_replay rq P =
     dlqreplay_ServeHTTP walDispatchSink_Append pipeline_store (map fst (Providers (p_config P))) rq P"

section \<open>Running\<close>

text \<open>
  The handlers of concurrent requests, the batchers and the clock interleave: a
  handler's loop takes one step per event, so anything may happen between two of
  its appends, and between the last append of a replay and its removal.
\<close>

datatype plabel =
    Batching string label
  | Refused "Event list"
  | Accepted "Event list"
  | Appended Event "string list"
  | AppendFailed Event "string list"
  | Responded nat
  | Listed admin_request
  | ListFailed admin_request
  | Reinjected Event string
  | ReinjectFailed Event string
  | Removed admin_request replay_result "go_error option"
  | Clock

definition note_replayed :: "Event \<Rightarrow> replay_result \<Rightarrow> replay_result" where
  "note_replayed e res = res\<lparr>rr_Replayed := rr_Replayed res @ [ID e]\<rparr>"

definition note_failed :: "Event \<Rightarrow> replay_result \<Rightarrow> replay_result" where
  "note_failed e res = res\<lparr>rr_Failed := rr_Failed res @ [ID e]\<rparr>"

definition replay_start :: "admin_request \<Rightarrow> dlq_record list \<Rightarrow> handler" where
  "replay_start rq records =
     Replaying rq records \<lparr>rr_Provider = rq_provider rq, rr_Replayed = [], rr_Failed = []\<rparr>"

text \<open>The end of a replay: nothing to remove, or \<^verbatim>\<open>Remove\<close>.\<close>

definition replay_finish :: "string \<Rightarrow> replay_result \<Rightarrow> pipeline \<Rightarrow> go_error option \<times> pipeline" where
  "replay_finish provider res P =
     (if rr_Replayed res = [] then (None, P) else st_Remove pipeline_store provider (rr_Replayed res) P)"

inductive pstep :: "pipeline \<Rightarrow> plabel \<Rightarrow> pipeline \<Rightarrow> bool" where
  batching: "map_of (p_batchers P) p = Some b \<Longrightarrow> map_of (p_queues P) p = Some s \<Longrightarrow>
     bstep b pipeline_backend (s\<lparr>b_env := p_env P\<rparr>) l s' \<Longrightarrow> (\<And>q. l \<noteq> Enqueued q) \<Longrightarrow>
     pstep P (Batching p l) (P\<lparr>p_queues := AList.update p s' (p_queues P),
       p_stores := env_backend (b_env s'), p_obs := env_obs (b_env s')\<rparr>)"
| refuse: "es = [] \<or> route_all (pipeline_receiver P) (bk_now (p_stores P)) es = Inl err \<Longrightarrow>
     pstep P (Refused es) P"
| accept: "es \<noteq> [] \<Longrightarrow> route_all (pipeline_receiver P) (bk_now (p_stores P)) es = Inr xs \<Longrightarrow>
     pstep P (Accepted es) (P\<lparr>p_handlers := p_handlers P @ [Ingesting (length es) xs]\<rparr>)"
| append: "p_handlers P = hs @ Ingesting n ((e, ps) # xs) # hs' \<Longrightarrow>
     walDispatchSink_Append e ps P = (None, P') \<Longrightarrow>
     pstep P (Appended e ps) (P'\<lparr>p_handlers := hs @ Ingesting n xs # hs'\<rparr>)"
| append_fails: "p_handlers P = hs @ Ingesting n ((e, ps) # xs) # hs' \<Longrightarrow>
     walDispatchSink_Append e ps P = (Some err, P') \<Longrightarrow>
     pstep P (AppendFailed e ps) (P'\<lparr>p_handlers := hs @ hs'\<rparr>)"
| respond: "p_handlers P = hs @ Ingesting n [] # hs' \<Longrightarrow>
     pstep P (Responded n) (P\<lparr>p_handlers := hs @ hs', p_received := p_received P + n\<rparr>)"
| listed: "admin_check ''POST'' (map fst (Providers (p_config P))) rq = None \<Longrightarrow>
     list_records pipeline_store rq P = (Inr records, P') \<Longrightarrow>
     pstep P (Listed rq) (P'\<lparr>p_handlers := p_handlers P @ [replay_start rq records]\<rparr>)"
| list_fails: "admin_check ''POST'' (map fst (Providers (p_config P))) rq = None \<Longrightarrow>
     list_records pipeline_store rq P = (Inl err, P') \<Longrightarrow> pstep P (ListFailed rq) P'"
| reinject: "p_handlers P = hs @ Replaying rq (r # rs) res # hs' \<Longrightarrow>
     walDispatchSink_Append (rec_Event r) [rq_provider rq] P = (None, P') \<Longrightarrow>
     pstep P (Reinjected (rec_Event r) (rq_provider rq))
       (P'\<lparr>p_handlers := hs @ Replaying rq rs (note_replayed (rec_Event r) res) # hs'\<rparr>)"
| reinject_fails: "p_handlers P = hs @ Replaying rq (r # rs) res # hs' \<Longrightarrow>
     walDispatchSink_Append (rec_Event r) [rq_provider rq] P = (Some err, P') \<Longrightarrow>
     pstep P (ReinjectFailed (rec_Event r) (rq_provider rq))
       (P'\<lparr>p_handlers := hs @ Replaying rq rs (note_failed (rec_Event r) res) # hs'\<rparr>)"
| remove: "p_handlers P = hs @ Replaying rq [] res # hs' \<Longrightarrow>
     replay_finish (rq_provider rq) res P = (err, P') \<Longrightarrow>
     pstep P (Removed rq res err) (P'\<lparr>p_handlers := hs @ hs'\<rparr>)"
| clock: "instant (bk_now (p_stores P)) \<le> instant now \<Longrightarrow>
     pstep P Clock (P\<lparr>p_stores := (p_stores P)\<lparr>bk_now := now\<rparr>\<rparr>)"

inductive pruns :: "pipeline \<Rightarrow> plabel list \<Rightarrow> pipeline \<Rightarrow> bool" for P0 :: pipeline where
  pstart: "pruns P0 [] P0"
| pmore: "pruns P0 ls P \<Longrightarrow> pstep P l P' \<Longrightarrow> pruns P0 (ls @ [l]) P'"

inductive_cases pstep_batching: "pstep P (Batching p l) P'"
inductive_cases pstep_clock: "pstep P Clock P'"
inductive_simps pstep_appended: "pstep P (Appended e ps) P'"
inductive_simps pstep_removed: "pstep P (Removed rq res err) P'"

lemma pruns_single: "pstep P l P' \<Longrightarrow> pruns P [l] P'"
  using pmore [OF pstart] by fastforce

lemma pruns_append: "pruns Q ms R \<Longrightarrow> pruns P ls Q \<Longrightarrow> pruns P (ls @ ms) R"
proof (induction rule: pruns.induct)
  case (pmore ms R l R')
  then show ?case using pruns.pmore [of P "ls @ ms" R l R'] by simp
qed simp

section \<open>Closing\<close>

text \<open>
  \<^verbatim>\<open>Close\<close> once the \<^verbatim>\<open>Close\<close> of every batcher has returned (\<open>close_returns\<close>).
\<close>

definition pipeline_Close :: "pipeline \<Rightarrow> (go_error option \<times> pipeline) go" where
  "pipeline_Close P =
     (case dlq_Close (bk_dlq (p_stores P)) of
        (Some e, d) \<Rightarrow> Returns (Some e, P\<lparr>p_stores := (p_stores P)\<lparr>bk_dlq := d\<rparr>\<rparr>)
      | (None, d) \<Rightarrow>
          (case wal_Close (bk_wal (p_stores P)) of
             Panics \<Rightarrow> Panics
           | Returns (err, w) \<Rightarrow>
               Returns (map_option wal_error_value err,
                 P\<lparr>p_stores := (p_stores P)\<lparr>bk_dlq := d, bk_wal := w\<rparr>\<rparr>)))"

section \<open>The backend keeps its contract\<close>

definition pairs :: "outstanding \<Rightarrow> (string \<times> string) set" where
  "pairs m = {(i, p). \<exists>e ps. m i = Some (e, ps) \<and> p \<in> set ps}"

definition undelivered :: "stores \<Rightarrow> (string \<times> string) set" where
  "undelivered s = pairs (outstanding (w_index (bk_wal s)))"

lemma undelivered_simps [simp]:
  "undelivered (s\<lparr>bk_dlq := d\<rparr>) = undelivered s" "undelivered (s\<lparr>bk_now := n\<rparr>) = undelivered s"
  by (simp_all add: undelivered_def)

lemma wal_Ack_effect:
  assumes "wal_inv w" "wal_Ack i p disp w = (err, w')"
  shows "wal_inv w'"
    and "outstanding (w_index w') =
      (if err = None then spec_op (ApplyAck i p) (outstanding (w_index w)) else outstanding (w_index w))"
proof -
  have s: "submit (ack_request i p disp w) w = (err, w')" using assms(2) by (simp add: wal_Ack_def)
  show "wal_inv w'" by (rule submit_effect(1) [OF assms(1) s])
  have "req_apply q = ApplyAck i p" if "ack_request i p disp w = Inr q" for q
    using that by (auto simp: ack_request_def split: if_splits option.splits)
  moreover have "err \<noteq> None" if "ack_request i p disp w = Inl e" for e
    using s that by (auto simp: submit_def)
  ultimately show "outstanding (w_index w') =
      (if err = None then spec_op (ApplyAck i p) (outstanding (w_index w)) else outstanding (w_index w))"
    using submit_effect(2) [OF assms(1) s] by (auto split: sum.splits option.splits)
qed

lemma wal_Append_effect:
  assumes "wal_inv w" "wal_Append e ps w = (err, w')"
  shows "wal_inv w'"
    and "outstanding (w_index w') =
      (if err = None then (outstanding (w_index w))(ID e \<mapsto> (e, remdups ps)) else outstanding (w_index w))"
proof -
  have s: "submit (append_request e ps w) w = (err, w')" using assms(2) by (simp add: wal_Append_def)
  show "wal_inv w'" by (rule submit_effect(1) [OF assms(1) s])
  have "req_apply q = ApplyEvent e ps" if "append_request e ps w = Inr q" for q
    using that by (auto simp: append_request_def Let_def split: if_splits option.splits)
  moreover have "err \<noteq> None" if "append_request e ps w = Inl er" for er
    using s that by (auto simp: submit_def)
  ultimately show "outstanding (w_index w') =
      (if err = None then (outstanding (w_index w))(ID e \<mapsto> (e, remdups ps)) else outstanding (w_index w))"
    using submit_effect(2) [OF assms(1) s] by (auto simp: spec_op_def split: sum.splits option.splits)
qed

lemma removeAll_Nil: "removeAll p ps = [] \<longleftrightarrow> set ps \<subseteq> {p}"
  by (induction ps) auto

lemma pairs_ack: "pairs (spec_op (ApplyAck i p) m) = pairs m - {(i, p)}"
  by (auto simp: pairs_def spec_op_def removeAll_Nil split: option.splits if_splits)

lemma pairs_event: "pairs (m(ID e \<mapsto> (e, remdups ps))) = {(i, p) \<in> pairs m. i \<noteq> ID e} \<union> {ID e} \<times> set ps"
  by (auto simp: pairs_def split: if_splits)

lemma backend_Ack:
  "be_Ack pipeline_backend i p d s = (err, s') \<Longrightarrow>
     \<exists>werr w. wal_Ack i p d (bk_wal s) = (werr, w) \<and> map_option wal_error_value werr = err \<and> s' = s\<lparr>bk_wal := w\<rparr>"
  by (auto simp: pipeline_backend_def split: prod.splits)

interpretation backend: delivery_backend pipeline_backend undelivered "\<lambda>s. wal_inv (bk_wal s)"
proof unfold_locales
  fix s :: stores and i p d s' e ev r m err
  assume s: "wal_inv (bk_wal s)"
  show "be_Ack pipeline_backend i p d s = (None, s') \<Longrightarrow>
      wal_inv (bk_wal s') \<and> undelivered s' = undelivered s - {(i, p)}"
    using wal_Ack_effect [OF s] by (auto dest!: backend_Ack simp: undelivered_def pairs_ack)
  show "be_Ack pipeline_backend i p d s = (Some e, s') \<Longrightarrow>
      wal_inv (bk_wal s') \<and> undelivered s' = undelivered s"
    using wal_Ack_effect [OF s] by (auto dest!: backend_Ack simp: undelivered_def)
  show "be_Put pipeline_backend p ev r m s = (err, s') \<Longrightarrow>
      wal_inv (bk_wal s') \<and> undelivered s' = undelivered s"
    using s by (auto simp: pipeline_backend_def split: prod.splits)
qed

section \<open>The sink keeps its contract\<close>

definition books :: "pipeline \<Rightarrow> outstanding" where
  "books P = outstanding (w_index (bk_wal (p_stores P)))"

lemma sink_cases:
  assumes "walDispatchSink_Append e ps P = (err, P')"
  obtains (wal_failed) werr w where "wal_Append e ps (bk_wal (p_stores P)) = (Some werr, w)"
      "err = Some (wal_error_value werr)" "P' = P\<lparr>p_stores := (p_stores P)\<lparr>bk_wal := w\<rparr>\<rparr>"
  | (appended) w qs where "wal_Append e ps (bk_wal (p_stores P)) = (None, w)"
      "Dispatch (batcher_Enqueue (bk_now (p_stores P))) e ps (p_queues P) = (err, qs)"
      "P' = P\<lparr>p_stores := (p_stores P)\<lparr>bk_wal := w\<rparr>, p_queues := qs\<rparr>"
  using assms by (auto simp: walDispatchSink_Append_def split: prod.splits option.splits)

interpretation sink: durable_sink walDispatchSink_Append books "\<lambda>P. wal_inv (bk_wal (p_stores P))"
proof unfold_locales
  fix P :: pipeline and e ps P' err
  assume w: "wal_inv (bk_wal (p_stores P))"
  note eff = wal_Append_effect [OF w]
  show "walDispatchSink_Append e ps P = (None, P') \<Longrightarrow>
      wal_inv (bk_wal (p_stores P')) \<and> books P' = (books P)(ID e \<mapsto> (e, remdups ps))"
    by (erule sink_cases) (auto dest: eff simp: books_def)
  show "walDispatchSink_Append e ps P = (Some err, P') \<Longrightarrow>
      wal_inv (bk_wal (p_stores P')) \<and> books P' \<in> {books P, (books P)(ID e \<mapsto> (e, remdups ps))}"
    by (erule sink_cases) (auto dest: eff simp: books_def)
qed

interpretation replay: replay_store pipeline_store "\<lambda>P. dlq_well (bk_dlq (p_stores P))" plain
  "\<lambda>P p. recs (bk_dlq (p_stores P)) (regularPath p)" "\<lambda>P p. recs (bk_dlq (p_stores P)) (poisonPath p)"
  walDispatchSink_Append
proof unfold_locales
  fix s :: pipeline and p ids err s' e ps
  assume w: "dlq_well (bk_dlq (p_stores s))"
  then have ok: "dlq_ok (bk_dlq (p_stores s))" by (simp add: dlq_well_def)
  show "st_List pipeline_store p s = (Inr (recs (bk_dlq (p_stores s)) (regularPath p)), s)"
    "st_ListPoison pipeline_store p s = (Inr (recs (bk_dlq (p_stores s)) (poisonPath p)), s)"
    using dlq_list_none [OF ok] by (simp_all add: pipeline_store_def Let_def)
  show "walDispatchSink_Append e ps s = (err, s') \<Longrightarrow> dlq_well (bk_dlq (p_stores s'))
      \<and> (\<lambda>p. recs (bk_dlq (p_stores s')) (regularPath p)) = (\<lambda>p. recs (bk_dlq (p_stores s)) (regularPath p))
      \<and> (\<lambda>p. recs (bk_dlq (p_stores s')) (poisonPath p)) = (\<lambda>p. recs (bk_dlq (p_stores s)) (poisonPath p))"
    using w by (auto elim!: sink_cases)
  show "plain p \<Longrightarrow> ids \<noteq> [] \<Longrightarrow> st_Remove pipeline_store p ids s = (err, s') \<Longrightarrow>
      err = None \<and> dlq_well (bk_dlq (p_stores s'))
      \<and> recs (bk_dlq (p_stores s')) (regularPath p) = without ids (recs (bk_dlq (p_stores s)) (regularPath p))
      \<and> recs (bk_dlq (p_stores s')) (poisonPath p) = without ids (recs (bk_dlq (p_stores s)) (poisonPath p))
      \<and> (\<forall>q. plain q \<longrightarrow> q \<noteq> p \<longrightarrow>
           recs (bk_dlq (p_stores s')) (regularPath q) = recs (bk_dlq (p_stores s)) (regularPath q)
         \<and> recs (bk_dlq (p_stores s')) (poisonPath q) = recs (bk_dlq (p_stores s)) (poisonPath q))"
    using dlq_remove_well [OF w] by (auto simp: pipeline_store_def Let_def split: prod.splits)
qed

section \<open>The invariant of a running pipeline\<close>

definition provider_names :: "pipeline \<Rightarrow> string set" where
  "provider_names P = set (map fst (Providers (p_config P)))"

definition pipeline_inv :: "pipeline \<Rightarrow> bool" where
  "pipeline_inv P \<longleftrightarrow> wal_inv (bk_wal (p_stores P)) \<and> map_ok (p_queues P)
     \<and> dom (map_of (p_queues P)) = provider_names P \<and> dom (map_of (p_batchers P)) = provider_names P
     \<and> (\<forall>p b. map_of (p_batchers P) p = Some b \<longrightarrow> Provider b = p)
     \<and> validateRouting (p_config P) = None"

text \<open>What no step changes.\<close>

definition same_setup :: "pipeline \<Rightarrow> pipeline \<Rightarrow> bool" where
  "same_setup P P' \<longleftrightarrow> p_config P' = p_config P \<and> p_batchers P' = p_batchers P"

lemma same_setup_refl [simp]: "same_setup P P" "same_setup P (P\<lparr>p_stores := s\<rparr>)"
  "same_setup P (P\<lparr>p_queues := qs\<rparr>)" "same_setup P (P\<lparr>p_obs := ob\<rparr>)" "same_setup P (P\<lparr>p_received := n\<rparr>)"
  "same_setup P (P'\<lparr>p_handlers := hs\<rparr>) = same_setup P P'"
  by (simp_all add: same_setup_def)

lemma same_setup_trans: "same_setup P P' \<Longrightarrow> same_setup P' P'' \<Longrightarrow> same_setup P P''"
  by (simp add: same_setup_def)

lemma sink_inv:
  assumes inv: "pipeline_inv P" and s: "walDispatchSink_Append e ps P = (err, P')"
    and known: "set ps \<subseteq> provider_names P"
  shows "pipeline_inv P'" "same_setup P P'"
    and "undelivered (p_stores P') = (if err = None
       then {(i, p) \<in> undelivered (p_stores P). i \<noteq> ID e} \<union> {ID e} \<times> set ps else undelivered (p_stores P))"
proof -
  have w: "wal_inv (bk_wal (p_stores P))" using inv by (simp add: pipeline_inv_def)
  note eff = wal_Append_effect [OF w]
  have "pipeline_inv P' \<and> same_setup P P' \<and> undelivered (p_stores P') = (if err = None
       then {(i, p) \<in> undelivered (p_stores P). i \<noteq> ID e} \<union> {ID e} \<times> set ps else undelivered (p_stores P))"
    using s
  proof (cases rule: sink_cases)
    case (wal_failed werr w')
    with eff [OF wal_failed(1)] inv show ?thesis
      by (simp add: pipeline_inv_def same_setup_def provider_names_def undelivered_def)
  next
    case (appended w' qs)
    let ?enq = "batcher_Enqueue (bk_now (p_stores P))"
    have "set ps \<subseteq> dom (map_of (p_queues P))" using inv known by (simp add: pipeline_inv_def)
    from Dispatch_known [OF this, of ?enq e] appended(2)
    have d: "err = None" "map_ok (p_queues P) \<longrightarrow> map_ok qs" by simp_all
    have "dom (map_of qs) = dom (map_of (p_queues P))"
      using Dispatch_dom [of ?enq e ps "p_queues P"] appended(2) by simp
    with eff [OF appended(1)] d appended(3) inv show ?thesis
      by (simp add: pipeline_inv_def same_setup_def provider_names_def undelivered_def pairs_event)
  qed
  then show "pipeline_inv P'" "same_setup P P'"
    "undelivered (p_stores P') = (if err = None
       then {(i, p) \<in> undelivered (p_stores P). i \<noteq> ID e} \<union> {ID e} \<times> set ps else undelivered (p_stores P))"
    by blast+
qed

lemma provider_names_setup: "same_setup P P' \<Longrightarrow> provider_names P' = provider_names P"
  by (simp add: same_setup_def provider_names_def)

text \<open>A group of appends: the invariant, and which pairs come and go.\<close>

definition only_ids :: "string set \<Rightarrow> pipeline \<Rightarrow> pipeline \<Rightarrow> bool" where
  "only_ids I P P' \<longleftrightarrow> pipeline_inv P' \<and> same_setup P P'
     \<and> (\<forall>i p. i \<notin> I \<longrightarrow> ((i, p) \<in> undelivered (p_stores P') \<longleftrightarrow> (i, p) \<in> undelivered (p_stores P)))
     \<and> snd ` undelivered (p_stores P') \<subseteq> snd ` undelivered (p_stores P) \<union> provider_names P"

lemma only_ids_refl: "pipeline_inv P \<Longrightarrow> only_ids I P P"
  by (auto simp: only_ids_def)

lemma only_ids_trans:
  assumes "only_ids I P P'" "only_ids J P' P''"
  shows "only_ids (I \<union> J) P P''"
proof -
  have "provider_names P' = provider_names P" using assms(1) by (simp add: only_ids_def provider_names_setup)
  then have "snd ` undelivered (p_stores P'') \<subseteq> snd ` undelivered (p_stores P') \<union> provider_names P"
    using assms(2) unfolding only_ids_def by metis
  moreover have "snd ` undelivered (p_stores P') \<subseteq> snd ` undelivered (p_stores P) \<union> provider_names P"
    using assms(1) unfolding only_ids_def by blast
  ultimately have "snd ` undelivered (p_stores P'') \<subseteq> snd ` undelivered (p_stores P) \<union> provider_names P"
    by blast
  moreover have "same_setup P P''" using assms unfolding only_ids_def by (blast intro: same_setup_trans)
  ultimately show ?thesis using assms unfolding only_ids_def by blast
qed

lemma sink_only:
  assumes "pipeline_inv P" "walDispatchSink_Append e ps P = (err, P')" "set ps \<subseteq> provider_names P"
  shows "only_ids {ID e} P P'"
  using sink_inv [OF assms] assms(3) by (auto simp: only_ids_def split: if_splits)

lemma acceptable_known:
  "acceptable (pipeline_receiver P) now e \<Longrightarrow> set (routed (pipeline_receiver P) e) \<subseteq> provider_names P"
  by (auto simp: acceptable_def pipeline_receiver_def provider_names_def)

lemma received_simps [simp]:
  "pipeline_inv (P\<lparr>p_received := n\<rparr>) = pipeline_inv P"
  "same_setup P (P'\<lparr>p_received := n\<rparr>) = same_setup P P'"
  by (simp_all add: pipeline_inv_def provider_names_def same_setup_def)

lemma only_dlq:
  "pipeline_inv P \<Longrightarrow> only_ids I P (P\<lparr>p_stores := (p_stores P)\<lparr>bk_dlq := d\<rparr>\<rparr>)"
  by (auto simp: only_ids_def pipeline_inv_def same_setup_def provider_names_def)

lemma store_only:
  assumes "pipeline_inv P"
  shows "st_List pipeline_store p P = (r, P') \<Longrightarrow> only_ids {} P P'"
    and "st_ListPoison pipeline_store p P = (r, P') \<Longrightarrow> only_ids {} P P'"
    and "st_Remove pipeline_store p ids P = (e, P') \<Longrightarrow> only_ids {} P P'"
  using only_dlq [OF assms] by (auto simp: pipeline_store_def Let_def split: prod.splits)

lemma list_records_only:
  assumes "pipeline_inv P" "list_records pipeline_store rq P = (r, P')"
  shows "only_ids {} P P'"
proof -
  obtain r1 P1 where l: "st_List pipeline_store (rq_provider rq) P = (r1, P1)" by fastforce
  have one: "only_ids {} P P1" using assms(1) l by (rule store_only)
  then have inv1: "pipeline_inv P1" by (simp add: only_ids_def)
  obtain r2 P2 where p: "st_ListPoison pipeline_store (rq_provider rq) P1 = (r2, P2)" by fastforce
  have "only_ids {} P1 P2" using inv1 p by (rule store_only)
  then have two: "only_ids {} P P2" using only_ids_trans [OF one] by fastforce
  show ?thesis
    using assms(2) l p one two by (auto simp: list_records_def split: sum.splits if_splits)
qed

lemma list_records_handlers: "list_records pipeline_store rq P = (r, P') \<Longrightarrow> p_handlers P' = p_handlers P"
  by (auto simp: list_records_def pipeline_store_def Let_def split: prod.splits sum.splits if_splits)

lemma batching_keeps:
  assumes inv: "pipeline_inv P" and b: "map_of (p_batchers P) p = Some b" "map_of (p_queues P) p = Some s"
    and st: "bstep b pipeline_backend (s\<lparr>b_env := p_env P\<rparr>) l s'"
    and P': "P' = P\<lparr>p_queues := AList.update p s' (p_queues P),
       p_stores := env_backend (b_env s'), p_obs := env_obs (b_env s')\<rparr>"
  shows "pipeline_inv P'" "same_setup P P'" "undelivered (p_stores P') \<subseteq> undelivered (p_stores P)"
    and "(i, q) \<in> undelivered (p_stores P) \<Longrightarrow>
      (\<And>e t. q = p \<Longrightarrow> (e, t) \<in># settled l \<Longrightarrow> ID e \<noteq> i) \<Longrightarrow> (i, q) \<in> undelivered (p_stores P')"
proof -
  have env: "env_backend (b_env (s\<lparr>b_env := p_env P\<rparr>)) = p_stores P" by (simp add: p_env_def)
  have w: "wal_inv (bk_wal (p_stores P))" using inv by (simp add: pipeline_inv_def)
  have pr: "Provider b = p" using inv b(1) unfolding pipeline_inv_def by blast
  note k = backend.step_keeps [OF st, unfolded env pr, OF w]
  have "p \<in> dom (map_of (p_queues P))" using b(2) by blast
  then show "pipeline_inv P'"
    using k(1) inv by (simp add: P' pipeline_inv_def provider_names_def insert_absorb)
  show "same_setup P P'" by (simp add: P' same_setup_def)
  show "(i, q) \<in> undelivered (p_stores P) \<Longrightarrow>
      (\<And>e t. q = p \<Longrightarrow> (e, t) \<in># settled l \<Longrightarrow> ID e \<noteq> i) \<Longrightarrow> (i, q) \<in> undelivered (p_stores P')"
    using k(2) by (simp add: P')
  show "undelivered (p_stores P') \<subseteq> undelivered (p_stores P)"
    using backend.step_shrinks [OF st, unfolded env, OF w] by (simp add: P')
qed

lemma clock_only:
  "pipeline_inv P \<Longrightarrow> only_ids I P (P\<lparr>p_stores := (p_stores P)\<lparr>bk_now := now\<rparr>\<rparr>)"
  by (auto simp: only_ids_def pipeline_inv_def same_setup_def provider_names_def)

text \<open>The handlers in service only ever address providers that are configured.\<close>

fun handler_providers :: "handler \<Rightarrow> string set" where
  "handler_providers (Ingesting n xs) = (\<Union>(e, ps) \<in> set xs. set ps)"
| "handler_providers (Replaying rq rs res) = {rq_provider rq}"

definition served :: "pipeline \<Rightarrow> bool" where
  "served P \<longleftrightarrow> pipeline_inv P \<and> (\<forall>h \<in> set (p_handlers P). handler_providers h \<subseteq> provider_names P)"

lemma handlers_simps [simp]:
  "pipeline_inv (P\<lparr>p_handlers := hs\<rparr>) = pipeline_inv P"
  "provider_names (P\<lparr>p_handlers := hs\<rparr>) = provider_names P"
  by (simp_all add: pipeline_inv_def provider_names_def)

lemma served_from:
  assumes "only_ids I P P'" "\<forall>h \<in> set hs. handler_providers h \<subseteq> provider_names P"
  shows "served (P'\<lparr>p_handlers := hs\<rparr>)"
  using assms provider_names_setup [of P P'] by (auto simp: served_def only_ids_def)

text \<open>The IDs whose entry a step may rewrite; a batcher's step is treated apart.\<close>

fun rewritten :: "plabel \<Rightarrow> string set" where
  "rewritten (Appended e ps) = {ID e}"
| "rewritten (Reinjected e p) = {ID e}"
| "rewritten _ = {}"

definition batcher_step :: "plabel \<Rightarrow> bool" where
  "batcher_step l \<longleftrightarrow> (\<exists>p bl. l = Batching p bl)"

lemma sink_failed:
  assumes "pipeline_inv P" "walDispatchSink_Append e ps P = (Some err, P')" "set ps \<subseteq> provider_names P"
  shows "only_ids {} P P'"
  using sink_inv [OF assms] by (auto simp: only_ids_def)

lemma finish_only:
  assumes "pipeline_inv P" "replay_finish p res P = (err, P')"
  shows "only_ids {} P P'"
  using assms store_only(3) [OF assms(1)] by (auto simp: replay_finish_def only_ids_refl split: if_splits)

lemma only_handlers [simp]: "only_ids I P (P'\<lparr>p_handlers := hs\<rparr>) = only_ids I P P'"
  by (simp add: only_ids_def)

lemma accept_known:
  assumes "route_all (pipeline_receiver P) now es = Inr xs"
  shows "handler_providers (Ingesting n xs) \<subseteq> provider_names P"
  using assms acceptable_known [of P now] by (auto simp: route_all_Inr list_all_iff)

lemma step_handlers:
  assumes st: "pstep P l P'" and sv: "served P" and nb: "\<not> batcher_step l"
  shows "\<forall>h \<in> set (p_handlers P'). handler_providers h \<subseteq> provider_names P"
proof -
  have hp: "\<forall>h \<in> set (p_handlers P). handler_providers h \<subseteq> provider_names P"
    using sv by (simp add: served_def)
  show ?thesis
    using st
  proof (cases rule: pstep.cases)
    case (accept es xs)
    then show ?thesis using hp accept_known [OF accept(4), of "length es"] by auto
  next
    case (listed rq records P'')
    then have "rq_provider rq \<in> provider_names P"
      by (auto simp: admin_check_def provider_names_def split: if_splits)
    then show ?thesis using hp listed(2) by (auto simp: replay_start_def)
  next
    case (list_fails rq err)
    then show ?thesis using hp list_records_handlers [OF list_fails(3)] by simp
  qed (use hp nb in \<open>auto simp: batcher_step_def\<close>)
qed

lemma step_only:
  assumes st: "pstep P l P'" and sv: "served P" and nb: "\<not> batcher_step l"
  shows "only_ids (rewritten l) P P'"
proof -
  have inv: "pipeline_inv P" using sv by (simp add: served_def)
  have hp: "handler_providers h \<subseteq> provider_names P" if "h \<in> set (p_handlers P)" for h
    using sv that by (simp add: served_def)
  show ?thesis
    using st
  proof (cases rule: pstep.cases)
    case (append hs n e ps xs hs')
    then have "set ps \<subseteq> provider_names P" using hp [of "Ingesting n ((e, ps) # xs)"] by simp
    then show ?thesis using append sink_only [OF inv append(4)] by simp
  next
    case (append_fails hs n e ps xs hs' err P'')
    then have "set ps \<subseteq> provider_names P" using hp [of "Ingesting n ((e, ps) # xs)"] by simp
    then show ?thesis using append_fails sink_failed [OF inv append_fails(4)] by simp
  next
    case (listed rq records P'')
    then show ?thesis using list_records_only [OF inv listed(4)] by simp
  next
    case (list_fails rq err)
    then show ?thesis using list_records_only [OF inv list_fails(3)] by simp
  next
    case (reinject hs rq r rs res hs' P'')
    then have "set [rq_provider rq] \<subseteq> provider_names P" using hp [of "Replaying rq (r # rs) res"] by simp
    then show ?thesis using reinject sink_only [OF inv reinject(4)] by simp
  next
    case (reinject_fails hs rq r rs res hs' err P'')
    then have "set [rq_provider rq] \<subseteq> provider_names P" using hp [of "Replaying rq (r # rs) res"] by simp
    then show ?thesis using reinject_fails sink_failed [OF inv reinject_fails(4)] by simp
  next
    case (remove hs rq res hs' err P'')
    then show ?thesis using finish_only [OF inv remove(4)] by simp
  next
    case (respond hs n hs')
    then show ?thesis using inv
      by (simp add: only_ids_def pipeline_inv_def same_setup_def provider_names_def)
  qed (use nb inv clock_only [OF inv] in \<open>auto simp: batcher_step_def only_ids_refl\<close>)
qed

lemma request_step:
  assumes st: "pstep P l P'" and sv: "served P" and nb: "\<not> batcher_step l"
  shows "only_ids (rewritten l) P P' \<and> served P'"
proof -
  have o: "only_ids (rewritten l) P P'" using assms by (rule step_only)
  have "served (P'\<lparr>p_handlers := p_handlers P'\<rparr>)"
    using o step_handlers [OF assms] by (rule served_from)
  with o show ?thesis by simp
qed

lemma pstep_inv:
  assumes "pstep P l P'" "served P"
  shows "served P' \<and> same_setup P P'
    \<and> snd ` undelivered (p_stores P') \<subseteq> snd ` undelivered (p_stores P) \<union> provider_names P"
proof (cases "batcher_step l")
  case False
  from request_step [OF assms this] show ?thesis by (auto simp: only_ids_def)
next
  case True
  have inv: "pipeline_inv P" using assms(2) by (simp add: served_def)
  show ?thesis
    using assms(1)
  proof (cases rule: pstep.cases)
    case (batching p b s bl s')
    note k = batching_keeps [OF inv batching(3,4,5) batching(2)]
    have "p_handlers P' = p_handlers P" using batching(2) by simp
    then have "served P'" using k(1,2) assms(2) provider_names_setup [OF k(2)] by (simp add: served_def)
    with k show ?thesis by blast
  qed (use True in \<open>simp_all add: batcher_step_def\<close>)
qed

lemma pruns_inv:
  "pruns P0 ls P \<Longrightarrow> served P0 \<Longrightarrow> served P \<and> same_setup P0 P
     \<and> snd ` undelivered (p_stores P) \<subseteq> snd ` undelivered (p_stores P0) \<union> provider_names P0"
proof (induction rule: pruns.induct)
  case (pmore ls P l P')
  then have "served P" "same_setup P0 P"
    "snd ` undelivered (p_stores P) \<subseteq> snd ` undelivered (p_stores P0) \<union> provider_names P0" by simp_all
  with pstep_inv [OF pmore.hyps(2)] provider_names_setup [of P0 P] same_setup_trans [of P0 P P']
  show ?case by blast
qed simp

text \<open>The steps that may take a delivery off the books, or rewrite its entry.\<close>

fun touches :: "string \<Rightarrow> string \<Rightarrow> plabel \<Rightarrow> bool" where
  "touches i p (Batching q l) \<longleftrightarrow> q = p \<and> (\<exists>x \<in> set_mset (settled l). ID (fst x) = i)"
| "touches i p (Appended e ps) \<longleftrightarrow> ID e = i \<and> p \<notin> set ps"
| "touches i p (Reinjected e q) \<longleftrightarrow> ID e = i \<and> q \<noteq> p"
| "touches i p _ \<longleftrightarrow> False"

lemma pstep_writes:
  assumes st: "pstep P l P'" and sv: "served P"
    and l: "l = Appended e ps \<or> (\<exists>q. l = Reinjected e q \<and> ps = [q])"
  shows "{i. (ID e, i) \<in> undelivered (p_stores P')} = set ps"
proof -
  have inv: "pipeline_inv P" using sv by (simp add: served_def)
  have hp: "handler_providers h \<subseteq> provider_names P" if "h \<in> set (p_handlers P)" for h
    using sv that by (simp add: served_def)
  obtain P1 hs where s: "walDispatchSink_Append e ps P = (None, P1)" "P' = P1\<lparr>p_handlers := hs\<rparr>"
    and ps: "set ps \<subseteq> provider_names P"
    using l st by (auto elim!: pstep.cases dest: hp [OF in_set_conv_decomp [THEN iffD2], OF exI, OF exI])
  from sink_inv(3) [OF inv s(1) ps] s(2) show ?thesis by auto
qed

lemma pstep_keeps:
  assumes st: "pstep P l P'" and sv: "served P" and u: "(i, p) \<in> undelivered (p_stores P)"
    and t: "\<not> touches i p l"
  shows "(i, p) \<in> undelivered (p_stores P')"
proof (cases "batcher_step l")
  case True
  have inv: "pipeline_inv P" using sv by (simp add: served_def)
  show ?thesis
    using st
  proof (cases rule: pstep.cases)
    case (batching q b s bl s')
    have "ID e \<noteq> i" if "p = q" "(e, t') \<in># settled bl" for e t'
      using t that batching(1) by force
    then show ?thesis
      using batching_keeps(4) [OF inv batching(3,4,5) batching(2) u] by blast
  qed (use True in \<open>simp_all add: batcher_step_def\<close>)
next
  case False
  note o = request_step [OF st sv False]
  show ?thesis
  proof (cases "i \<in> rewritten l")
    case False
    with o u show ?thesis by (simp add: only_ids_def)
  next
    case True
    with t obtain e ps where "l = Appended e ps \<or> (\<exists>q. l = Reinjected e q \<and> ps = [q])" "ID e = i" "p \<in> set ps"
      by (cases l) auto
    with pstep_writes [OF st sv, of e ps] show ?thesis by auto
  qed
qed

lemma pruns_keeps:
  "pruns P0 ls P \<Longrightarrow> served P0 \<Longrightarrow> (i, p) \<in> undelivered (p_stores P0) \<Longrightarrow>
     \<forall>l \<in> set ls. \<not> touches i p l \<Longrightarrow> (i, p) \<in> undelivered (p_stores P)"
proof (induction rule: pruns.induct)
  case (pmore ls P l P')
  have "served P" using pruns_inv [OF pmore.hyps(1) pmore.prems(1)] by blast
  moreover have "(i, p) \<in> undelivered (p_stores P)" using pmore by simp
  ultimately show ?case using pmore.prems(3) pstep_keeps [OF pmore.hyps(2)] by simp
qed simp

section \<open>Starting up\<close>

lemma Enqueue_all:
  "senders (fold (batcher_Enqueue now) es s) = senders s
     @ map (\<lambda>e. \<lparr>q_event = e, q_attempt = 0, q_firstQueue = instant now\<rparr>) es"
  by (induction es arbitrary: s) (simp_all add: batcher_Enqueue_def)

lemma Build_cases:
  assumes "Build cfg0 getenv disk0 dlqfiles dlqfaults now = Returns (Inr P)"
  obtains w d dq bs logs where
    "wal_Open defaultMaxSegmentBytes (buffer_MaxBytes (applyDefaults cfg0)) disk0 = (Inr w, d)"
    "validateRouting (applyDefaults cfg0) = None"
    "build_batchers getenv (Providers (applyDefaults cfg0)) = Inr bs"
    "p_config P = applyDefaults cfg0" "p_stores P = \<lparr>bk_wal = w, bk_dlq = dq, bk_now = now\<rparr>"
    "p_batchers P = bs"
    "ReplayPending (batcher_Enqueue now) (wal_Pending w)
       (map (\<lambda>(name, b). (name, batcher_New \<lparr>env_backend = p_stores P, env_obs = []\<rparr>)) bs) = (logs, p_queues P)"
  using assms
  by (auto simp: Build_def Let_def split: if_splits option.splits sum.splits prod.splits open_error.splits)
    (metis prod.collapse)

lemma Build_queues:
  assumes b: "Build cfg0 getenv disk0 dlqfiles dlqfaults now = Returns (Inr P)" and mo: "map_ok (files disk0)"
    and pm: "map_ok (Providers cfg0)"
  shows "pipeline_inv P"
    and "map_of (p_queues P) p = Some s \<Longrightarrow>
      map q_event (senders s) = sent_to p (wal_Pending (bk_wal (p_stores P)))"
proof -
  obtain w d dq bs logs where op: "wal_Open defaultMaxSegmentBytes (buffer_MaxBytes (applyDefaults cfg0)) disk0 = (Inr w, d)"
    and v: "validateRouting (applyDefaults cfg0) = None"
    and bb: "build_batchers getenv (Providers (applyDefaults cfg0)) = Inr bs"
    and c: "p_config P = applyDefaults cfg0" and st: "p_stores P = \<lparr>bk_wal = w, bk_dlq = dq, bk_now = now\<rparr>"
    and pb: "p_batchers P = bs"
    and rp: "ReplayPending (batcher_Enqueue now) (wal_Pending w)
       (map (\<lambda>(name, b). (name, batcher_New \<lparr>env_backend = p_stores P, env_obs = []\<rparr>)) bs) = (logs, p_queues P)"
    by (rule Build_cases [OF b]) (rule that)
  let ?q0 = "map (\<lambda>(name, b). (name, batcher_New \<lparr>env_backend = p_stores P, env_obs = []\<rparr>)) bs"
  have names: "map fst bs = map fst (Providers (applyDefaults cfg0))" by (rule build_batchers_names [OF bb])
  have same: "map fst (Providers (applyDefaults cfg0)) = map fst (Providers cfg0)"
    by (simp add: applyDefaults_def o_def case_prod_beta)
  have dist: "distinct (map fst bs)" using pm names same by (simp add: map_ok_def)
  have fst0: "map fst ?q0 = map fst bs" by (simp add: o_def case_prod_beta)
  then have q0: "map_ok ?q0" using dist by (simp only: map_ok_def)
  from ReplayPending_fold [of "batcher_Enqueue now" "wal_Pending w" "[]" ?q0] rp
  have q: "map_of (p_queues P) = (\<lambda>p. map_option (fold (batcher_Enqueue now) (sent_to p (wal_Pending w))) (map_of ?q0 p))"
    and qo: "map_ok (p_queues P)" using q0 by (simp_all add: ReplayPending_def)
  have "dom (map_of (p_queues P)) = dom (map_of ?q0)" unfolding q by (auto simp: dom_def)
  also have "\<dots> = set (map fst bs)" by (simp only: dom_map_of_conv_image_fst fst0 [symmetric] set_map)
  finally have "dom (map_of (p_queues P)) = provider_names P"
    by (simp only: provider_names_def c names)
  moreover have "dom (map_of (p_batchers P)) = provider_names P"
    unfolding provider_names_def c pb names [symmetric] by (simp add: dom_map_of_conv_image_fst)
  moreover have "Provider b = p" if "map_of (p_batchers P) p = Some b" for p b
    using build_batchers_provider [OF bb] map_of_SomeD [OF that] by (simp add: pb)
  moreover have "wal_inv w" using mo op by (rule wal_Open_inv)
  ultimately show "pipeline_inv P" using qo v by (simp add: pipeline_inv_def st c)
  assume "map_of (p_queues P) p = Some s"
  then obtain s0 where "map_of ?q0 p = Some s0" "s = fold (batcher_Enqueue now) (sent_to p (wal_Pending w)) s0"
    unfolding q by auto
  moreover from this have "senders s0 = []"
    using map_of_SomeD [of ?q0 p s0] by (auto simp: batcher_New_def)
  ultimately show "map q_event (senders s) = sent_to p (wal_Pending (bk_wal (p_stores P)))"
    by (simp add: Enqueue_all st o_def)
qed

lemma pending_sent:
  assumes "wal_inv (bk_wal s)" "(i, p) \<in> undelivered s"
  shows "\<exists>e \<in> set (sent_to p (wal_Pending (bk_wal s))). ID e = i"
proof -
  obtain en where en: "map_of (w_index (bk_wal s)) i = Some en" "p \<in> set (es_pending en)"
    using assms(2) by (auto simp: undelivered_def pairs_def outstanding_def)
  then have "(es_event en, es_pending en) \<in> set (wal_Pending (bk_wal s))"
    using map_of_SomeD [OF en(1)] by (force simp: wal_Pending_def)
  then have "es_event en \<in> set (sent_to p (wal_Pending (bk_wal s)))"
    using en(2) by (force simp: sent_to_def)
  moreover have "ID (es_event en) = i" using assms(1) en(1) by (simp add: wal_inv_def keyed_def)
  ultimately show ?thesis by blast
qed

end
