(* ===== verification/Serving.thy ===== *)
theory Serving
  imports Pipeline
begin

text \<open>
  A request served alone. The handlers' functions (\<open>pipeline_Ingest\<close>,
  \<open>pipeline_replay\<close>) are the schedules of the running pipeline in which the handler
  takes all its steps in a row.
\<close>

section \<open>The sink and the store do not see the handlers\<close>

lemma sink_handlers:
  assumes "walDispatchSink_Append e ps P = (err, P')"
  shows "walDispatchSink_Append e ps (P\<lparr>p_handlers := H\<rparr>) = (err, P'\<lparr>p_handlers := H\<rparr>)" "p_handlers P' = p_handlers P"
  using assms by (auto simp: walDispatchSink_Append_def split: prod.splits option.splits)

lemma store_handlers:
  "st_List pipeline_store p (P\<lparr>p_handlers := H\<rparr>) = map_prod id (p_handlers_update (\<lambda>_. H)) (st_List pipeline_store p P)"
  "st_ListPoison pipeline_store p (P\<lparr>p_handlers := H\<rparr>) = map_prod id (p_handlers_update (\<lambda>_. H)) (st_ListPoison pipeline_store p P)"
  "st_Remove pipeline_store p ids (P\<lparr>p_handlers := H\<rparr>) = map_prod id (p_handlers_update (\<lambda>_. H)) (st_Remove pipeline_store p ids P)"
  by (simp_all add: pipeline_store_def Let_def split: prod.split)

lemma handlers_id [simp]: "P\<lparr>p_handlers := p_handlers P\<rparr> = P"
  by simp

section \<open>Ingest\<close>

definition append_labels :: "(Event \<times> string list) list \<Rightarrow> plabel list" where
  "append_labels xs = map (\<lambda>(e, ps). Appended e ps) xs"

lemma pruns_step: "pstep P l Q \<Longrightarrow> pruns Q ls R \<Longrightarrow> pruns P (l # ls) R"
  using pruns_append [OF _ pruns_single, of Q ls R P l] by simp

lemma append_run:
  "append_all walDispatchSink_Append xs P = (None, P1) \<Longrightarrow>
     pruns (P\<lparr>p_handlers := H @ [Ingesting n xs]\<rparr>) (append_labels xs) (P1\<lparr>p_handlers := H @ [Ingesting n []]\<rparr>)
     \<and> p_handlers P1 = p_handlers P"
proof (induction xs arbitrary: P)
  case Nil
  then show ?case by (simp add: append_labels_def pstart)
next
  case (Cons x xs)
  obtain e ps where x: "x = (e, ps)" by (cases x)
  obtain P2 where s: "walDispatchSink_Append e ps P = (None, P2)"
    and rest: "append_all walDispatchSink_Append xs P2 = (None, P1)"
    using Cons.prems by (auto simp: x split: prod.splits option.splits)
  have "pstep (P\<lparr>p_handlers := H @ [Ingesting n (x # xs)]\<rparr>) (Appended e ps) (P2\<lparr>p_handlers := H @ [Ingesting n xs]\<rparr>)"
    using pstep.append [of "P\<lparr>p_handlers := H @ [Ingesting n (x # xs)]\<rparr>" H n e ps xs "[]"
        "P2\<lparr>p_handlers := H @ [Ingesting n (x # xs)]\<rparr>"] sink_handlers(1) [OF s]
    by (simp add: x)
  from pruns_step [OF this] Cons.IH [OF rest] sink_handlers(2) [OF s] show ?case
    by (simp add: append_labels_def x)
qed

lemma append_run_fails:
  "append_all walDispatchSink_Append xs P = (Some err, P1) \<Longrightarrow>
     \<exists>ls. pruns (P\<lparr>p_handlers := H @ [Ingesting n xs]\<rparr>) ls (P1\<lparr>p_handlers := H\<rparr>) \<and> p_handlers P1 = p_handlers P"
proof (induction xs arbitrary: P)
  case (Cons x xs)
  obtain e ps where x: "x = (e, ps)" by (cases x)
  obtain er P2 where s: "walDispatchSink_Append e ps P = (er, P2)" by fastforce
  let ?P = "P\<lparr>p_handlers := H @ [Ingesting n (x # xs)]\<rparr>"
  show ?case
  proof (cases er)
    case None
    with Cons.prems s have "append_all walDispatchSink_Append xs P2 = (Some err, P1)" by (simp add: x)
    from Cons.IH [OF this] obtain ls where ls:
      "pruns (P2\<lparr>p_handlers := H @ [Ingesting n xs]\<rparr>) ls (P1\<lparr>p_handlers := H\<rparr>)" "p_handlers P1 = p_handlers P2" by blast
    have "pstep ?P (Appended e ps) (P2\<lparr>p_handlers := H @ [Ingesting n xs]\<rparr>)"
      using pstep.append [of ?P H n e ps xs "[]" "P2\<lparr>p_handlers := p_handlers ?P\<rparr>"] sink_handlers(1) [OF s] None
      by (simp add: x)
    from pruns_step [OF this ls(1)] ls(2) sink_handlers(2) [OF s] show ?thesis by auto
  next
    case (Some e')
    with Cons.prems s have "P1 = P2" by (simp add: x)
    moreover have "pstep ?P (AppendFailed e ps) (P2\<lparr>p_handlers := H\<rparr>)"
      using pstep.append_fails [of ?P H n e ps xs "[]" e' "P2\<lparr>p_handlers := p_handlers ?P\<rparr>"] sink_handlers(1) [OF s] Some
      by (simp add: x)
    ultimately show ?thesis using pruns_single sink_handlers(2) [OF s] by blast
  qed
qed simp

text \<open>An accepted request, from its first step to its answer.\<close>

lemma accepted_run:
  fixes P es
  defines "xs \<equiv> map (\<lambda>e. (e, routed (pipeline_receiver P) e)) es"
  assumes "es \<noteq> []" "route_all (pipeline_receiver P) (bk_now (p_stores P)) es = Inr xs"
    and "append_all walDispatchSink_Append xs P = (err, P1)"
  obtains ls where "pruns P ls (P1\<lparr>p_received := p_received P1 + (if err = None then length es else 0)\<rparr>)"
    "err = None \<Longrightarrow> ls = Accepted es # append_labels xs @ [Responded (length es)]"
proof -
  from assms(2,3) have acc: "pstep P (Accepted es) (P\<lparr>p_handlers := p_handlers P @ [Ingesting (length es) xs]\<rparr>)"
    by (rule pstep.accept)
  show ?thesis
  proof (cases err)
    case None
    from append_run [OF assms(4) [unfolded None], of "p_handlers P" "length es"] have r:
      "pruns (P\<lparr>p_handlers := p_handlers P @ [Ingesting (length es) xs]\<rparr>) (append_labels xs)
         (P1\<lparr>p_handlers := p_handlers P @ [Ingesting (length es) []]\<rparr>)" "p_handlers P1 = p_handlers P" by simp_all
    have "pstep (P1\<lparr>p_handlers := p_handlers P @ [Ingesting (length es) []]\<rparr>) (Responded (length es))
        (P1\<lparr>p_received := p_received P1 + length es\<rparr>)"
      using pstep.respond [of "P1\<lparr>p_handlers := p_handlers P @ [Ingesting (length es) []]\<rparr>" "p_handlers P" "length es" "[]"]
        r(2) by (cases P1) simp
    from pruns_step [OF acc pmore [OF r(1) this]] show ?thesis using None by (intro that) simp_all
  next
    case (Some e)
    with append_run_fails [OF assms(4) [unfolded Some], of "p_handlers P" "length es"] obtain ls where
      "pruns (P\<lparr>p_handlers := p_handlers P @ [Ingesting (length es) xs]\<rparr>) ls (P1\<lparr>p_handlers := p_handlers P\<rparr>)"
      "p_handlers P1 = p_handlers P" by blast
    then have "pruns P (Accepted es # ls) P1" using pruns_step [OF acc] by (metis handlers_id)
    then show ?thesis using Some by (intro that) simp_all
  qed
qed

lemma ingest_run:
  assumes "pipeline_Ingest es P = (err, P')"
  obtains ls where "pruns P ls P'"
    "err = None \<Longrightarrow> ls = Accepted es # append_labels (map (\<lambda>e. (e, routed (pipeline_receiver P) e)) es) @ [Responded (length es)]"
proof -
  let ?r = "pipeline_receiver P" and ?now = "bk_now (p_stores P)"
  let ?xs = "map (\<lambda>e. (e, routed ?r e)) es"
  obtain P1 n where g: "Ingest ?r walDispatchSink_Append ?now es P = (err, P1, n)"
    and P': "P' = P1\<lparr>p_received := p_received P1 + n\<rparr>"
    using assms by (auto simp: pipeline_Ingest_def split: prod.splits)
  show ?thesis
  proof (cases "\<exists>msg. err = Some (ValidationError msg)")
    case True
    then obtain msg where e: "err = Some (ValidationError msg)" by blast
    with Ingest_refused [of ?r walDispatchSink_Append ?now es P msg P1 n] g
    have "P1 = P" "n = 0" by simp_all
    moreover have "es = [] \<or> (\<exists>er. route_all ?r ?now es = Inl er)"
      using g e by (auto simp: Ingest_def dest!: append_all_error split: if_splits sum.splits prod.splits option.splits)
    ultimately have "pstep P (Refused es) P'" using P' by (auto intro: pstep.refuse)
    then show ?thesis using that pruns_single e by blast
  next
    case False
    with Ingest_routed [OF g] have a: "es \<noteq> []" "route_all ?r ?now es = Inr ?xs"
      "append_all walDispatchSink_Append ?xs P = (err, P1)" "n = (if err = None then length es else 0)"
      by (simp_all add: route_all_Inr)
    from a(1-3) show ?thesis by (rule accepted_run) (use a(4) P' that in simp)
  qed
qed

section \<open>Replay\<close>

lemma replay_loop_run:
  "replay_loop walDispatchSink_Append (rq_provider rq) rs (res, P) = (res', P') \<Longrightarrow>
     \<exists>ls. pruns (P\<lparr>p_handlers := H @ [Replaying rq rs res]\<rparr>) ls (P'\<lparr>p_handlers := H @ [Replaying rq [] res']\<rparr>)
        \<and> p_handlers P' = p_handlers P"
proof (induction rs arbitrary: res P)
  case Nil
  then show ?case using pstart by auto
next
  case (Cons r rs)
  obtain err P2 where s: "walDispatchSink_Append (rec_Event r) [rq_provider rq] P = (err, P2)" by fastforce
  let ?P = "P\<lparr>p_handlers := H @ [Replaying rq (r # rs) res]\<rparr>"
  define res2 where "res2 = (case err of None \<Rightarrow> note_replayed (rec_Event r) res | Some _ \<Rightarrow> note_failed (rec_Event r) res)"
  have "replay_loop walDispatchSink_Append (rq_provider rq) rs (res2, P2) = (res', P')"
    using Cons.prems s by (cases err) (simp_all add: res2_def note_replayed_def note_failed_def)
  from Cons.IH [OF this] obtain ls where ls:
    "pruns (P2\<lparr>p_handlers := H @ [Replaying rq rs res2]\<rparr>) ls (P'\<lparr>p_handlers := H @ [Replaying rq [] res']\<rparr>)"
    "p_handlers P' = p_handlers P2" by blast
  have "\<exists>l. pstep ?P l (P2\<lparr>p_handlers := H @ [Replaying rq rs res2]\<rparr>)"
  proof (cases err)
    case None
    then show ?thesis
      using pstep.reinject [of ?P H rq r rs res "[]" "P2\<lparr>p_handlers := p_handlers ?P\<rparr>"] sink_handlers(1) [OF s]
      by (auto simp: res2_def)
  next
    case (Some e)
    then show ?thesis
      using pstep.reinject_fails [of ?P H rq r rs res "[]" e "P2\<lparr>p_handlers := p_handlers ?P\<rparr>"] sink_handlers(1) [OF s]
      by (auto simp: res2_def)
  qed
  then obtain l where "pstep ?P l (P2\<lparr>p_handlers := H @ [Replaying rq rs res2]\<rparr>)" by blast
  from pruns_step [OF this ls(1)] ls(2) sink_handlers(2) [OF s] show ?case by auto
qed

lemma replay_run:
  assumes "pipeline_replay rq P = (resp, P')"
  obtains ls where "pruns P ls P'"
proof (cases "admin_check ''POST'' (map fst (Providers (p_config P))) rq")
  case (Some code)
  with assms have "P' = P" by (simp add: pipeline_replay_def dlqreplay_ServeHTTP_def)
  then show ?thesis using that pstart by blast
next
  case None
  obtain lr P1 where l: "list_records pipeline_store rq P = (lr, P1)" by fastforce
  note h1 = list_records_handlers [OF l]
  show ?thesis
  proof (cases lr)
    case (Inl e)
    with None l have "pstep P (ListFailed rq) P1" by (auto intro: pstep.list_fails)
    moreover have "P' = P1" using assms None l Inl by (simp add: pipeline_replay_def dlqreplay_ServeHTTP_def)
    ultimately show ?thesis using that pruns_single by blast
  next
    case (Inr records)
    let ?H = "p_handlers P" and ?r0 = "\<lparr>rr_Provider = rq_provider rq, rr_Replayed = [], rr_Failed = []\<rparr>"
    obtain res P2 where lo: "replay_loop walDispatchSink_Append (rq_provider rq) records (?r0, P1) = (res, P2)" by fastforce
    obtain err P3 where f: "replay_finish (rq_provider rq) res P2 = (err, P3)" by fastforce
    have "pstep P (Listed rq) (P1\<lparr>p_handlers := ?H @ [Replaying rq records ?r0]\<rparr>)"
      using pstep.listed [OF None l [unfolded Inr]] by (simp add: replay_start_def)
    moreover obtain ls where ls: "pruns (P1\<lparr>p_handlers := ?H @ [Replaying rq records ?r0]\<rparr>) ls
        (P2\<lparr>p_handlers := ?H @ [Replaying rq [] res]\<rparr>)" "p_handlers P2 = p_handlers P1"
      using replay_loop_run [OF lo, of ?H] by blast
    moreover have "replay_finish (rq_provider rq) res (P2\<lparr>p_handlers := ?H @ [Replaying rq [] res]\<rparr>)
        = (err, P3\<lparr>p_handlers := ?H @ [Replaying rq [] res]\<rparr>)"
      using f by (auto simp: replay_finish_def store_handlers split: if_splits)
    then have "pstep (P2\<lparr>p_handlers := ?H @ [Replaying rq [] res]\<rparr>) (Removed rq res err) (P3\<lparr>p_handlers := ?H\<rparr>)"
      using pstep.remove [of "P2\<lparr>p_handlers := ?H @ [Replaying rq [] res]\<rparr>" ?H rq res "[]"] by fastforce
    ultimately have "pruns P (Listed rq # ls @ [Removed rq res err]) (P3\<lparr>p_handlers := ?H\<rparr>)"
      by (meson pruns_step pmore)
    moreover have "p_handlers P3 = p_handlers P2"
      using f by (auto simp: replay_finish_def pipeline_store_def Let_def split: if_splits prod.splits)
    then have "P3\<lparr>p_handlers := ?H\<rparr> = P3" using ls(2) h1 by simp
    moreover have "P' = P3"
      using assms None l Inr lo f
      by (auto simp: pipeline_replay_def dlqreplay_ServeHTTP_def replay_finish_def split: if_splits option.splits)
    ultimately show ?thesis using that by simp
  qed
qed

section \<open>A batcher's own runs\<close>

lemma batcher_runs:
  assumes "bruns b pipeline_backend s0 ls s'" "map_of (p_batchers P) p = Some b" "map_of (p_queues P) p = Some s"
    and "s0 = s\<lparr>b_env := p_env P\<rparr>" "\<forall>q. Enqueued q \<notin> set ls" "ls \<noteq> []"
  shows "pruns P (map (Batching p) ls) (P\<lparr>p_queues := AList.update p s' (p_queues P),
    p_stores := env_backend (b_env s'), p_obs := env_obs (b_env s')\<rparr>)"
  using assms
proof (induction rule: bruns.induct)
  case (more ls t l t')
  have l: "l \<noteq> Enqueued q" for q using more.prems(4) by auto
  show ?case
  proof (cases "ls = []")
    case True
    with more.hyps(1) have "t = s0" by (auto elim: bruns.cases)
    with more.hyps(2) more.prems(3) have "bstep b pipeline_backend (s\<lparr>b_env := p_env P\<rparr>) l t'" by simp
    from pstep.batching [OF more.prems(1,2) this l] True show ?thesis by (simp add: pruns_single)
  next
    case False
    let ?P = "P\<lparr>p_queues := AList.update p t (p_queues P), p_stores := env_backend (b_env t), p_obs := env_obs (b_env t)\<rparr>"
    have run: "pruns P (map (Batching p) ls) ?P" using more False by simp
    have "t\<lparr>b_env := p_env ?P\<rparr> = t" by (cases t; cases "b_env t") (simp add: p_env_def)
    then have "bstep b pipeline_backend (t\<lparr>b_env := p_env ?P\<rparr>) l t'" using more.hyps(2) by simp
    from pstep.batching [of ?P p b t, OF _ _ this l] more.prems(1)
    have "pstep ?P (Batching p l) (P\<lparr>p_queues := AList.update p t' (p_queues P), p_stores := env_backend (b_env t'),
        p_obs := env_obs (b_env t')\<rparr>)" by simp
    from pmore [OF run this] show ?thesis by simp
  qed
qed simp

end
