(* ===== verification/Durable_Run.thy ===== *)
theory Durable_Run
  imports Serving
begin

text \<open>
  The log of a running pipeline stays durable: as long as no I/O fails and records fit a frame, every step
  of the running system leaves every committed record on disk and synced. With the recovery
  lemmas of \<open>Wal_Crash\<close> a rebuilt pipeline owes exactly what the crashed one owed.
\<close>

section \<open>Steps keep the log durable\<close>

definition log_durable :: "stores \<Rightarrow> bool" where
  "log_durable s \<longleftrightarrow> wal_durable (bk_wal s)"

lemma log_durable_simps [simp]:
  "log_durable (s\<lparr>bk_dlq := d\<rparr>) = log_durable s" "log_durable (s\<lparr>bk_now := n\<rparr>) = log_durable s"
  by (simp_all add: log_durable_def)

definition call_fits :: "string \<Rightarrow> call \<Rightarrow> bool" where
  "call_fits p c \<longleftrightarrow> (case c of CallAck i d \<Rightarrow> ack_fits i p d | CallPut e r m \<Rightarrow> True)"

lemma perform_durable:
  assumes "log_durable s" "call_fits (Provider b) c"
  shows "log_durable (perform b pipeline_backend c s)"
proof (cases c)
  case (CallAck i d)
  then obtain err w where "wal_Ack i (Provider b) d (bk_wal s) = (err, w)" "ack_fits i (Provider b) d"
    using assms(2) by (fastforce simp: call_fits_def)
  with assms(1) CallAck ack_durable(1) show ?thesis by (auto simp: log_durable_def pipeline_backend_def)
next
  case (CallPut e r m)
  with assms(1) show ?thesis by (auto simp: log_durable_def pipeline_backend_def split: prod.splits)
qed

lemma perform_all_durable:
  "log_durable s \<Longrightarrow> list_all (call_fits (Provider b)) cs \<Longrightarrow> log_durable (fold (perform b pipeline_backend) cs s)"
  by (induction cs arbitrary: s) (simp_all add: perform_durable del: perform.simps)

lemma job_durable:
  assumes "job_step b pipeline_backend tk j env = (r, env')" "log_durable (env_backend env)"
    and "list_all (call_fits (Provider b)) (job_calls j)"
  shows "log_durable (env_backend env')"
  unfolding job_step_calls [OF assms(1)] using assms(2,3) by (rule perform_all_durable)

fun plabel_fits :: "plabel \<Rightarrow> bool" where
  "plabel_fits (Batching p (Job (Acking q disp) rs)) \<longleftrightarrow> ack_fits (ID (q_event q)) p disp"
| "plabel_fits (Appended e ps) \<longleftrightarrow> append_fits e ps"
| "plabel_fits (AppendFailed e ps) \<longleftrightarrow> append_fits e ps"
| "plabel_fits (Reinjected e p) \<longleftrightarrow> append_fits e [p]"
| "plabel_fits (ReinjectFailed e p) \<longleftrightarrow> append_fits e [p]"
| "plabel_fits _ \<longleftrightarrow> True"

lemma sink_durable:
  assumes "walDispatchSink_Append e ps P = (err, P')" "append_fits e ps" "log_durable (p_stores P)"
  shows "log_durable (p_stores P')"
proof -
  obtain er w where a: "wal_Append e ps (bk_wal (p_stores P)) = (er, w)" by fastforce
  have "wal_durable w" using append_durable(1) [OF _ assms(2) a] assms(3) by (simp add: log_durable_def)
  with assms(1) a show ?thesis
    by (auto simp: walDispatchSink_Append_def log_durable_def split: option.splits prod.splits)
qed

lemma store_durable:
  "st_List pipeline_store p P = (r, P') \<Longrightarrow> log_durable (p_stores P') = log_durable (p_stores P)"
  "st_ListPoison pipeline_store p P = (r, P') \<Longrightarrow> log_durable (p_stores P') = log_durable (p_stores P)"
  "st_Remove pipeline_store p ids P = (e, P') \<Longrightarrow> log_durable (p_stores P') = log_durable (p_stores P)"
  by (auto simp: pipeline_store_def Let_def split: prod.splits)

lemma list_durable: "list_records pipeline_store rq P = (r, P') \<Longrightarrow> log_durable (p_stores P') = log_durable (p_stores P)"
  by (auto simp: list_records_def dest!: store_durable split: prod.splits sum.splits if_splits)

lemma pstep_durable:
  assumes "pstep P l P'" "served P" "log_durable (p_stores P)" "plabel_fits l"
  shows "log_durable (p_stores P')"
  using assms(1)
proof (cases rule: pstep.cases)
  case (batching p b s bl s')
  have pr: "Provider b = p" using assms(2) batching(3) by (simp add: served_def pipeline_inv_def)
  show ?thesis
    using batching(5)
  proof (cases rule: bstep.cases)
    case (sent xs batch ys st js env')
    then show ?thesis using assms(3) flush_start_jobs(3) [OF sent(4)] by (simp add: batching p_env_def)
  next
    case (job xs j js ys tk js' rs env')
    have "list_all (call_fits (Provider b)) (job_calls j)"
      using assms(4) by (cases j) (simp_all add: batching(1) job(1) call_fits_def pr)
    then show ?thesis
      using job_durable [OF job(4)] assms(3) job(2) by (simp add: batching(2) p_env_def)
  qed (use assms(3) in \<open>auto simp: batching p_env_def run_flush_def run_receive_def Let_def\<close>)
qed (use assms(3,4) sink_durable list_durable store_durable in \<open>auto simp: replay_finish_def split: if_splits\<close>)

lemma pruns_durable:
  "pruns P0 ls P \<Longrightarrow> served P0 \<Longrightarrow> log_durable (p_stores P0) \<Longrightarrow> list_all plabel_fits ls \<Longrightarrow> log_durable (p_stores P)"
proof (induction rule: pruns.induct)
  case (pmore ls P l P')
  then have "served P" using pruns_inv by blast
  with pmore show ?case using pstep_durable by simp
qed simp

section \<open>Starting again\<close>

text \<open>What the queues hold after start-up is what the log owes to each provider.\<close>

lemma sent_pending:
  assumes "wal_inv (bk_wal s)" "e \<in> set (sent_to p (wal_Pending (bk_wal s)))"
  shows "(ID e, p) \<in> undelivered s"
proof -
  obtain i en where en: "(i, en) \<in> set (w_index (bk_wal s))" "es_event en = e" "p \<in> set (es_pending en)"
    using assms(2) by (auto simp: sent_to_def wal_Pending_def)
  then have "map_of (w_index (bk_wal s)) i = Some en" using assms(1) by (simp add: wal_inv_def map_ok_def map_of_is_SomeI)
  with en assms(1) show ?thesis by (auto simp: wal_inv_def keyed_def undelivered_def pairs_def outstanding_def)
qed

lemma queue_of_pending:
  assumes "wal_inv (bk_wal s)"
  shows "ID ` set (sent_to p (wal_Pending (bk_wal s))) = {i. (i, p) \<in> undelivered s}"
  using sent_pending [OF assms] pending_sent [OF assms] by blast

lemma rebuild:
  assumes w: "log_durable s" and c: "crash_of (w_disk (bk_wal s)) d"
    and b: "Build cfg getenv d dlqfiles flts now = Returns (Inr P')" and mo: "map_ok (Providers cfg)"
  shows "served P' \<and> log_durable (p_stores P') \<and> undelivered (p_stores P') = undelivered s
     \<and> (\<forall>p st. map_of (p_queues P') p = Some st \<longrightarrow> (ID \<circ> q_event) ` set (senders st) = {i. (i, p) \<in> undelivered s})"
proof -
  have fd: "map_ok (files d)" using c by (simp add: crash_of_def)
  obtain w d' dq where op: "wal_Open defaultMaxSegmentBytes (buffer_MaxBytes (applyDefaults cfg)) d = (Inr w, d')"
    and st: "p_stores P' = \<lparr>bk_wal = w, bk_dlq = dq, bk_now = now\<rparr>"
    by (rule Build_cases [OF b]) (rule that)
  obtain w' d'' where "wal_Open defaultMaxSegmentBytes (buffer_MaxBytes (applyDefaults cfg)) d = (Inr w', d'')"
    "wal_durable w'" "outstanding (w_index w') = outstanding (w_index (bk_wal s))"
    by (rule recover_index [OF w [unfolded log_durable_def] c]) (rule that)
  with op have d: "log_durable (p_stores P')" and u: "undelivered (p_stores P') = undelivered s"
    by (simp_all add: log_durable_def undelivered_def st)
  have inv: "pipeline_inv P'" by (rule Build_queues(1) [OF b fd mo])
  have "p_handlers P' = []" using b
    by (auto simp: Build_def Let_def split: if_splits option.splits sum.splits prod.splits open_error.splits)
  with inv have "served P'" by (simp add: served_def)
  moreover have "(ID \<circ> q_event) ` set (senders q) = {i. (i, p) \<in> undelivered s}"
    if "map_of (p_queues P') p = Some q" for p q
  proof -
    have "(ID \<circ> q_event) ` set (senders q) = ID ` set (map q_event (senders q))" by (simp add: image_comp)
    also have "\<dots> = {i. (i, p) \<in> undelivered s}"
      using queue_of_pending [of "p_stores P'" p] inv Build_queues(2) [OF b fd mo that] u by (simp add: pipeline_inv_def)
    finally show ?thesis .
  qed
  ultimately show ?thesis using d u by blast
qed

text \<open>The first start, on an empty disk.\<close>

lemma first_start:
  assumes b: "Build cfg getenv d dlqfiles flts now = Returns (Inr P)" and mo: "map_ok (Providers cfg)"
    and d: "files d = []" "faults d = []"
  shows "served P \<and> log_durable (p_stores P) \<and> undelivered (p_stores P) = {}"
proof -
  obtain w d' dq where op: "wal_Open defaultMaxSegmentBytes (buffer_MaxBytes (applyDefaults cfg)) d = (Inr w, d')"
    and st: "p_stores P = \<lparr>bk_wal = w, bk_dlq = dq, bk_now = now\<rparr>"
    by (rule Build_cases [OF b]) (rule that)
  have mf: "map_ok (files d)" using d by (simp add: map_ok_def)
  obtain w' d'' where "wal_Open defaultMaxSegmentBytes (buffer_MaxBytes (applyDefaults cfg)) d = (Inr w', d'')"
    "wal_durable w'" "w_index w' = log_index (disk_log d (segment_seqs d))"
    using open_durable [of d defaultMaxSegmentBytes "buffer_MaxBytes (applyDefaults cfg)"] d mf
    by (auto simp: synced_but_def)
  moreover have "disk_log d (segment_seqs d) = []" using d by (simp add: segment_seqs_def disk_log_def)
  ultimately have "log_durable (p_stores P)" "undelivered (p_stores P) = {}"
    using op by (simp_all add: log_durable_def st undelivered_def pairs_def outstanding_def log_index_def)
  moreover have "p_handlers P = []" using b
    by (auto simp: Build_def Let_def split: if_splits option.splits sum.splits prod.splits open_error.splits)
  ultimately show ?thesis using Build_queues(1) [OF b mf mo] by (simp add: served_def)
qed

section \<open>Many lives\<close>

text \<open>
  A daemon over its crashes: it runs, loses its process at any moment, and is built again, possibly
  on another configuration and another dead-letter directory, on what the crash left of the log.
\<close>

inductive lives :: "pipeline \<Rightarrow> plabel list \<Rightarrow> pipeline \<Rightarrow> bool" for P0 :: pipeline where
  born: "lives P0 [] P0"
| lives_on: "lives P0 ls P \<Longrightarrow> pstep P l P' \<Longrightarrow> lives P0 (ls @ [l]) P'"
| reborn: "lives P0 ls P \<Longrightarrow> crash_of (w_disk (bk_wal (p_stores P))) d \<Longrightarrow>
    Build cfg getenv d dlqfiles flts now = Returns (Inr P') \<Longrightarrow> map_ok (Providers cfg) \<Longrightarrow> lives P0 ls P'"

lemma lives_durable:
  "lives P0 ls P \<Longrightarrow> served P0 \<Longrightarrow> log_durable (p_stores P0) \<Longrightarrow> list_all plabel_fits ls \<Longrightarrow>
     served P \<and> log_durable (p_stores P)"
proof (induction rule: lives.induct)
  case (lives_on ls P l P')
  then show ?case using pstep_inv pstep_durable by auto
next
  case (reborn ls P d cfg getenv dlqfiles flts now P')
  then show ?case using rebuild by blast
qed simp

lemma lives_keep:
  "lives P0 ls P \<Longrightarrow> served P0 \<Longrightarrow> log_durable (p_stores P0) \<Longrightarrow> list_all plabel_fits ls \<Longrightarrow>
     (i, p) \<in> undelivered (p_stores P0) \<Longrightarrow> \<forall>l \<in> set ls. \<not> touches i p l \<Longrightarrow> (i, p) \<in> undelivered (p_stores P)"
proof (induction rule: lives.induct)
  case (lives_on ls P l P')
  then have "served P" using lives_durable by auto
  with lives_on show ?case using pstep_keeps by auto
next
  case (reborn ls P d cfg getenv dlqfiles flts now P')
  then have "log_durable (p_stores P)" using lives_durable by blast
  with reborn show ?case using rebuild by blast
qed simp

text \<open>A life can be cut at any of its steps.\<close>

lemma lives_split:
  "lives P0 ls P \<Longrightarrow> ls = as @ l # bs \<Longrightarrow> \<exists>Q R. lives P0 as Q \<and> pstep Q l R \<and> lives R bs P"
proof (induction arbitrary: bs rule: lives.induct)
  case (lives_on ls P k P')
  show ?case
  proof (cases bs rule: rev_cases)
    case Nil
    with lives_on show ?thesis by (auto intro: lives.born)
  next
    case (snoc bs' x)
    with lives_on show ?thesis by (auto intro: lives.lives_on)
  qed
next
  case (reborn ls P d cfg getenv dlqfiles flts now P')
  then show ?case by (blast intro: lives.reborn)
qed simp

end
