(* ===== verification/Small_Pipeline.thy ===== *)
theory Small_Pipeline
  imports Wal_Props Dlq_Props Durable_Run
begin

text \<open>
  A pipeline with one Metronome provider and one small event, on which the
  properties that span components are witnessed: built from an empty disk, serving
  one ingest, rebuilt after a crash, and replaying one dead letter.
\<close>

section \<open>A small pipeline\<close>

definition demo_config :: Config where
  "demo_config = \<lparr>listen_HTTP = [], listen_GRPC = [], buffer_Dir = [], buffer_MaxBytes = 0, buffer_OnFull = [],
     Providers = [(''p'', \<lparr>pc_Type = ''metronome'', pc_Endpoint = [], pc_TokenEnv = ''T'',
        pc_Batch = \<lparr>MaxEvents = 0, cfg_Linger = 0\<rparr>, pc_Retry = \<lparr>cfg_MaxElapsed = 0, cfg_MaxInterval = 0\<rparr>\<rparr>)],
     routing_Default = [''p''], routing_Rules = []\<rparr>"

definition demo_bat :: batcher where
  "demo_bat = \<lparr>Provider = ''p'', b_Adapter = metronome_adapter ((metronome_New [] ''token'')\<lparr>m_MaxBatch := 500\<rparr>),
     b_Retry = \<lparr>InitialBackoff = 0, MaxBackoff = 2 * 60 * second_ns, MaxElapsed = 30 * 60 * second_ns\<rparr>,
     has_Metrics = True, has_Logger = True\<rparr>"

definition start_wal :: wal where
  "start_wal = demo_wal\<lparr>maxSegmentBytes := defaultMaxSegmentBytes\<rparr>"

definition demo_stores :: "dlq \<Rightarrow> stores" where
  "demo_stores d = \<lparr>bk_wal = start_wal, bk_dlq = d, bk_now = zero_time\<rparr>"

definition demo_pipeline :: "dlq \<Rightarrow> pipeline" where
  "demo_pipeline d = \<lparr>p_config = applyDefaults demo_config, p_stores = demo_stores d, p_obs = [],
     p_batchers = [(''p'', demo_bat)],
     p_queues = [(''p'', batcher_New \<lparr>env_backend = demo_stores d, env_obs = []\<rparr>)],
     p_received = 0, p_handlers = []\<rparr>"

lemma start_open: "wal_Open defaultMaxSegmentBytes 0 empty_disk = (Inr start_wal, w_disk start_wal)"
  by (simp add: wal_Open_def empty_disk_def demo_wal_def start_wal_def os_call_none segment_seqs_def
      replayed_segments_def open_active_def createSegment_def os_create_none next_seq_of_def set_file_def)

lemma demo_defaults: "Providers (applyDefaults demo_config) = [(''p'', \<lparr>pc_Type = ''metronome'', pc_Endpoint = [],
    pc_TokenEnv = ''T'', pc_Batch = \<lparr>MaxEvents = 500, cfg_Linger = 10 * second_ns\<rparr>,
    pc_Retry = \<lparr>cfg_MaxElapsed = 30 * 60 * second_ns, cfg_MaxInterval = 2 * 60 * second_ns\<rparr>\<rparr>)]"
  "buffer_OnFull (applyDefaults demo_config) = ''reject''" "buffer_MaxBytes (applyDefaults demo_config) = 0"
  "routing_Default (applyDefaults demo_config) = [''p'']" "routing_Rules (applyDefaults demo_config) = []"
  by (simp_all add: applyDefaults_def demo_config_def provider_defaults_def)

lemma demo_build:
  assumes "dlq_Open fs [] = Inr d"
  shows "Build demo_config (\<lambda>_. ''token'') empty_disk fs [] zero_time = Returns (Inr (demo_pipeline d))"
  using assms start_open
  by (simp add: Build_def demo_defaults validateRouting_def unknown_name_def buildAdapter_def retry_policy_def
      wal_Pending_def start_wal_def demo_wal_def ReplayPending_def demo_pipeline_def demo_stores_def demo_bat_def
      Let_def)

lemma empty_open: "dlq_Open [] [] = Inr empty_dlq"
  by (simp add: dlq_Open_def dlq_call_def dlq_fault_def empty_dlq_def)

lemma demo_serving:
  "pipeline_inv (demo_pipeline empty_dlq)" "served (demo_pipeline empty_dlq)"
proof -
  show "pipeline_inv (demo_pipeline empty_dlq)"
    by (rule Build_queues(1) [OF demo_build [OF empty_open]])
      (simp_all add: empty_disk_def demo_config_def map_ok_def)
  then show "served (demo_pipeline empty_dlq)" by (simp add: served_def demo_pipeline_def)
qed

lemma start_durable: "wal_durable start_wal"
  using demo_durable by (simp add: start_wal_def wal_durable_def wal_inv_def disk_ok_def active_segment_def)

lemma demo_fits2: "append_fits demo_event [''p'', ''q'']"
proof -
  have "length (to_bytes (json_text (eventPayload_json \<lparr>pl_Event = demo_event, pl_Providers = [''p'', ''q'']\<rparr>))) < 1000"
    unfolding eventPayload_json_def event_json_def demo_event_def Event.simps eventPayload.simps demo_time_text
    by code_simp
  then show ?thesis by (simp add: append_fits_def marshal_eventPayload_def)
qed

lemma start_accepts: "settings w = settings start_wal \<Longrightarrow> \<exists>q. append_request demo_event ps w = Inr q"
  by (simp add: append_request_def marshal_eventPayload_def demo_marshal settings_def start_wal_def demo_wal_def Let_def)

lemma start_append:
  assumes "append_fits demo_event ps"
  shows "\<exists>w1. wal_Append demo_event ps start_wal = (None, w1) \<and> wal_durable w1 \<and> settings w1 = settings start_wal
     \<and> outstanding (w_index w1) ''e1'' = Some (demo_event, remdups ps)"
proof -
  obtain err w1 where a: "wal_Append demo_event ps start_wal = (err, w1)" by fastforce
  obtain q where q: "append_request demo_event ps start_wal = Inr q" using start_accepts [OF refl] by blast
  have "err = None"
    using submit_durable(2) [OF start_durable append_request_good(1) [OF q assms]] a q by (simp add: wal_Append_def)
  then show ?thesis
    using a append_durable [OF start_durable assms a] by (intro exI [of _ w1]) (simp add: demo_event_def)
qed

lemma demo_ID: "ID demo_event = ''e1''"
  by (simp add: demo_event_def)

lemma demo_sink:
  "\<exists>P1. walDispatchSink_Append demo_event [''p''] (demo_pipeline d) = (None, P1)
     \<and> wal_durable (bk_wal (p_stores P1)) \<and> (''e1'', ''p'') \<in> undelivered (p_stores P1)"
proof -
  obtain w1 where w1: "wal_Append demo_event [''p''] start_wal = (None, w1)" "wal_durable w1"
    "outstanding (w_index w1) ''e1'' = Some (demo_event, [''p''])" using start_append [OF demo_fits] by auto
  then show ?thesis
    by (simp add: walDispatchSink_Append_def demo_pipeline_def demo_stores_def undelivered_def pairs_def)
qed

lemma demo_dead_ack: "ack_fits ''e1'' ''p'' DeadLetter"
proof -
  have "length (to_bytes (json_text (ackPayload_json
      \<lparr>ack_EventID = ''e1'', ack_Provider = ''p'', ack_Disposition = int (Disposition_int DeadLetter)\<rparr>))) < 100"
    by code_simp
  then show ?thesis by (simp add: ack_fits_def marshal_ackPayload_def)
qed

section \<open>Serving, rebuilding, replaying\<close>

definition demo_ingesting :: pipeline where
  "demo_ingesting = (demo_pipeline empty_dlq)\<lparr>p_handlers := [Ingesting 1 [(demo_event, [''p''])]]\<rparr>"

lemma demo_ingesting_served: "served demo_ingesting"
  using demo_serving by (simp add: demo_ingesting_def served_def)
    (simp add: provider_names_def demo_pipeline_def demo_defaults)

lemma demo_routes:
  "route_all (pipeline_receiver (demo_pipeline d)) (bk_now (p_stores (demo_pipeline d))) [demo_event] = Inr [(demo_event, [''p''])]"
  by (simp add: route_event_def validate_def enrich_def demo_event_def demo_time_def IsZero_def After_def time_Add_def
      maxFutureTimestamp_def zero_time_def demo_pipeline_def demo_stores_def pipeline_receiver_def
      StaticRouter_Route_def config_router_def demo_defaults)

lemma demo_accepted: "pstep (demo_pipeline empty_dlq) (Accepted [demo_event]) demo_ingesting"
proof -
  have "pstep (demo_pipeline empty_dlq) (Accepted [demo_event])
      ((demo_pipeline empty_dlq)\<lparr>p_handlers := p_handlers (demo_pipeline empty_dlq) @ [Ingesting (length [demo_event]) [(demo_event, [''p''])]]\<rparr>)"
    using demo_routes by (intro pstep.accept) simp_all
  then show ?thesis by (simp add: demo_ingesting_def) (simp add: demo_pipeline_def)
qed

lemma demo_appended:
  "\<exists>P1. pstep demo_ingesting (Appended demo_event [''p'']) P1 \<and> wal_durable (bk_wal (p_stores P1))
     \<and> (''e1'', ''p'') \<in> undelivered (p_stores P1)"
proof -
  obtain P1 where P1: "walDispatchSink_Append demo_event [''p''] (demo_pipeline empty_dlq) = (None, P1)"
    "wal_durable (bk_wal (p_stores P1))" "(''e1'', ''p'') \<in> undelivered (p_stores P1)" using demo_sink by blast
  have "pstep demo_ingesting (Appended demo_event [''p''])
      (P1\<lparr>p_handlers := p_handlers demo_ingesting\<rparr>\<lparr>p_handlers := [] @ Ingesting 1 [] # []\<rparr>)"
    using sink_handlers(1) [OF P1(1), of "p_handlers demo_ingesting"]
    by (intro pstep.append) (simp_all add: demo_ingesting_def)
  with P1(2,3) show ?thesis by fastforce
qed

lemma demo_rebuild:
  assumes "wal_Open defaultMaxSegmentBytes 0 d = (Inr w, d')"
  obtains P where "Build demo_config (\<lambda>_. ''token'') d [] [] zero_time = Returns (Inr P)"
proof -
  obtain logs qs where "ReplayPending (batcher_Enqueue zero_time) (wal_Pending w)
      [(''p'', batcher_New \<lparr>env_backend = \<lparr>bk_wal = w, bk_dlq = empty_dlq, bk_now = zero_time\<rparr>, env_obs = []\<rparr>)] = (logs, qs)"
    by fastforce
  then have "\<exists>P. Build demo_config (\<lambda>_. ''token'') d [] [] zero_time = Returns (Inr P)"
    using assms empty_open
    by (simp add: Build_def demo_defaults validateRouting_def unknown_name_def buildAdapter_def retry_policy_def Let_def)
  then show ?thesis using that by blast
qed

definition demo_replay :: admin_request where
  "demo_replay = \<lparr>rq_Method = ''POST'', rq_provider = ''p'', rq_include_poison = []\<rparr>"

definition demo_replaying :: "wal \<Rightarrow> pipeline" where
  "demo_replaying w = (demo_pipeline empty_dlq)\<lparr>p_stores := (demo_stores empty_dlq)\<lparr>bk_wal := w\<rparr>,
     p_handlers := [replay_start demo_replay [put_record zero_time ''p'' demo_event ''no'' True empty_dlq]]\<rparr>"

lemma demo_replaying_served:
  assumes "wal_inv w"
  shows "served (demo_replaying w)"
  using demo_serving(1) assms
  by (simp add: demo_replaying_def served_def replay_start_def demo_replay_def pipeline_inv_def provider_names_def)
    (simp add: demo_pipeline_def demo_defaults)

end
