(* ===== verification/Replay_Race.thy ===== *)
theory Replay_Race
  imports Small_Pipeline
begin

text \<open>
  A schedule of the running pipeline in which a DLQ replay destroys the record
  of the failure it caused: the replayed event is flushed, refused and parked anew between the
  replay's append and its removal.
\<close>

abbreviation demo_record :: dlq_record where
  "demo_record \<equiv> put_record zero_time ''p'' demo_event ''no'' True empty_dlq"

abbreviation demo_queued :: queued where
  "demo_queued \<equiv> \<lparr>q_event = demo_event, q_attempt = 0, q_firstQueue = instant zero_time\<rparr>"

lemma demo_attempts: "max_attempts ''e1'' [demo_record] = 1" "max_attempts ''e1'' [] = 0"
  by (simp_all add: max_attempts_def put_record_def Let_def demo_event_def attempts_of_def empty_dlq_def get0_def
      get_map_def)

lemma demo_poison_good:
  assumes "attempts_of d ''p'' ''e1'' = 1"
  shows "good_rec (put_record zero_time ''p'' demo_event (error_text (SendError 400 [])) True d)"
    "rec_Poisoned (put_record zero_time ''p'' demo_event (error_text (SendError 400 [])) True d)"
proof -
  have t: "show_int 400 = ''400''" "show_int 2 = ''2''" by code_simp+
  have r: "put_record zero_time ''p'' demo_event (error_text (SendError 400 [])) True d =
    \<lparr>rec_Provider = ''p'', rec_Event = demo_event, rec_Reason = ''metronome: unexpected status 400: '',
     rec_Timestamp = zero_time, rec_Attempts = 2, rec_Poisoned = True\<rparr>"
    using assms by (simp add: put_record_def zero_UTC poison_threshold_def permanentPoisonThreshold_def demo_ID
        sendError_Error_def t)
  have "length (line_of \<lparr>rec_Provider = ''p'', rec_Event = demo_event, rec_Reason = ''metronome: unexpected status 400: '',
      rec_Timestamp = zero_time, rec_Attempts = 2, rec_Poisoned = True\<rparr>) < 1000"
    unfolding line_of_def record_json_def event_json_def demo_event_def Event.select_convs
      dlq_record.select_convs demo_time_text zero_time_text t
    by (simp only: if_True append_Nil2) code_simp
  then show "good_rec (put_record zero_time ''p'' demo_event (error_text (SendError 400 [])) True d)"
    unfolding r using demo_marshal zero_marshal by (simp add: good_rec_def maxLine_def)
  show "rec_Poisoned (put_record zero_time ''p'' demo_event (error_text (SendError 400 [])) True d)" unfolding r by simp
qed

text \<open>A flush answered with status 400 parks the event and takes it off the books.\<close>

abbreviation demo_refusal :: go_error where
  "demo_refusal \<equiv> SendError 400 []"

lemma demo_refused:
  "flush_start demo_bat (metronome_answer (Response 400 [])) [demo_queued] env = ([Resolving demo_queued DeadLetter (Some demo_refusal)],
     env\<lparr>env_obs := env_obs env @ [FlushLatency ''p'', RecordSendError ''p'' DeadLetter]\<rparr>)"
  by (simp add: flush_start_def demo_bat_def metronome_adapter_def metronome_Encode_def metronome_answer_def
      metronome_Classify_def observe_def Let_def)

lemma demo_rejected:
  assumes "dlq_well d" "attempts_of d ''p'' ''e1'' = 1" "wal_durable w" "\<not> w_closed w"
    and "outstanding (w_index w) ''e1'' = Some (demo_event, [''p''])"
  obtains w' d' where "batcher_deadLetter demo_bat pipeline_backend demo_queued (error_text demo_refusal) True
      \<lparr>env_backend = \<lparr>bk_wal = w, bk_dlq = d, bk_now = zero_time\<rparr>, env_obs = obs\<rparr>
    = \<lparr>env_backend = \<lparr>bk_wal = w', bk_dlq = d', bk_now = zero_time\<rparr>, env_obs = obs @ [RecordAck ''p'' DeadLetter]\<rparr>"
    "dlq_well d'" "outstanding (w_index w') ''e1'' = None"
proof -
  obtain d' where d': "dlq_Put zero_time ''p'' demo_event (error_text demo_refusal) True d = (None, d')" "dlq_well d'"
    by (rule dlq_put_well [OF assms(1) demo_poison_good(1) [OF assms(2)] demo_plain]) (rule that)
  obtain err w' where a: "wal_Ack ''e1'' ''p'' DeadLetter w = (err, w')" by fastforce
  note ack = ack_durable [OF assms(3) demo_dead_ack a]
  have e: "err = None" "outstanding (w_index w') ''e1'' = None" using ack assms(4,5) by (simp_all add: spec_op_def)
  show ?thesis
    by (rule that [of w' d'])
      (use d' a e in \<open>simp_all add: demo_bat_def batcher_deadLetter_def deadLetter_put_def batcher_ack_def
        pipeline_backend_def observe_def Let_def demo_ID\<close>)
qed

definition demo_result :: replay_result where
  "demo_result = \<lparr>rr_Provider = ''p'', rr_Replayed = [''e1''], rr_Failed = []\<rparr>"

lemma demo_listed:
  assumes "dlq_well d" "recs d (regularPath ''p'') = [demo_record]"
  shows "pstep (demo_pipeline d) (Listed demo_replay) ((demo_pipeline d)\<lparr>p_handlers := [replay_start demo_replay [demo_record]]\<rparr>)"
proof -
  have l: "dlq_List ''p'' d = (Inr [demo_record], d)"
    using dlq_list_none(1) [of d "''p''"] assms by (simp add: dlq_well_def)
  have "list_records pipeline_store demo_replay (demo_pipeline d) = (Inr [demo_record], demo_pipeline d)"
    by (simp add: list_records_def pipeline_store_def demo_replay_def Let_def demo_pipeline_def demo_stores_def l)
  moreover have "admin_check ''POST'' (map fst (Providers (p_config (demo_pipeline d)))) demo_replay = None"
    by (simp add: admin_check_def demo_replay_def demo_pipeline_def demo_defaults)
  ultimately show ?thesis
    using pstep.listed [of "demo_pipeline d" demo_replay "[demo_record]" "demo_pipeline d"]
    by (simp add: demo_pipeline_def)
qed

text \<open>After the replay's append: the log \<open>w\<close> owes the event, which waits at the batcher's channel.\<close>

definition demo_requeued :: "dlq \<Rightarrow> wal \<Rightarrow> pipeline" where
  "demo_requeued d w =
     (let st = \<lparr>bk_wal = w, bk_dlq = d, bk_now = zero_time\<rparr> in
      (demo_pipeline d)\<lparr>p_stores := st,
        p_queues := [(''p'', (batcher_New \<lparr>env_backend = demo_stores d, env_obs = []\<rparr>)\<lparr>senders := [demo_queued]\<rparr>)],
        p_handlers := [Replaying demo_replay [] demo_result]\<rparr>)"

lemma rec_Event_put [simp]: "rec_Event (put_record now p e reason permanent d) = e"
  by (simp add: put_record_def Let_def)

lemma demo_reinjected:
  assumes "wal_Append demo_event [''p''] start_wal = (None, w)"
  shows "pstep ((demo_pipeline d)\<lparr>p_handlers := [replay_start demo_replay [demo_record]]\<rparr>)
     (Reinjected demo_event ''p'') (demo_requeued d w)"
proof -
  let ?P = "(demo_pipeline d)\<lparr>p_handlers := [replay_start demo_replay [demo_record]]\<rparr>"
  let ?P' = "(demo_requeued d w)\<lparr>p_handlers := p_handlers ?P\<rparr>"
  have s: "walDispatchSink_Append demo_event [''p''] ?P = (None, ?P')"
    using assms by (simp add: walDispatchSink_Append_def demo_pipeline_def demo_stores_def demo_requeued_def
        batcher_Enqueue_def batcher_New_def Let_def)
  have h: "p_handlers ?P = [] @ Replaying demo_replay [demo_record] \<lparr>rr_Provider = ''p'', rr_Replayed = [], rr_Failed = []\<rparr> # []"
    "rec_Event demo_record = demo_event" "rq_provider demo_replay = ''p''"
    by (simp_all add: replay_start_def demo_replay_def)
  from pstep.reinject [OF h(1), of ?P'] s h(2,3) show ?thesis
    by (simp add: note_replayed_def demo_requeued_def demo_result_def demo_ID Let_def)
qed

lemma demo_removed:
  assumes "dlq_well d" "p_handlers P = [Replaying demo_replay [] demo_result]" "bk_dlq (p_stores P) = d"
  obtains d' where "pstep P (Removed demo_replay demo_result None)
      (P\<lparr>p_handlers := [], p_stores := (p_stores P)\<lparr>bk_dlq := d'\<rparr>\<rparr>)"
    "recs d' (regularPath ''p'') = without [''e1''] (recs d (regularPath ''p''))"
    "recs d' (poisonPath ''p'') = without [''e1''] (recs d (poisonPath ''p''))"
proof -
  obtain err d' where r: "dlq_Remove ''p'' [''e1''] d = (err, d')" by fastforce
  note x = dlq_remove_well [OF assms(1) demo_plain _ r]
  have f: "replay_finish ''p'' demo_result P = (None, P\<lparr>p_stores := (p_stores P)\<lparr>bk_dlq := d'\<rparr>\<rparr>)"
    using x r assms(3) by (simp add: replay_finish_def demo_result_def pipeline_store_def Let_def)
  have h: "p_handlers P = [] @ Replaying demo_replay [] demo_result # []" "rq_provider demo_replay = ''p''"
    using assms(2) by (simp_all add: demo_replay_def)
  from pstep.remove [OF h(1)] f h(2)
  have "pstep P (Removed demo_replay demo_result None) (P\<lparr>p_stores := (p_stores P)\<lparr>bk_dlq := d'\<rparr>\<rparr>\<lparr>p_handlers := []\<rparr>)"
    by fastforce
  moreover have "P\<lparr>p_stores := (p_stores P)\<lparr>bk_dlq := d'\<rparr>\<rparr>\<lparr>p_handlers := []\<rparr>
      = P\<lparr>p_handlers := [], p_stores := (p_stores P)\<lparr>bk_dlq := d'\<rparr>\<rparr>" by (cases P) simp
  ultimately show ?thesis using that x by simp
qed

text \<open>The flush in between: refused with status 400, parked and acked, one call at a time.\<close>

definition race_flush :: "label list" where
  "race_flush = [Internal, Internal, Internal, Internal,
     Answered [demo_queued] (metronome_answer (Response 400 [])), Job (Resolving demo_queued DeadLetter (Some demo_refusal)) [],
     Job (Parking demo_queued (error_text demo_refusal) True) [], Job (Acking demo_queued DeadLetter) [], Internal]"

definition race_labels :: "plabel list" where
  "race_labels = [Listed demo_replay, Reinjected demo_event ''p''] @ map (Batching ''p'') race_flush
     @ [Removed demo_replay demo_result None]"

definition race_flushed :: "dlq \<Rightarrow> wal \<Rightarrow> wal \<Rightarrow> dlq \<Rightarrow> pipeline" where
  "race_flushed d w w' d' =
     (let env = \<lparr>env_backend = \<lparr>bk_wal = w', bk_dlq = d', bk_now = zero_time\<rparr>,
        env_obs = [FlushLatency ''p'', RecordSendError ''p'' DeadLetter, RecordAck ''p'' DeadLetter]\<rparr> in
      (demo_requeued d w)\<lparr>p_queues := [(''p'', batcher_New env)], p_stores := env_backend env, p_obs := env_obs env\<rparr>)"

lemma demo_flushed:
  assumes "batcher_deadLetter demo_bat pipeline_backend demo_queued (error_text demo_refusal) True
      \<lparr>env_backend = \<lparr>bk_wal = w, bk_dlq = d, bk_now = zero_time\<rparr>,
       env_obs = [FlushLatency ''p'', RecordSendError ''p'' DeadLetter]\<rparr>
    = \<lparr>env_backend = \<lparr>bk_wal = w', bk_dlq = d', bk_now = zero_time\<rparr>,
       env_obs = [FlushLatency ''p'', RecordSendError ''p'' DeadLetter] @ [RecordAck ''p'' DeadLetter]\<rparr>"
  shows "pruns (demo_requeued d w) (map (Batching ''p'') race_flush) (race_flushed d w w' d')"
proof -
  let ?Q = "demo_requeued d w" and ?start = "\<lparr>env_backend = \<lparr>bk_wal = w, bk_dlq = d, bk_now = zero_time\<rparr>, env_obs = []\<rparr>"
  have max: "1 < effective_max demo_bat"
    by (simp add: effective_max_def demo_bat_def metronome_adapter_def metronome_MaxBatchSize_def MaxBatchSize_limit_def)
  have snd: "Send (b_Adapter demo_bat) body (metronome_answer (Response 400 []))" for body
    by (auto simp: demo_bat_def metronome_adapter_def)
  have q: "map_of (p_queues ?Q) ''p'' = Some ((batcher_New \<lparr>env_backend = demo_stores d, env_obs = []\<rparr>)\<lparr>senders := [demo_queued]\<rparr>)"
    "map_of (p_batchers ?Q) ''p'' = Some demo_bat"
    by (simp_all add: demo_requeued_def demo_pipeline_def Let_def)
  show ?thesis
    using batcher_runs [OF parked_run [OF max demo_refused snd, of pipeline_backend ?start] q(2,1)] assms
    by (simp add: demo_requeued_def demo_pipeline_def p_env_def Let_def batcher_New_def race_flush_def race_flushed_def
        del: env_backend_deadLetter)
qed

lemma demo_race:
  assumes "dlq_well d" "recs d (regularPath ''p'') = [demo_record]" "attempts_of d ''p'' ''e1'' = 1"
  shows "\<exists>P. pruns (demo_pipeline d) race_labels P \<and> (ID demo_event, ''p'') \<notin> undelivered (p_stores P)
     \<and> ID demo_event \<notin> (ID \<circ> rec_Event) ` (set (recs (bk_dlq (p_stores P)) (regularPath ''p''))
          \<union> set (recs (bk_dlq (p_stores P)) (poisonPath ''p'')))
     \<and> RecordAck ''p'' Ok \<notin> set (p_obs P)"
proof -
  obtain w where w: "wal_Append demo_event [''p''] start_wal = (None, w)" "wal_durable w" "settings w = settings start_wal"
    "outstanding (w_index w) ''e1'' = Some (demo_event, [''p''])" using start_append [OF demo_fits] by auto
  have cl: "\<not> w_closed w" using w(3) by (simp add: settings_def start_wal_def demo_wal_def)
  obtain w' d' where fl: "batcher_deadLetter demo_bat pipeline_backend demo_queued (error_text demo_refusal) True
      \<lparr>env_backend = \<lparr>bk_wal = w, bk_dlq = d, bk_now = zero_time\<rparr>,
       env_obs = [FlushLatency ''p'', RecordSendError ''p'' DeadLetter]\<rparr>
    = \<lparr>env_backend = \<lparr>bk_wal = w', bk_dlq = d', bk_now = zero_time\<rparr>,
       env_obs = [FlushLatency ''p'', RecordSendError ''p'' DeadLetter] @ [RecordAck ''p'' DeadLetter]\<rparr>"
    "dlq_well d'" "outstanding (w_index w') ''e1'' = None"
    by (rule demo_rejected [OF assms(1,3) w(2) cl w(4)]) (rule that)
  let ?R = "race_flushed d w w' d'"
  have R: "p_handlers ?R = [Replaying demo_replay [] demo_result]" "bk_dlq (p_stores ?R) = d'" "bk_wal (p_stores ?R) = w'"
    "RecordAck ''p'' Ok \<notin> set (p_obs ?R)"
    by (simp_all add: race_flushed_def demo_requeued_def Let_def)
  obtain d'' where d'': "pstep ?R (Removed demo_replay demo_result None)
      (?R\<lparr>p_handlers := [], p_stores := (p_stores ?R)\<lparr>bk_dlq := d''\<rparr>\<rparr>)" (is "pstep _ _ ?S")
    "recs d'' (regularPath ''p'') = without [''e1''] (recs d' (regularPath ''p''))"
    "recs d'' (poisonPath ''p'') = without [''e1''] (recs d' (poisonPath ''p''))"
    by (rule demo_removed [OF fl(2) R(1,2)]) (rule that)
  have "pruns (demo_pipeline d) race_labels ?S"
    using pruns_step [OF demo_listed [OF assms(1,2)] pruns_step [OF demo_reinjected [OF w(1)]
      pmore [OF demo_flushed [OF fl(1)] d''(1)]]]
    by (simp add: race_labels_def)
  moreover have "ID demo_event \<notin> (ID \<circ> rec_Event) ` (set (recs d'' (regularPath ''p'')) \<union> set (recs d'' (poisonPath ''p'')))"
    unfolding d''(2,3) by (auto simp: without_def demo_ID)
  moreover have "(ID demo_event, ''p'') \<notin> undelivered (p_stores ?S)"
    using fl(3) R(3) by (simp add: undelivered_def pairs_def demo_ID)
  ultimately show ?thesis using R(4) by (intro exI [of _ ?S] conjI) simp_all
qed

end
