(* ===== verification/Request_Props.thy ===== *)
theory Request_Props
  imports Replay_Race
begin

text \<open>
  Properties of a request that is served without interleaving, on the running pipeline: what an ingest
  leaves in the log and what a replay of dead letters leaves in the queue and in the log. They rest on
  the sink's and the store's contracts, which the pipeline keeps.
\<close>

section \<open>Ingest\<close>

lemma append_all_received:
  "append_all walDispatchSink_Append xs P = (res, P') \<Longrightarrow> p_received P' = p_received P"
proof (induction xs arbitrary: P)
  case (Cons x xs)
  obtain e ps where x: "x = (e, ps)" by (cases x)
  have "walDispatchSink_Append e ps P = (err, P1) \<Longrightarrow> p_received P1 = p_received P" for err P1
    by (auto elim!: sink_cases)
  with Cons x show ?case by (fastforce split: prod.splits option.splits)
qed simp

text \<open>
  C17. What an ingest leaves in the log: a request refused as invalid has changed nothing and was not entirely acceptable;
  an accepted one was entirely acceptable, every one of its events is on the books in order, under the providers it
  routes to, and all of them count as received; one that fails with 503 was entirely acceptable too, but
  some prefix of its events stays on the books, and none counts.
\<close>

theorem ingest_books:
  assumes "wal_inv (bk_wal (p_stores P))" "pipeline_Ingest es P = (err, P')"
  defines "all_good \<equiv> es \<noteq> [] \<and> list_all (acceptable (pipeline_receiver P) (bk_now (p_stores P))) es"
    and "offered \<equiv> map (\<lambda>e. (e, routed (pipeline_receiver P) e)) es"
  shows "case err of
      Some (ValidationError msg) \<Rightarrow> P' = P \<and> \<not> all_good
    | Some (UnavailableError msg) \<Rightarrow> all_good \<and> p_received P' = p_received P
        \<and> (\<exists>k \<le> length es. books P' = book (take k offered) (books P))
    | None \<Rightarrow> all_good \<and> p_received P' = p_received P + length es \<and> books P' = book offered (books P)"
proof -
  let ?r = "pipeline_receiver P" and ?now = "bk_now (p_stores P)"
  obtain P1 n where i: "Ingest ?r walDispatchSink_Append ?now es P = (err, P1, n)" "P' = P1\<lparr>p_received := p_received P1 + n\<rparr>"
    using assms(2) by (auto simp: pipeline_Ingest_def split: prod.splits)
  then have b: "books P' = books P1" "p_received P' = p_received P1 + n" by (simp_all add: books_def)
  note r = append_all_received
  show ?thesis
    using Ingest_refused [of ?r walDispatchSink_Append ?now es P] Ingest_routed [OF i(1)] i b
      sink.append_all_ok [of offered P P1] sink.append_all_prefix [of offered P err P1] assms(1) r [of offered P err P1]
    by (auto simp: all_good_def offered_def split: option.split ingest_error.split)
qed

theorem ingest_books_witness:
  "\<exists>P'. pipeline_Ingest [demo_event] (demo_pipeline empty_dlq) = (None, P')
     \<and> p_received P' = 1 \<and> books P' ''e1'' = Some (demo_event, [''p''])"
proof -
  obtain P1 where "walDispatchSink_Append demo_event [''p''] (demo_pipeline empty_dlq) = (None, P1)" using demo_sink by blast
  then obtain P' where i: "pipeline_Ingest [demo_event] (demo_pipeline empty_dlq) = (None, P')"
    using demo_routes [of empty_dlq] by (simp add: pipeline_Ingest_def Ingest_def)
  have "wal_inv (bk_wal (p_stores (demo_pipeline empty_dlq)))" using demo_serving(1) by (simp add: pipeline_inv_def)
  from ingest_books [OF this i] i show ?thesis
    by (simp add: demo_pipeline_def pipeline_receiver_def routed_def StaticRouter_Route_def config_router_def
        demo_defaults demo_event_def)
qed

section \<open>Replay\<close>

lemma replay_loop_owes:
  "replay_loop walDispatchSink_Append p rs (res, P) = (res', P') \<Longrightarrow> pipeline_inv P \<Longrightarrow> p \<in> provider_names P \<Longrightarrow>
     (\<lambda>i. (i, p)) ` set (rr_Replayed res) \<subseteq> undelivered (p_stores P) \<Longrightarrow>
     (\<lambda>i. (i, p)) ` set (rr_Replayed res') \<subseteq> undelivered (p_stores P')"
proof (induction rs arbitrary: res P)
  case (Cons r rs)
  obtain err P1 where a: "walDispatchSink_Append (rec_Event r) [p] P = (err, P1)" by fastforce
  have p: "set [p] \<subseteq> provider_names P" using Cons.prems(3) by simp
  note s = sink_inv [OF Cons.prems(2) a p]
  have k: "p \<in> provider_names P1" using s(2) Cons.prems(3) by (simp add: provider_names_setup)
  show ?case
    using Cons.prems(1,4) a s(3) Cons.IH [OF _ s(1) k] by (cases err) (force simp: image_iff)+
qed simp

text \<open>
  C29. A DLQ replay that nothing interleaves with loses nothing: on a healthy queue it answers with every listed event as
  replayed or failed, exactly the replayed ones leave the provider's files, each of them is owed to the provider
  in the log, and the files of every other provider are as they were.
\<close>

theorem replay_loses_nothing:
  assumes "pipeline_inv P" "dlq_well (bk_dlq (p_stores P))" "plain (rq_provider rq)"
    and "admin_check ''POST'' (map fst (Providers (p_config P))) rq = None"
    and "pipeline_replay rq P = (resp, P')"
  defines "letters \<equiv> \<lambda>P p. (recs (bk_dlq (p_stores P)) (regularPath p), recs (bk_dlq (p_stores P)) (poisonPath p))"
    and "p \<equiv> rq_provider rq"
  shows "\<exists>res. resp = Success res
     \<and> set (rr_Replayed res) \<union> set (rr_Failed res) = (ID \<circ> rec_Event) `
         set (fst (letters P p) @ (if rq_include_poison rq = ''true'' then snd (letters P p) else []))
     \<and> letters P' p = map_prod (without (rr_Replayed res)) (without (rr_Replayed res)) (letters P p)
     \<and> (\<forall>i \<in> set (rr_Replayed res). (i, p) \<in> undelivered (p_stores P'))
     \<and> (\<forall>q. plain q \<longrightarrow> q \<noteq> p \<longrightarrow> letters P' q = letters P q)"
proof -
  note r = assms(5) [unfolded pipeline_replay_def]
  obtain res where o: "resp = Success res"
     "set (rr_Replayed res) \<union> set (rr_Failed res) = (ID \<circ> rec_Event) ` set (replay.listed rq P)"
     "letters P' p = map_prod (without (rr_Replayed res)) (without (rr_Replayed res)) (letters P p)"
     "\<forall>q. plain q \<longrightarrow> q \<noteq> p \<longrightarrow> letters P' q = letters P q"
    using replay.replay_outcome [OF assms(2-4) r] by (auto simp: letters_def p_def)
  have known: "p \<in> provider_names P" using assms(4) by (auto simp: admin_check_def provider_names_def p_def split: if_splits)
  obtain P2 where "replay_loop walDispatchSink_Append p (replay.listed rq P)
      (\<lparr>rr_Provider = p, rr_Replayed = [], rr_Failed = []\<rparr>, P) = (res, P2)" "bk_wal (p_stores P') = bk_wal (p_stores P2)"
    using r o(1) assms(4) replay.list_records_listed [OF assms(2,3)]
    by (auto simp: dlqreplay_ServeHTTP_def p_def pipeline_store_def Let_def split: prod.splits option.splits if_splits)
  with replay_loop_owes [OF _ assms(1) known] have "(\<lambda>i. (i, p)) ` set (rr_Replayed res) \<subseteq> undelivered (p_stores P2)"
    "undelivered (p_stores P') = undelivered (p_stores P2)" by (auto simp: undelivered_def)
  with o show ?thesis by (auto simp: replay.listed_def letters_def p_def)
qed

theorem replay_loses_nothing_witness:
  "\<exists>res P'. pipeline_replay demo_replay (demo_pipeline demo_dlq) = (Success res, P') \<and> rr_Replayed res = [''e1'']
     \<and> recs (bk_dlq (p_stores P')) (regularPath ''p'') = [] \<and> (''e1'', ''p'') \<in> undelivered (p_stores P')"
proof -
  let ?P = "demo_pipeline demo_dlq"
  have inv: "pipeline_inv ?P"
    using demo_serving(1) by (simp add: pipeline_inv_def demo_pipeline_def demo_stores_def provider_names_def map_ok_def)
  have w: "dlq_well (bk_dlq (p_stores ?P))" using demo_dlq_well(1) by (simp add: demo_pipeline_def demo_stores_def)
  have p: "plain (rq_provider demo_replay)" "rq_provider demo_replay = ''p''" "rq_include_poison demo_replay = []"
    by (simp_all add: demo_replay_def)
  have c: "admin_check ''POST'' (map fst (Providers (p_config ?P))) demo_replay = None"
    by (simp add: admin_check_def demo_replay_def demo_pipeline_def demo_defaults)
  obtain resp P' where r: "pipeline_replay demo_replay ?P = (resp, P')" by fastforce
  have l: "recs (bk_dlq (p_stores ?P)) (regularPath ''p'') = [demo_record]"
    using demo_dlq_well(3) by (simp add: demo_pipeline_def demo_stores_def)
  obtain P1 where "walDispatchSink_Append demo_event [''p''] ?P = (None, P1)" using demo_sink by blast
  note s = this
  have "list_records pipeline_store demo_replay ?P = (Inr [demo_record], ?P)"
    using replay.list_records_listed [OF w p(1)] l p by (simp add: replay.listed_def)
  then have e: "resp = Success res \<Longrightarrow> rr_Replayed res = [''e1'']" for res
    using r c s p by (auto simp: pipeline_replay_def dlqreplay_ServeHTTP_def demo_ID split: option.splits prod.splits)
  from replay_loses_nothing [OF inv w p(1) c r] e show ?thesis using l p(2) r by (auto simp: without_def demo_ID)
qed

end
