(* ===== verification/Url.thy ===== *)
theory Url
  imports Prelude "HOL-Library.List_Lexorder" "HOL-Library.Char_ord" "HOL-Library.Multiset"
begin

text \<open>
  What the program uses of Go's \<^verbatim>\<open>net/url\<close>: query escaping, \<^verbatim>\<open>Values.Encode\<close> and the
  server's \<^verbatim>\<open>URL.Query\<close>. A string is its bytes. The round trip at the end is what makes a
  query built by the command line arrive at a handler.
\<close>

section \<open>Escaping\<close>

definition url_unreserved :: "char \<Rightarrow> bool" where
  "url_unreserved c \<longleftrightarrow> c \<in> set ''ABCDEFGHIJKLMNOPQRSTUVWXYZabcdefghijklmnopqrstuvwxyz0123456789-_.~''"

definition upper_hex :: "nat \<Rightarrow> char" where
  "upper_hex n = ''0123456789ABCDEF'' ! n"

definition escape_char :: "char \<Rightarrow> string" where
  "escape_char c =
     (if url_unreserved c then [c]
      else if c = CHR '' '' then ''+''
      else [CHR ''%'', upper_hex (of_char c div 16), upper_hex (of_char c mod 16)])"

definition QueryEscape :: "string \<Rightarrow> string" where
  "QueryEscape s = concat (map escape_char s)"

definition url_hex_val :: "char \<Rightarrow> nat option" where
  "url_hex_val c =
     (let n = of_char c :: nat in
      if 48 \<le> n \<and> n \<le> 57 then Some (n - 48)
      else if 97 \<le> n \<and> n \<le> 102 then Some (n - 87)
      else if 65 \<le> n \<and> n \<le> 70 then Some (n - 55)
      else None)"

fun QueryUnescape :: "string \<Rightarrow> string option" where
  "QueryUnescape [] = Some []"
| "QueryUnescape (c # s) =
     (if c = CHR ''%'' then
        (case s of
           a # b # s' \<Rightarrow>
             (case (url_hex_val a, url_hex_val b) of
                (Some x, Some y) \<Rightarrow> map_option ((#) (char_of (16 * x + y))) (QueryUnescape s')
              | _ \<Rightarrow> None)
         | _ \<Rightarrow> None)
      else map_option ((#) (if c = CHR ''+'' then CHR '' '' else c)) (QueryUnescape s))"

section \<open>Encoding and parsing a query\<close>

text \<open>\<^verbatim>\<open>strings.Split\<close> at a byte, and \<^verbatim>\<open>strings.Cut\<close>.\<close>

fun split_on :: "char \<Rightarrow> string \<Rightarrow> string list" where
  "split_on sep [] = [[]]"
| "split_on sep (c # s) =
     (if c = sep then [] # split_on sep s
      else case split_on sep s of p # ps \<Rightarrow> (c # p) # ps | [] \<Rightarrow> [[c]])"

definition cut_at :: "char \<Rightarrow> string \<Rightarrow> string \<times> string" where
  "cut_at sep s = (takeWhile ((\<noteq>) sep) s, drop 1 (dropWhile ((\<noteq>) sep) s))"

fun join_with :: "string \<Rightarrow> string list \<Rightarrow> string" where
  "join_with sep [] = []"
| "join_with sep [s] = s"
| "join_with sep (s # t # ss) = s @ sep @ join_with sep (t # ss)"

definition Values_Encode :: "(string \<times> string) list \<Rightarrow> string" where
  "Values_Encode vs =
     join_with ''&'' (map (\<lambda>(k, v). QueryEscape k @ ''='' @ QueryEscape v) (sort_key fst vs))"

text \<open>\<^verbatim>\<open>ParseQuery\<close> drops a pair that contains a semicolon or a bad escape.\<close>

definition parse_pair :: "string \<Rightarrow> (string \<times> string) option" where
  "parse_pair p =
     (if CHR '';'' \<in> set p \<or> p = [] then None
      else case cut_at (CHR ''='') p of (k, v) \<Rightarrow>
        (case (QueryUnescape k, QueryUnescape v) of (Some k', Some v') \<Rightarrow> Some (k', v') | _ \<Rightarrow> None))"

definition ParseQuery :: "string \<Rightarrow> (string \<times> string) list" where
  "ParseQuery q = List.map_filter parse_pair (split_on (CHR ''&'') q)"

definition query_Get :: "string \<Rightarrow> string \<Rightarrow> string" where
  "query_Get q k = (case map_of (ParseQuery q) k of None \<Rightarrow> [] | Some v \<Rightarrow> v)"

section \<open>The round trip\<close>

definition url_clean :: "char \<Rightarrow> bool" where
  "url_clean c \<longleftrightarrow> c \<notin> {CHR ''&'', CHR ''='', CHR '';''}"

lemma upper_hex_all: "list_all (\<lambda>n. url_hex_val (upper_hex n) = Some n \<and> url_clean (upper_hex n)) [0..<16]"
  by code_simp

lemma upper_hex:
  assumes "n < 16"
  shows "url_hex_val (upper_hex n) = Some n" "url_clean (upper_hex n)"
  using upper_hex_all assms by (simp_all add: list_all_iff)

lemma char_nibbles: "(of_char c :: nat) div 16 < 16"
  by (rule less_mult_imp_div_less) simp

lemma unescape_escape_char: "QueryUnescape (escape_char c @ s) = map_option ((#) c) (QueryUnescape s)"
proof -
  have u: "url_unreserved c \<Longrightarrow> c \<noteq> CHR ''%'' \<and> c \<noteq> CHR ''+''" by (auto simp: url_unreserved_def)
  have "url_hex_val (upper_hex (of_char c div 16)) = Some (of_char c div 16)"
    "url_hex_val (upper_hex (of_char c mod 16)) = Some (of_char c mod 16)"
    by (simp_all add: upper_hex char_nibbles)
  with u show ?thesis by (auto simp: escape_char_def)
qed

lemma unescape_escape: "QueryUnescape (QueryEscape s) = Some s"
proof (induction s)
  case (Cons c s)
  then show ?case by (simp add: QueryEscape_def unescape_escape_char)
qed (simp add: QueryEscape_def)

text \<open>No separator survives escaping.\<close>

lemma escape_clean: "c \<in> set (QueryEscape s) \<Longrightarrow> url_clean c"
proof -
  have "list_all url_clean (escape_char d)" for d
  proof -
    have "url_unreserved d \<Longrightarrow> url_clean d" by (auto simp: url_unreserved_def url_clean_def)
    then show ?thesis by (auto simp: escape_char_def upper_hex char_nibbles) (simp_all add: url_clean_def)
  qed
  then show "c \<in> set (QueryEscape s) \<Longrightarrow> url_clean c"
    by (auto simp: QueryEscape_def list_all_iff)
qed

lemma parse_pair_escaped: "parse_pair (QueryEscape k @ ''='' @ QueryEscape v) = Some (k, v)"
proof -
  have e: "CHR ''='' \<notin> set (QueryEscape k)" "CHR '';'' \<notin> set (QueryEscape k)" "CHR '';'' \<notin> set (QueryEscape v)"
    using escape_clean by (auto simp: url_clean_def)
  then have "cut_at (CHR ''='') (QueryEscape k @ ''='' @ QueryEscape v) = (QueryEscape k, QueryEscape v)"
    by (auto simp: cut_at_def takeWhile_append dropWhile_append)
  with e show ?thesis by (simp add: parse_pair_def unescape_escape)
qed

lemma split_on_clean: "sep \<notin> set s \<Longrightarrow> split_on sep s = [s]"
  by (induction s) auto

lemma split_on_sep: "sep \<notin> set s \<Longrightarrow> split_on sep (s @ sep # t) = s # split_on sep t"
  by (induction s) auto

lemma split_join:
  "ss \<noteq> [] \<Longrightarrow> \<forall>s \<in> set ss. sep \<notin> set s \<Longrightarrow> split_on sep (join_with [sep] ss) = ss"
  by (induction "[sep]" ss rule: join_with.induct) (simp_all add: split_on_clean split_on_sep)

lemma map_filter_Some: "(\<And>x. x \<in> set xs \<Longrightarrow> p (q x) = Some x) \<Longrightarrow> List.map_filter p (map q xs) = xs"
  by (induction xs) (simp_all add: List.map_filter_simps)

theorem Parse_Encode: "vs \<noteq> [] \<Longrightarrow> ParseQuery (Values_Encode vs) = sort_key fst vs"
proof -
  let ?pair = "\<lambda>(k, v). QueryEscape k @ ''='' @ QueryEscape v"
  assume ne: "vs \<noteq> []"
  have "\<forall>s \<in> set (map ?pair (sort_key fst vs)). CHR ''&'' \<notin> set s"
    using escape_clean by (auto simp: url_clean_def)
  moreover have "map ?pair (sort_key fst vs) \<noteq> []" using ne by (metis length_0_conv length_map length_sort)
  ultimately have "split_on (CHR ''&'') (Values_Encode vs) = map ?pair (sort_key fst vs)"
    by (simp add: Values_Encode_def split_join)
  moreover have "List.map_filter parse_pair (map ?pair (sort_key fst vs)) = sort_key fst vs"
    by (rule map_filter_Some) (use parse_pair_escaped in auto)
  ultimately show ?thesis by (simp add: ParseQuery_def)
qed

text \<open>Every value of a query with distinct keys is read back.\<close>

lemma Get_Encode:
  assumes "vs \<noteq> []" "distinct (map fst vs)"
  shows "query_Get (Values_Encode vs) k = (case map_of vs k of None \<Rightarrow> [] | Some v \<Rightarrow> v)"
proof -
  have "map_of (sort_key fst vs) = map_of vs"
  proof (rule map_of_eqI)
    show "set (map fst (sort_key fst vs)) = set (map fst vs)" by simp
    show "\<forall>k \<in> set (map fst (sort_key fst vs)). map_of (sort_key fst vs) k = map_of vs k"
    proof
      fix k assume "k \<in> set (map fst (sort_key fst vs))"
      then obtain v where v: "(k, v) \<in> set vs" by auto
      moreover have "mset (map fst (sort_key fst vs)) = mset (map fst vs)" by simp
      then have "distinct (map fst (sort_key fst vs))" using assms(2) by (metis mset_eq_imp_distinct_iff)
      ultimately show "map_of (sort_key fst vs) k = map_of vs k"
        using assms(2) by (simp add: map_of_is_SomeI)
    qed
  qed
  then show ?thesis by (simp add: query_Get_def Parse_Encode [OF assms(1)])
qed

end
