(* ===== verification/Http.thy ===== *)
theory Http
  imports Url Pipeline
begin

text \<open>
  The HTTP surface of the daemon: the mux of internal/pipeline/pipeline.go (\<^verbatim>\<open>Handler\<close>) and of
  internal/receiver/receiver.go, the decoding of a request into the arguments of a handler and
  the JSON bodies of the answers. Paths are clean (the library redirects the others);
  the text of an error page and the page of the metrics library are arguments.
\<close>

section \<open>Requests and answers\<close>

record http_request =
  hr_Method :: string
  hr_Addr :: string
  hr_Path :: string
  hr_Query :: string
  hr_Body :: string

text \<open>What sending a request and reading the whole answer come to.\<close>

datatype exchange =
    NotSent string
  | Unreadable string
  | Answer int string

text \<open>\<^verbatim>\<open>r.Method\<close> and \<^verbatim>\<open>r.URL.Query().Get\<close>.\<close>

definition admin_request_of :: "http_request \<Rightarrow> admin_request" where
  "admin_request_of hr =
     \<lparr>rq_Method = hr_Method hr, rq_provider = query_Get (hr_Query hr) ''provider'',
      rq_include_poison = query_Get (hr_Query hr) ''include_poison''\<rparr>"

section \<open>Bodies\<close>

definition replay_json :: "replay_result \<Rightarrow> json" where
  "replay_json res = JObj
     ([(''provider'', JStr (rr_Provider res)), (''replayed'', JArr (map JStr (rr_Replayed res)))]
      @ (if rr_Failed res = [] then [] else [(''failed'', JArr (map JStr (rr_Failed res)))]))"

definition show_json :: "string \<times> dlq_record list \<Rightarrow> json" where
  "show_json r = JObj [(''provider'', JStr (fst r)), (''records'', JArr (map record_json (snd r)))]"

text \<open>The encoder writes a map by its sorted keys.\<close>

definition status_json :: "status_result \<Rightarrow> json" where
  "status_json r = JObj
     [(''wal_unacked_entries'', JNum (show_nat (WALUnackedEntries r))),
      (''dlq'', JObj (map (\<lambda>(p, depth, poison). (p, JObj [(''depth'', JNum (show_nat depth)),
         (''poison_depth'', JNum (show_nat poison))])) (sort_key fst (sr_DLQ r))))]"

definition newline_after :: "string \<Rightarrow> string" where
  "newline_after s = s @ [newline]"

text \<open>\<^verbatim>\<open>http.Error\<close>, and \<^verbatim>\<open>json.NewEncoder(w).Encode\<close> with its newline.\<close>

definition answer_with :: "(int \<Rightarrow> string) \<Rightarrow> ('b \<Rightarrow> json) \<Rightarrow> 'b response \<Rightarrow> exchange" where
  "answer_with page body resp =
     (case resp of Failure code \<Rightarrow> Answer code (newline_after (page code))
      | Success b \<Rightarrow> Answer 200 (newline_after (json_text (body b))))"

section \<open>The handlers\<close>

definition receiver_Handler :: "(int \<Rightarrow> string) \<Rightarrow> http_request \<Rightarrow> pipeline \<Rightarrow> exchange \<times> pipeline" where
  "receiver_Handler page hr P =
     (if hr_Path hr \<noteq> ''/v1/events'' then (Answer 404 (newline_after (page 404)), P)
      else if hr_Method hr \<noteq> ''POST'' then (Answer 405 (newline_after (page 405)), P)
      else case decodeEvents (hr_Body hr) of
        Inl msg \<Rightarrow> (Answer 400 (newline_after msg), P)
      | Inr es \<Rightarrow>
          (case pipeline_Ingest es P of (err, P') \<Rightarrow>
             (case err of None \<Rightarrow> Answer 202 []
              | Some e \<Rightarrow> Answer (http_status err) (newline_after (page (http_status err))), P')))"

definition pipeline_Handler ::
  "(int \<Rightarrow> string) \<Rightarrow> string \<Rightarrow> http_request \<Rightarrow> pipeline \<Rightarrow> exchange \<times> pipeline" where
  "pipeline_Handler page metrics hr P =
     (let known = map fst (Providers (p_config P)); rq = admin_request_of hr in
      if hr_Path hr = ''/metrics'' then (Answer 200 metrics, P)
      else if hr_Path hr = ''/v1/status'' then
        map_prod (answer_with page status_json) id
          (status_ServeHTTP (\<lambda>P. UnackedCount (bk_wal (p_stores P))) pipeline_store known rq P)
      else if hr_Path hr = ''/v1/dlq'' then
        map_prod (answer_with page show_json) id (dlqshow_ServeHTTP pipeline_store known rq P)
      else if hr_Path hr = ''/v1/dlq/replay'' then
        map_prod (answer_with page replay_json) id (pipeline_replay rq P)
      else receiver_Handler page hr P)"

text \<open>No handler fails with the status of a success.\<close>

lemma replay_failure: "dlqreplay_ServeHTTP snk st known rq s = (Failure code, s') \<Longrightarrow> code \<noteq> 200"
  by (auto simp: dlqreplay_ServeHTTP_def admin_check_def split: if_splits prod.splits sum.splits option.splits)

lemma show_failure: "dlqshow_ServeHTTP st known rq s = (Failure code, s') \<Longrightarrow> code \<noteq> 200"
  by (auto simp: dlqshow_ServeHTTP_def admin_check_def split: if_splits prod.splits sum.splits option.splits)

lemma status_failure: "status_ServeHTTP unacked st ps rq s = (Failure code, s') \<Longrightarrow> code \<noteq> 200"
  by (auto simp: status_ServeHTTP_def Let_def split: if_splits prod.splits option.splits)

end
