(* ===== verification/Grpc.thy ===== *)
theory Grpc
  imports Receiver
begin

text \<open>
  internal/grpcserver/grpcserver.go and what it uses of the generated internal/grpcapi: the messages with
  their getters, which accept a nil pointer, the stub of a client, the handler that decodes a request, and the
  description of the service. The grpc library, which carries a call from the one to the other, is a
  parameter. A pointer is an option.
\<close>

section \<open>Messages (events.pb.go)\<close>

record grpc_event =
  pb_Id :: string
  pb_CustomerId :: string
  pb_EventName :: string
  pb_Timestamp :: "gotime option"
  pb_Properties :: "(string \<times> json) list option"
  pb_Route :: "string list"

record IngestRequest =
  pb_Events :: "grpc_event option list"

datatype IngestResponse = IngestResponse

definition GetId :: "grpc_event option \<Rightarrow> string" where
  "GetId x = (case x of Some e \<Rightarrow> pb_Id e | None \<Rightarrow> [])"

definition GetCustomerId :: "grpc_event option \<Rightarrow> string" where
  "GetCustomerId x = (case x of Some e \<Rightarrow> pb_CustomerId e | None \<Rightarrow> [])"

definition GetEventName :: "grpc_event option \<Rightarrow> string" where
  "GetEventName x = (case x of Some e \<Rightarrow> pb_EventName e | None \<Rightarrow> [])"

definition GetTimestamp :: "grpc_event option \<Rightarrow> gotime option" where
  "GetTimestamp x = (case x of Some e \<Rightarrow> pb_Timestamp e | None \<Rightarrow> None)"

definition GetProperties :: "grpc_event option \<Rightarrow> (string \<times> json) list option" where
  "GetProperties x = (case x of Some e \<Rightarrow> pb_Properties e | None \<Rightarrow> None)"

definition GetRoute :: "grpc_event option \<Rightarrow> string list" where
  "GetRoute x = (case x of Some e \<Rightarrow> pb_Route e | None \<Rightarrow> [])"

definition GetEvents :: "IngestRequest option \<Rightarrow> grpc_event option list" where
  "GetEvents x = (case x of Some r \<Rightarrow> pb_Events r | None \<Rightarrow> [])"

section \<open>The server (grpcserver.go)\<close>

definition toEvent :: "grpc_event option \<Rightarrow> Event" where
  "toEvent we =
     \<lparr>ID = GetId we, CustomerID = GetCustomerId we, EventName = GetEventName we,
      Timestamp = (case GetTimestamp we of None \<Rightarrow> zero_time | Some ts \<Rightarrow> time_UTC ts),
      Properties = (case GetProperties we of None \<Rightarrow> [] | Some props \<Rightarrow> props),
      Route = GetRoute we\<rparr>"

definition toEvents :: "grpc_event option list \<Rightarrow> Event list" where
  "toEvents wire = map toEvent wire"

text \<open>\<^verbatim>\<open>codes.Internal\<close> is for an error that is neither of the receiver's two; it makes no other.\<close>

datatype grpc_code = InvalidArgument | Unavailable | InternalError | Unimplemented

type_synonym grpc_answer = "(grpc_code \<times> string) + IngestResponse"

definition grpc_status :: "ingest_error option \<Rightarrow> grpc_answer" where
  "grpc_status err =
     (case err of
        None \<Rightarrow> Inr IngestResponse
      | Some (ValidationError msg) \<Rightarrow> Inl (InvalidArgument, msg)
      | Some (UnavailableError msg) \<Rightarrow> Inl (Unavailable, msg))"

definition Server_Ingest ::
  "receiver \<Rightarrow> 's sink \<Rightarrow> gotime \<Rightarrow> IngestRequest option \<Rightarrow> 's \<Rightarrow> grpc_answer \<times> 's" where
  "Server_Ingest r snk now req s =
     (case Ingest r snk now (toEvents (GetEvents req)) s of (err, s', _) \<Rightarrow> (grpc_status err, s'))"

section \<open>The service (events_grpc.pb.go)\<close>

type_synonym 's rpc = "IngestRequest option \<Rightarrow> 's \<Rightarrow> grpc_answer \<times> 's"

definition Events_Ingest_FullMethodName :: string where
  "Events_Ingest_FullMethodName = ''/tallyd.v1.Events/Ingest''"

text \<open>The stub: the library's \<^verbatim>\<open>Invoke\<close>, by the full name of the method.\<close>

definition eventsClient_Ingest :: "(string \<Rightarrow> 's rpc) \<Rightarrow> 's rpc" where
  "eventsClient_Ingest invoke req s =
     (case invoke Events_Ingest_FullMethodName req s of
        (Inl err, s') \<Rightarrow> (Inl err, s')
      | (Inr out, s') \<Rightarrow> (Inr out, s'))"

definition UnimplementedEventsServer_Ingest :: "'s rpc" where
  "UnimplementedEventsServer_Ingest req s = (Inl (Unimplemented, ''method Ingest not implemented''), s)"

text \<open>The handler: what decoding the message gave, and the interceptor if the server has one.\<close>

definition Events_Ingest_Handler ::
  "'s rpc \<Rightarrow> (grpc_code \<times> string) + IngestRequest \<Rightarrow> (string \<Rightarrow> 's rpc \<Rightarrow> 's rpc) option \<Rightarrow> 's \<Rightarrow> grpc_answer \<times> 's" where
  "Events_Ingest_Handler srv dec interceptor s =
     (case dec of
        Inl err \<Rightarrow> (Inl err, s)
      | Inr req \<Rightarrow>
          (case interceptor of
             None \<Rightarrow> srv (Some req) s
           | Some ic \<Rightarrow> ic Events_Ingest_FullMethodName srv (Some req) s))"

record 's service_desc =
  ServiceName :: string
  Methods :: "(string \<times> ('s rpc \<Rightarrow> (grpc_code \<times> string) + IngestRequest \<Rightarrow> (string \<Rightarrow> 's rpc \<Rightarrow> 's rpc) option
    \<Rightarrow> 's \<Rightarrow> grpc_answer \<times> 's)) list"

definition Events_ServiceDesc :: "'s service_desc" where
  "Events_ServiceDesc = \<lparr>ServiceName = ''tallyd.v1.Events'', Methods = [(''Ingest'', Events_Ingest_Handler)]\<rparr>"

section \<open>A call\<close>

text \<open>
  A connection to a server that has the service registered without an interceptor, as the daemon has it: a call of
  \<^verbatim>\<open>/service/method\<close> reaches the method's handler with the message that was sent. The handler of
  a request that was lost or cannot be decoded is not run.
\<close>

definition delivers :: "(string \<Rightarrow> 's rpc) \<Rightarrow> 's rpc \<Rightarrow> 's service_desc \<Rightarrow> bool" where
  "delivers invoke srv desc \<longleftrightarrow> (\<forall>(name, handler) \<in> set (Methods desc). \<forall>req s.
     invoke (''/'' @ ServiceName desc @ ''/'' @ name) (Some req) s = handler srv (Inr req) None s)"

lemma call_reaches_server:
  assumes "delivers invoke srv Events_ServiceDesc"
  shows "eventsClient_Ingest invoke (Some req) s = srv (Some req) s"
proof -
  have "invoke Events_Ingest_FullMethodName (Some req) s = Events_Ingest_Handler srv (Inr req) None s"
    using assms by (simp add: delivers_def Events_ServiceDesc_def Events_Ingest_FullMethodName_def)
  then show ?thesis
    by (simp add: eventsClient_Ingest_def Events_Ingest_Handler_def split: prod.split sum.split)
qed

lemma no_timestamp_refused:
  assumes "we \<in> set (GetEvents req)" "GetTimestamp we = None"
  shows "\<exists>msg. Server_Ingest r snk now req s = (Inl (InvalidArgument, msg), s)"
proof -
  have "\<not> acceptable r now (toEvent we)"
    using assms(2) by (simp add: acceptable_def toEvent_def IsZero_def zero_time_def)
  then have bad: "\<not> list_all (acceptable r now) (toEvents (GetEvents req))"
    using assms(1) by (auto simp: toEvents_def list_all_iff)
  obtain err s' n where i: "Ingest r snk now (toEvents (GetEvents req)) s = (err, s', n)" by (metis prod_cases3)
  obtain msg where msg: "err = Some (ValidationError msg)" using Ingest_routed [OF i] bad by blast
  then have "s' = s" using Ingest_refused i by metis
  with i msg show ?thesis by (simp add: Server_Ingest_def grpc_status_def)
qed

text \<open>A connection within one process, for which the hypothesis on the library holds.\<close>

definition local_call :: "'s rpc \<Rightarrow> string \<Rightarrow> 's rpc" where
  "local_call srv name req s =
     (case req of
        Some m \<Rightarrow> (if name = Events_Ingest_FullMethodName then Events_Ingest_Handler srv (Inr m) None s
                   else UnimplementedEventsServer_Ingest req s)
      | None \<Rightarrow> UnimplementedEventsServer_Ingest req s)"

lemma local_delivers: "delivers (local_call srv) srv Events_ServiceDesc"
  by (simp add: delivers_def Events_ServiceDesc_def local_call_def Events_Ingest_FullMethodName_def)

end
