(* ===== verification/Answer_Props.thy ===== *)
theory Answer_Props
  imports Request_Props Http Grpc
begin

text \<open>
  What an answer of the daemon means: from the bytes of a request over decoding, routing, the log and a crash to the log that
  the next start reads.
\<close>

section \<open>From the body of a request to the log of the next life\<close>










section \<open>The same over gRPC\<close>




end
