(* ===== verification/Account.thy ===== *)
theory Account
  imports Durable_Run
begin

text \<open>
  Where an accepted delivery went. Over a daemon's whole life every ack of a batcher has its reason
  in the steps before it: the adapter answered \<^verbatim>\<open>Ok\<close> for a batch with the event, or the event was put
  into the dead-letter queue. So a delivery that is off the books can be accounted for.
\<close>

section \<open>The steps of one batcher\<close>

fun batcher_label :: "string \<Rightarrow> plabel \<Rightarrow> label list" where
  "batcher_label p (Batching q l) = (if q = p then [l] else [])"
| "batcher_label p _ = []"

definition batcher_labels :: "string \<Rightarrow> plabel list \<Rightarrow> label list" where
  "batcher_labels p ls = concat (map (batcher_label p) ls)"

lemma batcher_labels_append [simp]:
  "batcher_labels p [] = []" "batcher_labels p (ls @ ms) = batcher_labels p ls @ batcher_labels p ms"
  by (simp_all add: batcher_labels_def)

lemma batcher_labels_one [simp]: "batcher_labels p [l] = batcher_label p l"
  by (simp add: batcher_labels_def)

lemma in_batcher_labels: "bl \<in> set (batcher_labels p ls) \<longleftrightarrow> Batching p bl \<in> set ls"
proof (induction ls)
  case (Cons l ls)
  then show ?case by (cases l) (auto simp: batcher_labels_def split: if_splits)
qed (simp add: batcher_labels_def)

section \<open>Only batchers touch their flights\<close>

abbreviation flights_of :: "(string, 's bstate) gomap \<Rightarrow> string \<Rightarrow> flight list option" where
  "flights_of qs p \<equiv> map_option inflight (map_of qs p)"

lemma Enqueue_inflight [simp]: "inflight (batcher_Enqueue now e s) = inflight s"
  by (simp add: batcher_Enqueue_def)

lemma fold_Enqueue_inflight [simp]: "inflight (fold (batcher_Enqueue now) es s) = inflight s"
  by (induction es arbitrary: s) simp_all

lemma Dispatch_flights:
  "flights_of (snd (Dispatch (batcher_Enqueue now) e ps qs)) p = flights_of qs p"
  by (induction ps arbitrary: qs) (auto split: option.split)

lemma sink_flights:
  assumes "walDispatchSink_Append e ps P = (err, P')"
  shows "p_batchers P' = p_batchers P" "flights_of (p_queues P') p = flights_of (p_queues P) p"
  using assms Dispatch_flights [of "bk_now (p_stores P)" e ps "p_queues P" p]
  by (auto simp: walDispatchSink_Append_def split: prod.splits option.splits)

lemma store_flights:
  "list_records pipeline_store rq P = (r, P') \<Longrightarrow> p_batchers P' = p_batchers P \<and> p_queues P' = p_queues P"
  "replay_finish p res P = (err, P') \<Longrightarrow> p_batchers P' = p_batchers P \<and> p_queues P' = p_queues P"
  by (auto simp: list_records_def replay_finish_def pipeline_store_def Let_def
      split: prod.splits sum.splits if_splits)

lemma request_flights:
  assumes "pstep P l P'" "\<not> batcher_step l"
  shows "p_batchers P' = p_batchers P \<and> flights_of (p_queues P') p = flights_of (p_queues P) p"
  using assms(1)
  by (cases rule: pstep.cases)
    (use assms(2) in \<open>auto simp: batcher_step_def sink_flights dest: store_flights\<close>)

section \<open>Every ack has its reason\<close>

definition all_warranted :: "plabel list \<Rightarrow> pipeline \<Rightarrow> bool" where
  "all_warranted ls P \<longleftrightarrow> (\<forall>p b s. map_of (p_batchers P) p = Some b \<longrightarrow> map_of (p_queues P) p = Some s \<longrightarrow>
     flights_warranted b (batcher_labels p ls) s)"

lemma flights_warranted_cong: "inflight s = inflight t \<Longrightarrow> flights_warranted b ls s = flights_warranted b ls t"
  by (simp add: flights_warranted_def)

lemma pstep_warranted:
  assumes st: "pstep P l P'" and w: "all_warranted ls P"
  shows "all_warranted (ls @ [l]) P'"
    and "l = Batching p (Job j rs) \<Longrightarrow>
      \<exists>b. map_of (p_batchers P) p = Some b \<and> warranted b (batcher_labels p ls) j"
proof -
  show "all_warranted (ls @ [l]) P'"
    unfolding all_warranted_def
  proof (intro allI impI)
    fix q b s'
    assume b: "map_of (p_batchers P') q = Some b" and s': "map_of (p_queues P') q = Some s'"
    show "flights_warranted b (batcher_labels q (ls @ [l])) s'"
    proof (cases "\<exists>bl. l = Batching q bl")
      case True
      then obtain bl where l: "l = Batching q bl" ..
      obtain b0 s where s: "map_of (p_batchers P) q = Some b0" "map_of (p_queues P) q = Some s"
        and bs: "bstep b0 pipeline_backend (s\<lparr>b_env := p_env P\<rparr>) bl s'" and bb: "b0 = b"
        using st b s' unfolding l by (auto elim!: pstep_batching)
      have "flights_warranted b (batcher_labels q ls) (s\<lparr>b_env := p_env P\<rparr>)"
        using w s bb by (simp add: all_warranted_def flights_warranted_def)
      from flights_step(1) [OF bs [unfolded bb] this] show ?thesis by (simp add: l)
    next
      case False
      have "p_batchers P' = p_batchers P \<and> flights_of (p_queues P') q = flights_of (p_queues P) q"
      proof (cases "batcher_step l")
        case True
        then obtain p bl where "l = Batching p bl" "p \<noteq> q" using False by (auto simp: batcher_step_def)
        with st show ?thesis by (auto elim!: pstep_batching)
      qed (use request_flights [OF st] in blast)
      with s' obtain s where "map_of (p_queues P) q = Some s" "inflight s' = inflight s" "map_of (p_batchers P) q = Some b"
        using b by (cases "map_of (p_queues P) q") auto
      then have "flights_warranted b (batcher_labels q ls) s'"
        using w flights_warranted_cong [of s' s] by (simp add: all_warranted_def)
      then show ?thesis by (rule flights_mono) simp
    qed
  qed
  show "\<exists>b. map_of (p_batchers P) p = Some b \<and> warranted b (batcher_labels p ls) j" if l: "l = Batching p (Job j rs)"
  proof -
    obtain b s s' where s: "map_of (p_batchers P) p = Some b" "map_of (p_queues P) p = Some s"
      and bs: "bstep b pipeline_backend (s\<lparr>b_env := p_env P\<rparr>) (Job j rs) s'"
      using st unfolding l by (auto elim!: pstep_batching)
    have "flights_warranted b (batcher_labels p ls) (s\<lparr>b_env := p_env P\<rparr>)"
      using w s by (simp add: all_warranted_def flights_warranted_def)
    from flights_step(2) [OF bs this refl] s(1) show ?thesis by blast
  qed
qed

text \<open>A daemon that was just built has no flush running.\<close>

lemma Build_warranted:
  assumes "Build cfg getenv d dlqfiles flts now = Returns (Inr P)" "map_ok (Providers cfg)"
  shows "all_warranted ls P"
proof -
  obtain w and bs :: "(string, batcher) gomap" and logs where rp: "ReplayPending (batcher_Enqueue now) (wal_Pending w)
      (map (\<lambda>(name, b). (name, batcher_New \<lparr>env_backend = p_stores P, env_obs = []\<rparr>)) bs) = (logs, p_queues P)"
    by (rule Build_cases [OF assms(1)]) (rule that)
  let ?q0 = "map (\<lambda>(name, b). (name, batcher_New \<lparr>env_backend = p_stores P, env_obs = []\<rparr>)) bs"
  have q: "map_of (p_queues P) = (\<lambda>p. map_option (fold (batcher_Enqueue now) (sent_to p (wal_Pending w))) (map_of ?q0 p))"
    using ReplayPending_fold [of "batcher_Enqueue now" "wal_Pending w" "[]" ?q0] rp by (simp add: ReplayPending_def)
  have "inflight s = []" if s: "map_of (p_queues P) p = Some s" for p s
  proof -
    obtain s0 where "map_of ?q0 p = Some s0" "s = fold (batcher_Enqueue now) (sent_to p (wal_Pending w)) s0"
      using s unfolding q by auto
    then show ?thesis using map_of_SomeD [of ?q0 p s0] by (auto simp: batcher_New_def)
  qed
  then show ?thesis by (simp add: all_warranted_def flights_warranted_def)
qed

lemma lives_warranted: "lives P0 ls P \<Longrightarrow> all_warranted ms P0 \<Longrightarrow> all_warranted (ms @ ls) P"
proof (induction rule: lives.induct)
  case (lives_on ls P l P')
  then show ?case using pstep_warranted(1) [OF lives_on.hyps(2), of "ms @ ls"] by simp
next
  case (reborn ls P d cfg getenv dlqfiles flts now P')
  then show ?case by (intro Build_warranted)
qed simp

text \<open>The step that took a delivery off the books, if any: an append that leaves the provider out, or an ack.\<close>

definition overwrites :: "string \<Rightarrow> string \<Rightarrow> plabel \<Rightarrow> bool" where
  "overwrites i p l \<longleftrightarrow> (\<exists>e ps. l = Appended e ps \<and> ID e = i \<and> p \<notin> set ps) \<or> (\<exists>e q. l = Reinjected e q \<and> ID e = i \<and> q \<noteq> p)"

definition acks :: "string \<Rightarrow> string \<Rightarrow> queued \<Rightarrow> Disposition \<Rightarrow> plabel \<Rightarrow> bool" where
  "acks i p q disp l \<longleftrightarrow> (\<exists>rs. l = Batching p (Job (Acking q disp) rs)) \<and> ID (q_event q) = i"

lemma touches_cases:
  assumes "touches i p l"
  shows "overwrites i p l \<or> (\<exists>q disp. acks i p q disp l)"
proof (cases l)
  case (Batching q bl)
  then obtain x where "q = p" "x \<in># settled bl" "ID (fst x) = i" using assms by auto
  then show ?thesis using Batching by (cases bl rule: settled.cases) (auto simp: acks_def item_def)
qed (use assms in \<open>auto simp: overwrites_def\<close>)

text \<open>A delivery accepted in the first life is owed until a step touches it.\<close>

lemma owed_until_touched:
  assumes "Build cfg getenv d0 dlqfiles flts now = Returns (Inr P0)" "map_ok (Providers cfg)" "files d0 = []" "faults d0 = []"
    and "lives P0 (before @ Appended e ps # later) P" "list_all plabel_fits (before @ Appended e ps # later)"
    and "p \<in> set ps" "\<forall>l \<in> set later. \<not> touches (ID e) p l"
  shows "(ID e, p) \<in> undelivered (p_stores P)"
proof -
  have P0: "served P0" "log_durable (p_stores P0)" using first_start [OF assms(1-4)] by simp_all
  obtain Q R where Q: "lives P0 before Q" and R: "pstep Q (Appended e ps) R" and P: "lives R later P"
    using lives_split [OF assms(5) refl] by blast
  have fits: "list_all plabel_fits before" "plabel_fits (Appended e ps)" "list_all plabel_fits later"
    using assms(6) by simp_all
  have "served Q" "log_durable (p_stores Q)" using lives_durable [OF Q P0 fits(1)] by simp_all
  then have "served R" "log_durable (p_stores R)" "(ID e, p) \<in> undelivered (p_stores R)"
    using pstep_inv [OF R] pstep_durable [OF R _ _ fits(2)] pstep_writes [OF R, of e ps] assms(7) by blast+
  then show ?thesis using lives_keep [OF P _ _ fits(3) _ assms(8)] by blast
qed

text \<open>
  An ack with its reason: in the steps \<open>ls\<close> after \<open>ls0\<close>, the batcher then serving the provider acked an event
  of this ID, for which its adapter had answered \<^verbatim>\<open>Ok\<close>; or which it had put into the dead-letter queue before.
\<close>

definition delivered :: "pipeline \<Rightarrow> string \<Rightarrow> string \<Rightarrow> plabel list \<Rightarrow> plabel list \<Rightarrow> bool" where
  "delivered P0 i p ls0 ls \<longleftrightarrow> (\<exists>as l bs q b Q. ls = as @ l # bs \<and> acks i p q Ok l \<and> lives P0 (ls0 @ as) Q
     \<and> map_of (p_batchers Q) p = Some b \<and> answered b (batcher_labels p (ls0 @ as)) q Ok)"

definition parked :: "pipeline \<Rightarrow> string \<Rightarrow> string \<Rightarrow> plabel list \<Rightarrow> plabel list \<Rightarrow> bool" where
  "parked P0 i p ls0 ls \<longleftrightarrow> (\<exists>as l bs q b Q reason permanent. ls = as @ l # bs \<and> acks i p q DeadLetter l
     \<and> lives P0 (ls0 @ as) Q \<and> map_of (p_batchers Q) p = Some b \<and> parkable b (batcher_labels p (ls0 @ as)) q
     \<and> Batching p (Job (Parking q reason permanent) []) \<in> set (ls0 @ as))"

lemma ack_reason:
  assumes "all_warranted [] P0" "lives P0 (ls0 @ as @ l # bs) P" "acks i p q disp l"
  shows "delivered P0 i p ls0 (as @ l # bs) \<or> parked P0 i p ls0 (as @ l # bs)"
proof -
  obtain rs where l: "l = Batching p (Job (Acking q disp) rs)" using assms(3) by (auto simp: acks_def)
  obtain Q R where Q: "lives P0 (ls0 @ as) Q" and R: "pstep Q l R"
    using lives_split [OF assms(2), of "ls0 @ as" l bs] by auto
  have "all_warranted (ls0 @ as) Q" using lives_warranted [OF Q assms(1)] by simp
  then obtain b where b: "map_of (p_batchers Q) p = Some b" and w: "warranted b (batcher_labels p (ls0 @ as)) (Acking q disp)"
    using pstep_warranted(2) [OF R _ l] by blast
  show ?thesis
  proof (cases "disp = Ok")
    case True
    with w have "answered b (batcher_labels p (ls0 @ as)) q Ok" by auto
    with True Q b assms(3) show ?thesis unfolding delivered_def by blast
  next
    case False
    with w obtain r m where "disp = DeadLetter" "parkable b (batcher_labels p (ls0 @ as)) q"
      "Job (Parking q r m) [] \<in> set (batcher_labels p (ls0 @ as))" by auto
    with Q b assms(3) show ?thesis unfolding parked_def in_batcher_labels by blast
  qed
qed

end
