(* ===== verification/Delivery_Props.thy ===== *)
theory Delivery_Props
  imports Batcher_Run Config Grpc
begin

text \<open>
  The properties of delivery: backoff, the flush and its dispositions, the queue of
  a batcher, the adapters and the receiver, each with a small witness.
\<close>

section \<open>A small batcher\<close>

definition demo_policy :: RetryPolicy where
  "demo_policy = \<lparr>InitialBackoff = 0, MaxBackoff = 0, MaxElapsed = 0\<rparr>"

definition demo_batcher :: "adapter \<Rightarrow> batcher" where
  "demo_batcher ad = \<lparr>Provider = ''p'', b_Adapter = ad, b_Retry = demo_policy,
     has_Metrics = False, has_Logger = False\<rparr>"

definition demo_metronome :: metronome where
  "demo_metronome = metronome_New [] ''token''"

definition demo_q :: "string \<Rightarrow> queued" where
  "demo_q i = \<lparr>q_event = \<lparr>ID = i, CustomerID = ''c'', EventName = ''n'', Timestamp = zero_time,
     Properties = [], Route = []\<rparr>, q_attempt = 0, q_firstQueue = 0\<rparr>"

definition idle_backend :: "unit backend" where
  "idle_backend = \<lparr>be_Ack = (\<lambda>i p d s. (None, s)), be_Put = (\<lambda>p e r m s. (None, s))\<rparr>"

definition idle_env :: "unit env" where
  "idle_env = \<lparr>env_backend = (), env_obs = []\<rparr>"

lemma demo_backoff: "backoff demo_policy a dr = Returns (int dr mod
    (min (1000000000 * 2 ^ nat (a - 1)) 120000000000 + 1))"
  using backoff_value [of demo_policy a dr]
  by (simp add: demo_policy_def withDefaults_def)

section \<open>Backoff\<close>

text \<open>
  C38. The delay before a retry is full jitter under a doubling, capped bound: for
  backoffs below 2 to the 62 nanoseconds the loop does not wrap around, the random
  draw does not panic, and the delay is the draw modulo one more than the initial
  backoff doubled once per earlier attempt and cut at the maximum.
\<close>

theorem backoff_is_full_jitter:
  assumes "InitialBackoff (withDefaults p) < 2 ^ 62" "MaxBackoff (withDefaults p) \<le> 2 ^ 62"
  shows "backoff p attempt draw = Returns (int draw mod
    (min (InitialBackoff (withDefaults p) * 2 ^ nat (attempt - 1)) (MaxBackoff (withDefaults p)) + 1))"
  using assms by (rule backoff_value)

theorem backoff_is_full_jitter_witness:
  "backoff demo_policy 3 4000000007 = Returns 6"
  using backoff_is_full_jitter [of demo_policy 3 4000000007]
  by (simp add: demo_policy_def withDefaults_def)

section \<open>Flushing\<close>

text \<open>
  C10. A flush does to each event of its batch exactly what its fate says, in batch
  order: a delivered event is acked, a parked one is put into the dead-letter queue
  and then acked as dead-lettered, and precisely the retried ones are handed to a timer,
  with one more attempt and the time they first entered the queue.
\<close>

theorem flush_does_the_fates:
  assumes "batcher_flush b be sent tk batch env = (Returns rs, env')"
  shows "env_backend env' = fold (perform b be)
      (concat (map (\<lambda>k. fate_calls (batch ! k) (flush_fate b sent tk batch k)) [0..<length batch]))
      (env_backend env)
    \<and> map fst rs = map (\<lambda>k. (batch ! k)\<lparr>q_attempt := q_attempt (batch ! k) + 1\<rparr>)
      (filter (\<lambda>k. flush_fate b sent tk batch k = Retried) [0..<length batch])"
  using flush_backend [OF assms] by blast

theorem flush_does_the_fates_witness:
  "let b = demo_batcher (metronome_adapter demo_metronome) in
   map fst (case fst (batcher_flush b idle_backend (metronome_answer (Response 503 [])) (\<lambda>_. (0, 0))
     [demo_q ''a''] idle_env) of Returns rs \<Rightarrow> rs | Panics \<Rightarrow> []) = [(demo_q ''a'')\<lparr>q_attempt := 1\<rparr>]"
proof -
  let ?b = "demo_batcher (metronome_adapter demo_metronome)"
  obtain rs env' where f: "batcher_flush ?b idle_backend (metronome_answer (Response 503 [])) (\<lambda>_. (0, 0))
      [demo_q ''a''] idle_env = (Returns rs, env')"
    by (rule flush_returns [of ?b]) (simp add: demo_batcher_def demo_backoff)
  have "flush_fate ?b (metronome_answer (Response 503 [])) (\<lambda>_. (0, 0)) [demo_q ''a''] 0 = Retried"
    by (simp add: flush_fate_def demo_batcher_def metronome_adapter_def metronome_Encode_def metronome_answer_def
        metronome_Classify_def fate_of_def demo_policy_def withDefaults_def demo_q_def)
  with flush_does_the_fates [OF f] f show ?thesis by (simp add: Let_def demo_q_def)
qed



text \<open>
  C31. What becomes of an event sent to Metronome. Its batch goes out in one request to the adapter's endpoint with its
  token as the bearer; a 2xx answer delivers the event; a 4xx other than 429
  parks it as a permanent failure; 429, 5xx, any other status or no answer at all retry
  it until its retry budget is spent, and then park it as exhausted.
\<close>

theorem metronome_fate:
  assumes "b_Adapter b = metronome_adapter a" "k < length batch"
  shows "flush_fate b (metronome_Send a http body) tk batch k =
    (let retry = (\<lambda>e. if fst (tk k) - q_firstQueue (batch ! k) \<ge> MaxElapsed (withDefaults (b_Retry b))
           then Parked (''retry budget exhausted: '' @ error_text e) False else Retried)
     in case http \<lparr>po_URL = m_Endpoint a, po_Header = [(''Content-Type'', ''application/json''),
                  (''Authorization'', ''Bearer '' @ m_Token a)], po_Body = body\<rparr> of
       BadRequest e \<Rightarrow> retry (GoError (''metronome: build request: '' @ e))
     | NoResponse e \<Rightarrow> retry (GoError (''metronome: send: '' @ e))
     | Response status text \<Rightarrow>
         (let e = SendError status (take 65536 text) in
          if 200 \<le> status \<and> status < 300 then Delivered
          else if 400 \<le> status \<and> status < 500 \<and> status \<noteq> 429 then Parked (error_text e) True
          else retry e))"
  unfolding metronome_Send_def metronome_request_def
  by (cases "http \<lparr>po_URL = m_Endpoint a, po_Header = [(''Content-Type'', ''application/json''),
      (''Authorization'', ''Bearer '' @ m_Token a)], po_Body = body\<rparr>")
    (simp_all add: flush_fate_def assms(1) metronome_adapter_def metronome_Encode_def
      metronome_answer_def metronome_Classify_def fate_of_def result_verdict_def byID_def Let_def)

theorem metronome_fate_witness:
  "flush_fate (demo_batcher (metronome_adapter demo_metronome))
     (metronome_Send demo_metronome (\<lambda>r. if po_Header r ! 1 = (''Authorization'', ''Bearer token'')
        then Response 422 ''bad'' else NoResponse []) ''[]'') (\<lambda>_. (0, 0)) [demo_q ''a''] 0
     = Parked ''metronome: unexpected status 422: bad'' True"
proof -
  have "show_int 422 = ''422''" by code_simp
  then show ?thesis
    using metronome_fate [of "demo_batcher (metronome_adapter demo_metronome)" demo_metronome 0 "[demo_q ''a'']"
        "\<lambda>r. if po_Header r ! 1 = (''Authorization'', ''Bearer token'') then Response 422 ''bad'' else NoResponse []"
        "''[]''" "\<lambda>_. (0, 0)"]
    by (simp add: demo_batcher_def demo_metronome_def metronome_New_def Let_def sendError_Error_def)
qed

text \<open>A Metronome provider is only built with a token, and sends it, to the configured endpoint or the default.\<close>

theorem metronome_is_configured:
  assumes "buildAdapter getenv pc = Inr ad" "pc_Type pc = ''metronome''"
  shows "\<exists>a. ad = metronome_adapter a \<and> getenv (pc_TokenEnv pc) \<noteq> []
     \<and> po_Header (metronome_request a body) ! 1 = (''Authorization'', ''Bearer '' @ getenv (pc_TokenEnv pc))
     \<and> po_URL (metronome_request a body) = (if pc_Endpoint pc = [] then DefaultEndpoint else pc_Endpoint pc)"
proof -
  define a where "a = (metronome_New (pc_Endpoint pc) (getenv (pc_TokenEnv pc)))
     \<lparr>m_MaxBatch := max 0 (MaxEvents (pc_Batch pc))\<rparr>"
  have "ad = metronome_adapter a" "getenv (pc_TokenEnv pc) \<noteq> []"
    using assms by (auto simp: buildAdapter_def a_def metronome_New_def Let_def split: if_splits)
  then show ?thesis by (intro exI [of _ a]) (simp add: a_def metronome_New_def metronome_request_def)
qed

theorem metronome_is_configured_witness:
  "\<exists>a. buildAdapter (\<lambda>_. ''secret'') \<lparr>pc_Type = ''metronome'', pc_Endpoint = [], pc_TokenEnv = ''T'',
       pc_Batch = \<lparr>MaxEvents = 0, cfg_Linger = 0\<rparr>, pc_Retry = \<lparr>cfg_MaxElapsed = 0, cfg_MaxInterval = 0\<rparr>\<rparr>
      = Inr (metronome_adapter a) \<and> po_URL (metronome_request a []) = DefaultEndpoint"
proof -
  let ?pc = "\<lparr>pc_Type = ''metronome'', pc_Endpoint = [], pc_TokenEnv = ''T'',
       pc_Batch = \<lparr>MaxEvents = 0, cfg_Linger = 0\<rparr>, pc_Retry = \<lparr>cfg_MaxElapsed = 0, cfg_MaxInterval = 0\<rparr>\<rparr>"
  obtain ad where "buildAdapter (\<lambda>_. ''secret'') ?pc = Inr ad" by (simp add: buildAdapter_def Let_def)
  from metronome_is_configured [OF this, of "[]"] this show ?thesis by auto
qed

section \<open>The queue\<close>

text \<open>
  C15. Backpressure bounds, in every reachable state: at most 1024 events are buffered
  in the channel and at most four flushes are in flight; and until \<^verbatim>\<open>Close\<close> starts to drain,
  the batch being gathered stays below the maximum batch size and every batch handed
  over is non-empty and within it, which for Metronome is at most 100 events, whatever the configuration says.
\<close>

theorem queue_bounds:
  assumes "bruns b be (batcher_New env) ls s"
  shows "length (in_ch s) \<le> 1024 \<and> length (inflight s) \<le> 4
     \<and> (\<not> draining s \<longrightarrow> length (pending s) < effective_max b
         \<and> (\<forall>batch. handoff s = Some batch \<or> Sending batch \<in> set (inflight s) \<longrightarrow>
              0 < length batch \<and> length batch \<le> effective_max b
              \<and> (b_Adapter b = metronome_adapter a \<longrightarrow> length batch \<le> 100)))"
proof -
  have m: "b_Adapter b = metronome_adapter a \<Longrightarrow> effective_max b \<le> 100"
    using metronome.gathered_within [of b a] by simp
  show ?thesis
    using bruns_bounds [OF assms] m
    by (force simp: batcher_bounds_def chan_capacity_def defaultMaxInFlight_def)
qed

theorem queue_bounds_witness:
  "length (pending (batcher_New idle_env)) < effective_max (demo_batcher (metronome_adapter demo_metronome))"
  using queue_bounds [OF bruns.start [of "demo_batcher (metronome_adapter demo_metronome)" idle_backend "batcher_New idle_env"]]
  by (simp add: batcher_New_def)

text \<open>
  C14. Conservation: in every run, the events taken in (with the time they were taken in) are,
  counted with multiplicity, those still held somewhere in the batcher, those settled by a flush
  (delivered or parked) and those dropped at the closed channel; and
  before \<^verbatim>\<open>Close\<close> nothing is dropped.
\<close>

theorem queue_conserves:
  assumes "bruns b be (batcher_New env) ls s"
  shows "tally entered ls = items (held s) + tally settled ls + tally gone ls
     \<and> (\<not> closeCh_closed s \<longrightarrow> tally gone ls = {#})"
  using bruns_items [OF assms] bruns_closed_mono [OF assms]
  by (simp add: held_def batcher_New_def)

theorem queue_conserves_witness:
  "\<exists>s. bruns (demo_batcher (metronome_adapter demo_metronome)) idle_backend (batcher_New idle_env) [Enqueued (demo_q ''a'')] s
     \<and> items (held s) = {#item (demo_q ''a'')#}"
proof -
  let ?b = "demo_batcher (metronome_adapter demo_metronome)" and ?s = "(batcher_New idle_env)\<lparr>senders := [demo_q ''a'']\<rparr>"
  have "bstep ?b idle_backend (batcher_New idle_env) (Enqueued (demo_q ''a'')) ?s"
    using bstep.enqueue [of "demo_q ''a''" "q_event (demo_q ''a'')" 0 ?b idle_backend "batcher_New idle_env"]
    by (simp add: batcher_New_def demo_q_def)
  from bruns.more [OF bruns.start this]
  have r: "bruns ?b idle_backend (batcher_New idle_env) [Enqueued (demo_q ''a'')] ?s" by simp
  with queue_conserves [OF r] show ?thesis
    by (intro exI [of _ ?s]) (simp add: tally_def batcher_New_def)
qed

section \<open>Closing\<close>

lemma bruns_one: "bstep b be s l s' \<Longrightarrow> bruns b be s [l] s'"
  using bruns.more [OF bruns.start] by fastforce

lemma bruns_trans: "bruns b be t ms u \<Longrightarrow> bruns b be s ls t \<Longrightarrow> bruns b be s (ls @ ms) u"
proof (induction rule: bruns.induct)
  case (more ms u l v)
  then show ?case using bruns.more [of b be s "ls @ ms" u l v] by simp
qed simp

text \<open>
  C16. \<^verbatim>\<open>Close\<close> returns: once it was called, in every reachable state in which it has not
  returned yet the batcher can take a step of its own, and every step of its own that changes
  something leaves less work; so only new events and firing timers can prolong it. The adapter's \<^verbatim>\<open>Send\<close>
  must answer and the backoff must not panic.
\<close>

theorem close_makes_progress:
  assumes "bruns b be (batcher_New env) ls s" "closeCh_closed s" "\<not> close_returns s"
    and "\<And>a dr. backoff (b_Retry b) a dr \<noteq> Panics" "\<And>body. \<exists>r. Send (b_Adapter b) body r"
  shows "(\<exists>l s'. bstep b be s l s' \<and> own_label l \<and> s' \<noteq> s)
     \<and> (\<forall>l s'. bstep b be s l s' \<and> own_label l \<and> s' \<noteq> s \<longrightarrow> work s' < work s)"
  using close_progress [OF bruns_bounds [OF assms(1)] assms(2-5)] work_step bruns_bounds [OF assms(1)]
  by blast

theorem close_makes_progress_witness:
  "\<exists>l s'. bstep (demo_batcher (metronome_adapter demo_metronome)) idle_backend ((batcher_New idle_env)\<lparr>closeCh_closed := True\<rparr>) l s'
     \<and> own_label l \<and> s' \<noteq> (batcher_New idle_env)\<lparr>closeCh_closed := True\<rparr>"
proof -
  let ?b = "demo_batcher (metronome_adapter demo_metronome)" and ?s = "(batcher_New idle_env)\<lparr>closeCh_closed := True\<rparr>"
  have "bstep ?b idle_backend (batcher_New idle_env) Internal ?s"
    by (rule bstep.close) (simp add: batcher_New_def)
  from bruns_one [OF this] have r: "bruns ?b idle_backend (batcher_New idle_env) [Internal] ?s" .
  have "\<exists>r. Send (b_Adapter ?b) body r" for body
    by (auto simp: demo_batcher_def metronome_adapter_def)
  then show ?thesis
    using close_makes_progress [OF r] by (simp add: demo_batcher_def demo_backoff close_returns_def batcher_New_def)
qed

text \<open>A queue filled and then closed: the drain gathers everything into one batch.\<close>

lemma fill_run:
  "n \<le> chan_capacity \<Longrightarrow> \<exists>ls. bruns b be (batcher_New env) ls ((batcher_New env)\<lparr>in_ch := replicate n (demo_q i)\<rparr>)"
proof (induction n)
  case 0
  have "(batcher_New env)\<lparr>in_ch := []\<rparr> = batcher_New env" by (simp add: batcher_New_def)
  then show ?case using bruns.start by (metis replicate_0)
next
  case (Suc n)
  let ?S = "\<lambda>sn n. (batcher_New env)\<lparr>in_ch := replicate n (demo_q i), senders := sn\<rparr>"
  obtain ls where "bruns b be (batcher_New env) ls ((batcher_New env)\<lparr>in_ch := replicate n (demo_q i)\<rparr>)"
    using Suc by auto
  moreover have "(batcher_New env)\<lparr>in_ch := replicate n (demo_q i)\<rparr> = ?S [] n" by (simp add: batcher_New_def)
  ultimately have "bruns b be (batcher_New env) ls (?S [] n)" by simp
  moreover have "bstep b be (?S [] n) (Enqueued (demo_q i)) (?S [demo_q i] n)"
    using bstep.enqueue [of "demo_q i" "q_event (demo_q i)" 0 b be "?S [] n"] by (simp add: demo_q_def)
  moreover have "bstep b be (?S [demo_q i] n) Internal (?S [] (Suc n))"
    using bstep.admit [of "?S [demo_q i] n" "[]" "demo_q i" "[]" b be] Suc.prems
    by (simp add: replicate_append_same batcher_New_def)
  ultimately have "bruns b be (batcher_New env) ((ls @ [Enqueued (demo_q i)]) @ [Internal]) (?S [] (Suc n))"
    by (meson bruns.more)
  moreover have "(batcher_New env)\<lparr>in_ch := replicate (Suc n) (demo_q i)\<rparr> = ?S [] (Suc n)" by (simp add: batcher_New_def)
  ultimately show ?case by metis
qed

lemma drain_run:
  assumes "draining s" "handoff s = None" "\<not> stopped s"
  shows "\<exists>ls. bruns b be (s\<lparr>in_ch := qs\<rparr>) ls (s\<lparr>in_ch := [], pending := pending s @ qs\<rparr>)"
  using assms
proof (induction qs arbitrary: s)
  case Nil
  have "s\<lparr>in_ch := [], pending := pending s @ []\<rparr> = s\<lparr>in_ch := []\<rparr>" by simp
  then show ?case using bruns.start by metis
next
  case (Cons q qs)
  let ?t = "s\<lparr>pending := pending s @ [q]\<rparr>"
  have "bstep b be (s\<lparr>in_ch := q # qs\<rparr>) Internal (?t\<lparr>in_ch := qs\<rparr>)"
    using bstep.receive [of "s\<lparr>in_ch := q # qs\<rparr>" q qs b be] Cons.prems
    by (cases s) (simp add: run_receive_def Let_def)
  moreover obtain ls where "bruns b be (?t\<lparr>in_ch := qs\<rparr>) ls (?t\<lparr>in_ch := [], pending := pending ?t @ qs\<rparr>)"
    using Cons.IH [of ?t] Cons.prems by auto
  ultimately have "bruns b be (s\<lparr>in_ch := q # qs\<rparr>) ([Internal] @ ls) (?t\<lparr>in_ch := [], pending := pending ?t @ qs\<rparr>)"
    using bruns_trans bruns_one by blast
  then show ?case by auto
qed

text \<open>
  C39. The final flush of \<^verbatim>\<open>Close\<close> ignores the maximum batch size: for every batcher whose maximum is
  below the channel's capacity there is a run in which the drain hands one batch of more events than the
  maximum to the adapter (101 events to Metronome, whose limit is 100 per request).
\<close>

theorem final_flush_exceeds_maximum:
  assumes "effective_max b < chan_capacity"
  shows "\<exists>ls s batch. bruns b be (batcher_New env) ls s \<and> Sending batch \<in> set (inflight s) \<and> effective_max b < length batch"
proof -
  let ?n = "Suc (effective_max b)" and ?q = "demo_q ''a''"
  let ?qs = "replicate ?n ?q"
  obtain ls where l1: "bruns b be (batcher_New env) ls ((batcher_New env)\<lparr>in_ch := ?qs\<rparr>)"
    using fill_run [of ?n b be env "''a''"] assms by auto
  let ?c = "(batcher_New env)\<lparr>closeCh_closed := True, draining := True\<rparr>"
  have "bstep b be ((batcher_New env)\<lparr>in_ch := ?qs\<rparr>) Internal ((batcher_New env)\<lparr>in_ch := ?qs, closeCh_closed := True\<rparr>)"
    using bstep.close [of "(batcher_New env)\<lparr>in_ch := ?qs\<rparr>" b be] by (simp add: batcher_New_def)
  moreover have "bstep b be ((batcher_New env)\<lparr>in_ch := ?qs, closeCh_closed := True\<rparr>) Internal (?c\<lparr>in_ch := ?qs\<rparr>)"
    using bstep.drain [of "(batcher_New env)\<lparr>in_ch := ?qs, closeCh_closed := True\<rparr>" b be] by (simp add: batcher_New_def)
  moreover obtain ms where "bruns b be (?c\<lparr>in_ch := ?qs\<rparr>) ms (?c\<lparr>in_ch := [], pending := ?qs\<rparr>)"
    using drain_run [of ?c b be ?qs] by (auto simp: batcher_New_def)
  moreover have "bstep b be (?c\<lparr>in_ch := [], pending := ?qs\<rparr>) Internal (?c\<lparr>in_ch := [], pending := [], handoff := Some ?qs\<rparr>)"
    using bstep.drained [of "?c\<lparr>in_ch := [], pending := ?qs\<rparr>" b be] by (simp add: batcher_New_def run_flush_def)
  moreover have "bstep b be (?c\<lparr>in_ch := [], pending := [], handoff := Some ?qs\<rparr>) Internal
      (?c\<lparr>in_ch := [], pending := [], handoff := None, inflight := [Sending ?qs], stopped := True\<rparr>)"
    using bstep.acquire [of "?c\<lparr>in_ch := [], pending := [], handoff := Some ?qs\<rparr>" ?qs b be]
    by (simp add: batcher_New_def defaultMaxInFlight_def)
  ultimately have "\<exists>ls. bruns b be (batcher_New env) ls
      (?c\<lparr>in_ch := [], pending := [], handoff := None, inflight := [Sending ?qs], stopped := True\<rparr>)"
    using l1 by (meson bruns.more bruns_trans)
  then obtain ls' where "bruns b be (batcher_New env) ls'
      (?c\<lparr>in_ch := [], pending := [], handoff := None, inflight := [Sending ?qs], stopped := True\<rparr>)" by blast
  moreover have "effective_max b < length ?qs" by simp
  ultimately show ?thesis
    by (intro exI [of _ ls'] exI [of _ "?c\<lparr>in_ch := [], pending := [], handoff := None, inflight := [Sending ?qs], stopped := True\<rparr>"]
        exI [of _ ?qs]) (simp del: replicate_Suc)
qed

theorem final_flush_exceeds_maximum_witness:
  "\<exists>ls s batch. bruns (demo_batcher (metronome_adapter demo_metronome)) idle_backend (batcher_New idle_env) ls s
     \<and> Sending batch \<in> set (inflight s) \<and> 100 < length batch"
proof -
  have e: "effective_max (demo_batcher (metronome_adapter demo_metronome)) = 100"
    by (simp add: effective_max_def demo_batcher_def metronome_adapter_def metronome_MaxBatchSize_def MaxBatchSize_limit_def
      demo_metronome_def metronome_New_def)
  from final_flush_exceeds_maximum [of "demo_batcher (metronome_adapter demo_metronome)" idle_backend idle_env]
  show ?thesis by (simp add: e chan_capacity_def)
qed

section \<open>Adapters\<close>



section \<open>The receiver\<close>

text \<open>
  All or nothing at the door: a request refused as invalid has touched nothing and was not
  entirely acceptable; any other request was entirely acceptable, and every event was offered
  to the sink in order with the providers it routes to. Only a request without an error
  counts as received, with all its events.
\<close>

theorem ingest_outcome:
  "case Ingest r snk now es s of (err, s', n) \<Rightarrow>
     (case err of
        Some (ValidationError msg) \<Rightarrow> s' = s \<and> n = 0 \<and> \<not> (es \<noteq> [] \<and> list_all (acceptable r now) es)
      | _ \<Rightarrow> es \<noteq> [] \<and> list_all (acceptable r now) es \<and> n = (if err = None then length es else 0)
          \<and> append_all snk (map (\<lambda>e. (e, routed r e)) es) s = (err, s'))"
proof -
  obtain err s' n where i: "Ingest r snk now es s = (err, s', n)" by (metis prod_cases3)
  show ?thesis
    using Ingest_refused [of r snk now es s] Ingest_routed [OF i] i
    by (cases err) (auto split: ingest_error.split)
qed

text \<open>
  Both transports do the same: for a JSON body and a gRPC message that stand for the same
  events, the state after the request is the same and the status codes correspond (202 and
  OK, 400 and InvalidArgument, 503 and Unavailable).
\<close>

theorem transports_agree:
  assumes "decodeEvents body = Inr (toEvents (GetEvents req))"
  shows "snd (handleEvents r snk now body s) = snd (Server_Ingest r snk now req s)
     \<and> (fst (handleEvents r snk now body s), map_sum fst id (fst (Server_Ingest r snk now req s)))
         \<in> {(202, Inr IngestResponse), (400, Inl InvalidArgument), (503, Inl Unavailable)}"
proof -
  obtain err s' n where i: "Ingest r snk now (toEvents (GetEvents req)) s = (err, s', n)" by (metis prod_cases3)
  show ?thesis
    using assms i
    by (cases err) (auto simp: handleEvents_def Server_Ingest_def http_status_def grpc_status_def split: ingest_error.split)
qed

theorem transports_agree_witness:
  "\<forall>r (snk :: unit sink) now. (\<exists>msg. fst (Server_Ingest r snk now (Some \<lparr>pb_Events = []\<rparr>) ()) = Inl (InvalidArgument, msg))
     \<and> fst (handleEvents r snk now ''[]'' ()) = 400"
proof (intro allI)
  fix r and snk :: "unit sink" and now
  have "decodeEvents ''[]'' = Inr (toEvents (GetEvents (Some \<lparr>pb_Events = []\<rparr>)))" by code_simp
  from transports_agree [OF this, of r snk now "()"]
  show "(\<exists>msg. fst (Server_Ingest r snk now (Some \<lparr>pb_Events = []\<rparr>) ()) = Inl (InvalidArgument, msg))
     \<and> fst (handleEvents r snk now ''[]'' ()) = 400"
    by (auto simp: Server_Ingest_def Ingest_def grpc_status_def toEvents_def GetEvents_def)
qed

end
