(* ===== verification/Cli.thy ===== *)
theory Cli
  imports Http
begin

text \<open>
  cmd/tallyd/main.go: the command line. The three client commands parse their flags
  (Go's \<^verbatim>\<open>flag\<close> with \<^verbatim>\<open>ExitOnError\<close>, its usage text left out), send one HTTP request to a running
  daemon, print the answer's body and turn its status into an exit code; the daemon's side of the exchange is
  in \<open>Http\<close>, its start-up and shutdown in \<open>Daemon\<close>.
\<close>

section \<open>Flags\<close>

datatype flag_kind = StringFlag | BoolFlag

datatype flag_result =
    Flags "(string, string) gomap"
  | FlagExit int

text \<open>\<^verbatim>\<open>strconv.ParseBool\<close>, as the value the flag then has.\<close>

definition parse_bool :: "string \<Rightarrow> string option" where
  "parse_bool s =
     (if s \<in> {''1'', ''t'', ''T'', ''TRUE'', ''true'', ''True''} then Some ''true''
      else if s \<in> {''0'', ''f'', ''F'', ''FALSE'', ''false'', ''False''} then Some ''false''
      else None)"

text \<open>A flag's name and the value after its equals sign; \<open>None\<close> is an argument that ends the flags.\<close>

definition flag_argument :: "string \<Rightarrow> (string \<times> string option) option" where
  "flag_argument a =
     (case a of
        CHR ''-'' # c # s \<Rightarrow>
          (let body = (if c = CHR ''-'' then s else c # s) in
           if body = [] then None
           else if CHR ''='' \<in> set (tl body)
             then Some (hd body # takeWhile ((\<noteq>) (CHR ''='')) (tl body),
                        Some (drop 1 (dropWhile ((\<noteq>) (CHR ''='')) (tl body))))
           else Some (body, None))
      | _ \<Rightarrow> None)"

definition bad_flag_name :: "string \<Rightarrow> bool" where
  "bad_flag_name name \<longleftrightarrow> name = [] \<or> hd name = CHR ''-'' \<or> hd name = CHR ''=''"

fun flag_Parse :: "(string, flag_kind) gomap \<Rightarrow> string list \<Rightarrow> (string, string) gomap \<Rightarrow> flag_result" where
  "flag_Parse fs [] vals = Flags vals"
| "flag_Parse fs (a # args) vals =
     (case flag_argument a of
        None \<Rightarrow> Flags vals
      | Some (name, val) \<Rightarrow>
          (if bad_flag_name name then FlagExit 2
           else case map_of fs name of
             None \<Rightarrow> FlagExit (if name = ''help'' \<or> name = ''h'' then 0 else 2)
           | Some BoolFlag \<Rightarrow>
               (case (case val of None \<Rightarrow> Some ''true'' | Some v \<Rightarrow> parse_bool v) of
                  None \<Rightarrow> FlagExit 2
                | Some v \<Rightarrow> flag_Parse fs args (AList.update name v vals))
           | Some StringFlag \<Rightarrow>
               (case val of
                  Some v \<Rightarrow> flag_Parse fs args (AList.update name v vals)
                | None \<Rightarrow>
                    (case args of
                       [] \<Rightarrow> FlagExit 2
                     | v # args' \<Rightarrow> flag_Parse fs args' (AList.update name v vals)))))"

section \<open>Building the request\<close>

datatype client_call =
    Request http_request
  | UsageError string
  | Exited int

definition defaultAddr :: string where
  "defaultAddr = ''http://127.0.0.1:8999''"

definition dlq_flags :: "(string, flag_kind) gomap" where
  "dlq_flags = [(''provider'', StringFlag), (''addr'', StringFlag), (''include-poison'', BoolFlag)]"

definition dlq_defaults :: "(string, string) gomap" where
  "dlq_defaults = [(''provider'', []), (''addr'', defaultAddr), (''include-poison'', ''false'')]"

definition flag_value :: "(string, string) gomap \<Rightarrow> string \<Rightarrow> string" where
  "flag_value vals name = (case map_of vals name of None \<Rightarrow> [] | Some v \<Rightarrow> v)"

text \<open>\<^verbatim>\<open>runDLQReplay\<close> and \<^verbatim>\<open>runDLQShow\<close> up to the request; they differ in three words.\<close>

definition dlq_request :: "string \<Rightarrow> string \<Rightarrow> string \<Rightarrow> string list \<Rightarrow> client_call" where
  "dlq_request cmd verb path args =
     (case flag_Parse dlq_flags args dlq_defaults of
        FlagExit n \<Rightarrow> Exited n
      | Flags vals \<Rightarrow>
          (if flag_value vals ''provider'' = [] then UsageError (cmd @ '': -provider is required'')
           else Request \<lparr>hr_Method = verb, hr_Addr = flag_value vals ''addr'', hr_Path = path,
             hr_Query = Values_Encode ([(''provider'', flag_value vals ''provider'')]
               @ (if flag_value vals ''include-poison'' = ''true'' then [(''include_poison'', ''true'')] else [])), hr_Body = []\<rparr>))"

definition status_request :: "string list \<Rightarrow> client_call" where
  "status_request args =
     (case flag_Parse [(''addr'', StringFlag)] args [(''addr'', defaultAddr)] of
        FlagExit n \<Rightarrow> Exited n
      | Flags vals \<Rightarrow> Request \<lparr>hr_Method = ''GET'', hr_Addr = flag_value vals ''addr'',
          hr_Path = ''/v1/status'', hr_Query = [], hr_Body = []\<rparr>)"

section \<open>Commands\<close>

datatype command =
    ReplayCommand "string list"
  | ShowCommand "string list"
  | StatusCommand "string list"
  | RunCommand "string list"

text \<open>\<^verbatim>\<open>main\<close>'s choice; the argument is \<^verbatim>\<open>os.Args[1:]\<close>.\<close>

definition main_command :: "string list \<Rightarrow> command" where
  "main_command args =
     (case args of
        a # b # rest \<Rightarrow>
          (if a = ''dlq'' \<and> b = ''replay'' then ReplayCommand rest
           else if a = ''dlq'' \<and> b = ''show'' then ShowCommand rest
           else if a = ''status'' then StatusCommand (b # rest)
           else RunCommand args)
      | [a] \<Rightarrow> if a = ''status'' then StatusCommand [] else RunCommand args
      | [] \<Rightarrow> RunCommand args)"

record outcome =
  oc_Stdout :: string
  oc_Stderr :: string
  oc_Exit :: int

definition fails_with :: "string \<Rightarrow> string \<Rightarrow> outcome" where
  "fails_with out msg = \<lparr>oc_Stdout = out, oc_Stderr = ''tallyd: '' @ msg @ [newline], oc_Exit = 1\<rparr>"

text \<open>What follows the request. The status line's text is the library's.\<close>

definition finish_client :: "(int \<Rightarrow> string) \<Rightarrow> string \<Rightarrow> exchange \<Rightarrow> outcome" where
  "finish_client status_line cmd x =
     (case x of
        NotSent e \<Rightarrow> fails_with [] (cmd @ '': '' @ e)
      | Unreadable e \<Rightarrow> fails_with [] (cmd @ '': read response: '' @ e)
      | Answer code body \<Rightarrow>
          (if code \<noteq> 200 then fails_with (body @ [newline]) (cmd @ '': server returned '' @ status_line code)
           else \<lparr>oc_Stdout = body @ [newline], oc_Stderr = [], oc_Exit = 0\<rparr>))"

definition run_client ::
  "(int \<Rightarrow> string) \<Rightarrow> string \<Rightarrow> client_call \<Rightarrow> (http_request \<Rightarrow> 's \<Rightarrow> exchange \<times> 's) \<Rightarrow> 's \<Rightarrow> outcome \<times> 's" where
  "run_client status_line cmd call net s =
     (case call of
        Exited n \<Rightarrow> (\<lparr>oc_Stdout = [], oc_Stderr = [], oc_Exit = n\<rparr>, s)
      | UsageError msg \<Rightarrow> (fails_with [] msg, s)
      | Request rq \<Rightarrow> (case net rq s of (x, s') \<Rightarrow> (finish_client status_line cmd x, s')))"

text \<open>The client commands of \<^verbatim>\<open>main\<close>; \<open>None\<close> is the daemon's own command.\<close>

definition tallyd_client ::
  "(int \<Rightarrow> string) \<Rightarrow> string list \<Rightarrow> (http_request \<Rightarrow> 's \<Rightarrow> exchange \<times> 's) \<Rightarrow> 's \<Rightarrow> (outcome \<times> 's) option" where
  "tallyd_client status_line args net s =
     (case main_command args of
        ReplayCommand as \<Rightarrow> Some (run_client status_line ''dlq replay''
          (dlq_request ''dlq replay'' ''POST'' ''/v1/dlq/replay'' as) net s)
      | ShowCommand as \<Rightarrow> Some (run_client status_line ''dlq show''
          (dlq_request ''dlq show'' ''GET'' ''/v1/dlq'' as) net s)
      | StatusCommand as \<Rightarrow> Some (run_client status_line ''status'' (status_request as) net s)
      | RunCommand as \<Rightarrow> None)"

section \<open>The flags of the client commands\<close>

definition dlq_args :: "string \<Rightarrow> bool \<Rightarrow> string list" where
  "dlq_args p poison = [''-provider'', p] @ (if poison then [''-include-poison''] else [])"

lemma dlq_args_parse:
  "flag_Parse dlq_flags (dlq_args p poison) dlq_defaults =
     Flags [(''provider'', p), (''addr'', defaultAddr), (''include-poison'', if poison then ''true'' else ''false'')]"
  by (simp add: dlq_args_def dlq_flags_def dlq_defaults_def flag_argument_def bad_flag_name_def)

definition provider_query :: "string \<Rightarrow> bool \<Rightarrow> string" where
  "provider_query p poison =
     Values_Encode ([(''provider'', p)] @ (if poison then [(''include_poison'', ''true'')] else []))"

lemma dlq_request_args:
  "p \<noteq> [] \<Longrightarrow> dlq_request cmd verb path (dlq_args p poison) =
     Request \<lparr>hr_Method = verb, hr_Addr = defaultAddr, hr_Path = path, hr_Query = provider_query p poison, hr_Body = []\<rparr>"
  by (simp add: dlq_request_def dlq_args_parse flag_value_def provider_query_def)

text \<open>The handler reads from the query what the flags said.\<close>

lemma query_arrives:
  "admin_request_of \<lparr>hr_Method = verb, hr_Addr = a, hr_Path = path, hr_Query = provider_query p poison, hr_Body = body\<rparr>
     = \<lparr>rq_Method = verb, rq_provider = p, rq_include_poison = (if poison then ''true'' else [])\<rparr>"
  by (simp add: admin_request_of_def provider_query_def Get_Encode)

section \<open>The whole exchange\<close>

definition client_outcome ::
  "(int \<Rightarrow> string) \<Rightarrow> (int \<Rightarrow> string) \<Rightarrow> string \<Rightarrow> ('b \<Rightarrow> json) \<Rightarrow> 'b response \<Rightarrow> outcome" where
  "client_outcome status_line page cmd body resp =
     (case resp of
        Failure code \<Rightarrow> fails_with (page code @ [newline, newline]) (cmd @ '': server returned '' @ status_line code)
      | Success b \<Rightarrow> \<lparr>oc_Stdout = json_text (body b) @ [newline, newline], oc_Stderr = [], oc_Exit = 0\<rparr>)"

lemma finish_answer:
  "\<forall>code. resp = Failure code \<longrightarrow> code \<noteq> 200 \<Longrightarrow>
     finish_client status_line cmd (answer_with page body resp) = client_outcome status_line page cmd body resp"
  by (cases resp) (simp_all add: finish_client_def answer_with_def client_outcome_def newline_after_def)

lemma client_exchange:
  assumes "\<forall>code. fst r = Failure code \<longrightarrow> code \<noteq> 200"
    and "net hr s = map_prod (answer_with page body) id r"
  shows "run_client status_line cmd (Request hr) net s
    = (client_outcome status_line page cmd body (fst r), snd r)"
  using finish_answer [OF assms(1)] assms(2) by (cases r) (simp add: run_client_def)

lemma client_show:
  assumes "p \<noteq> []"
  shows "tallyd_client status_line ([''dlq'', ''show''] @ dlq_args p poison) (pipeline_Handler page metrics) P
    = Some (map_prod (client_outcome status_line page ''dlq show'' show_json) id
        (dlqshow_ServeHTTP pipeline_store (map fst (Providers (p_config P)))
          \<lparr>rq_Method = ''GET'', rq_provider = p, rq_include_poison = (if poison then ''true'' else [])\<rparr> P))"
proof -
  let ?r = "dlqshow_ServeHTTP pipeline_store (map fst (Providers (p_config P)))
      \<lparr>rq_Method = ''GET'', rq_provider = p, rq_include_poison = (if poison then ''true'' else [])\<rparr> P"
  have "\<forall>code. fst ?r = Failure code \<longrightarrow> code \<noteq> 200" by (metis prod.collapse show_failure)
  from client_exchange [OF this] show ?thesis
    using assms by (simp add: tallyd_client_def main_command_def dlq_request_args pipeline_Handler_def query_arrives
        Let_def map_prod_def split_beta)
qed

lemma client_status:
  "tallyd_client status_line [''status''] (pipeline_Handler page metrics) P
    = Some (map_prod (client_outcome status_line page ''status'' status_json) id
        (status_ServeHTTP (\<lambda>P. UnackedCount (bk_wal (p_stores P))) pipeline_store (map fst (Providers (p_config P)))
          \<lparr>rq_Method = ''GET'', rq_provider = [], rq_include_poison = []\<rparr> P))"
proof -
  let ?r = "status_ServeHTTP (\<lambda>P. UnackedCount (bk_wal (p_stores P))) pipeline_store (map fst (Providers (p_config P)))
      \<lparr>rq_Method = ''GET'', rq_provider = [], rq_include_poison = []\<rparr> P"
  have q: "query_Get [] k = []" for k by (simp add: query_Get_def ParseQuery_def parse_pair_def map_filter_simps)
  have "\<forall>code. fst ?r = Failure code \<longrightarrow> code \<noteq> 200" by (metis prod.collapse status_failure)
  from client_exchange [OF this] show ?thesis
    by (simp add: tallyd_client_def main_command_def status_request_def flag_value_def pipeline_Handler_def
        admin_request_of_def q Let_def map_prod_def split_beta)
qed

lemma client_replay:
  assumes "p \<noteq> []"
  shows "tallyd_client status_line ([''dlq'', ''replay''] @ dlq_args p poison) (pipeline_Handler page metrics) P
    = Some (map_prod (client_outcome status_line page ''dlq replay'' replay_json) id (pipeline_replay
          \<lparr>rq_Method = ''POST'', rq_provider = p, rq_include_poison = (if poison then ''true'' else [])\<rparr> P))"
proof -
  let ?r = "pipeline_replay \<lparr>rq_Method = ''POST'', rq_provider = p, rq_include_poison = (if poison then ''true'' else [])\<rparr> P"
  have "\<forall>code. fst ?r = Failure code \<longrightarrow> code \<noteq> 200" by (metis prod.collapse replay_failure pipeline_replay_def)
  from client_exchange [OF this] show ?thesis
    using assms by (simp add: tallyd_client_def main_command_def dlq_request_args pipeline_Handler_def query_arrives
        Let_def map_prod_def split_beta)
qed

end
