(* ===== verification/Daemon.thy ===== *)
theory Daemon
  imports Cli
begin

text \<open>
  cmd/tallyd/main.go: \<^verbatim>\<open>run\<close>, the daemon's start-up and shutdown, with \<^verbatim>\<open>loadConfig\<close> and
  \<^verbatim>\<open>LoadConfig\<close> of internal/pipeline/config.go. What the outside decides (files, the YAML decoder,
  listeners, the event that ends the wait, the time the HTTP server takes to drain) is a record;
  the effects are listed in order.
\<close>

section \<open>Loading the configuration\<close>

definition zero_config :: Config where
  "zero_config = \<lparr>listen_HTTP = [], listen_GRPC = [], buffer_Dir = [], buffer_MaxBytes = 0, buffer_OnFull = [],
     Providers = [], routing_Default = [], routing_Rules = []\<rparr>"

text \<open>\<^verbatim>\<open>yaml.Unmarshal\<close> into a fresh configuration: a text, and the method it calls back for a duration.\<close>

type_synonym decoder = "(string + string \<Rightarrow> duration \<Rightarrow> string option \<times> duration) \<Rightarrow> string \<Rightarrow> string + Config"

definition LoadConfig :: "(string \<Rightarrow> string + string) \<Rightarrow> decoder \<Rightarrow> string \<Rightarrow> go_error + Config" where
  "LoadConfig readFile yaml path =
     (case readFile path of
        Inl e \<Rightarrow> Inl (GoError (''read config '' @ path @ '': '' @ e))
      | Inr text \<Rightarrow>
          (case yaml UnmarshalYAML text of
             Inl e \<Rightarrow> Inl (GoError (''parse config '' @ path @ '': '' @ e))
           | Inr cfg \<Rightarrow> Inr (applyDefaults cfg)))"

definition main_loadConfig :: "(string \<Rightarrow> string + string) \<Rightarrow> decoder \<Rightarrow> string \<Rightarrow> go_error + Config" where
  "main_loadConfig readFile yaml path = (if path = [] then Inr zero_config else LoadConfig readFile yaml path)"

section \<open>Running\<close>

datatype wakeup =
    ServerError string
  | ServerDone
  | Signal string

record world =
  wo_readFile :: "string \<Rightarrow> string + string"
  wo_yaml :: decoder
  wo_Build :: "Config \<Rightarrow> (go_error + pipeline) go"
  wo_isPermission :: "go_error \<Rightarrow> bool"
  wo_Listen :: "string \<Rightarrow> string option"
  wo_live :: "pipeline \<Rightarrow> pipeline \<times> wakeup"
  wo_Shutdown :: "string option"
  wo_drain :: "pipeline \<Rightarrow> pipeline"

datatype daemon_action =
    Hint string
  | StartGauges
  | BindHTTP string
  | CloseHTTP
  | BindGRPC string
  | ServeHTTP
  | ServeGRPC
  | LogWakeup string
  | ShutdownHTTP "string option"
  | StopGRPC
  | StopGauges
  | ClosePipeline

datatype daemon_result =
    FlagsExit int
  | DaemonPanic "daemon_action list"
  | Ran "go_error option" "daemon_action list" "pipeline option"

definition run_flags :: "(string, flag_kind) gomap" where
  "run_flags = [(''config'', StringFlag), (''listen'', StringFlag), (''grpc-listen'', StringFlag)]"

definition override_listen :: "(string, string) gomap \<Rightarrow> Config \<Rightarrow> Config" where
  "override_listen vals cfg =
     cfg\<lparr>listen_HTTP := (if flag_value vals ''listen'' \<noteq> [] then flag_value vals ''listen'' else listen_HTTP cfg),
         listen_GRPC := (if flag_value vals ''grpc-listen'' \<noteq> [] then flag_value vals ''grpc-listen'' else listen_GRPC cfg)\<rparr>"

text \<open>From the end of the wait to the return.\<close>

definition shutdown :: "world \<Rightarrow> bool \<Rightarrow> daemon_action list \<Rightarrow> pipeline \<Rightarrow> daemon_result" where
  "shutdown w grpc acts P =
     (let acts' = acts @ [ShutdownHTTP (wo_Shutdown w)] @ (if grpc then [StopGRPC] else []) @ [StopGauges, ClosePipeline]
      in case pipeline_Close (wo_drain w P) of
        Panics \<Rightarrow> DaemonPanic acts'
      | Returns (Some e, P') \<Rightarrow> Ran (Some (GoError (''pipeline close: '' @ error_text e))) acts' (Some P')
      | Returns (None, P') \<Rightarrow> Ran None acts' (Some P'))"

definition serve :: "world \<Rightarrow> bool \<Rightarrow> daemon_action list \<Rightarrow> pipeline \<Rightarrow> daemon_result" where
  "serve w grpc acts P =
     (let acts' = acts @ [ServeHTTP] @ (if grpc then [ServeGRPC] else []) in
      case wo_live w P of
        (P', ServerError e) \<Rightarrow> Ran (Some (GoError (''server error: '' @ e))) (acts' @ [StopGauges]) (Some P')
      | (P', ServerDone) \<Rightarrow> shutdown w grpc acts' P'
      | (P', Signal sig) \<Rightarrow> shutdown w grpc (acts' @ [LogWakeup sig]) P')"

text \<open>The built pipeline's configuration has its defaults; the deferred cancel stops the gauges on every return.\<close>

definition bind_and_serve :: "world \<Rightarrow> pipeline \<Rightarrow> daemon_result" where
  "bind_and_serve w P =
     (let cfg = p_config P; grpc = (listen_GRPC cfg \<noteq> []) in
      case wo_Listen w (listen_HTTP cfg) of
        Some e \<Rightarrow> Ran (Some (GoError (''http listen on '' @ listen_HTTP cfg @ '': '' @ e))) [StartGauges, StopGauges] (Some P)
      | None \<Rightarrow>
          (if \<not> grpc then serve w grpc [StartGauges, BindHTTP (listen_HTTP cfg)] P
           else case wo_Listen w (listen_GRPC cfg) of
             Some e \<Rightarrow> Ran (Some (GoError (''grpc listen on '' @ listen_GRPC cfg @ '': '' @ e)))
               [StartGauges, BindHTTP (listen_HTTP cfg), CloseHTTP, StopGauges] (Some P)
           | None \<Rightarrow> serve w grpc [StartGauges, BindHTTP (listen_HTTP cfg), BindGRPC (listen_GRPC cfg)] P))"

definition daemon_run :: "world \<Rightarrow> string list \<Rightarrow> daemon_result" where
  "daemon_run w args =
     (case flag_Parse run_flags args [(''config'', []), (''listen'', []), (''grpc-listen'', [])] of
        FlagExit n \<Rightarrow> FlagsExit n
      | Flags vals \<Rightarrow>
          (case main_loadConfig (wo_readFile w) (wo_yaml w) (flag_value vals ''config'') of
             Inl e \<Rightarrow> Ran (Some e) [] None
           | Inr cfg0 \<Rightarrow>
               (case wo_Build w (override_listen vals cfg0) of
                  Panics \<Rightarrow> DaemonPanic []
                | Returns (Inl e) \<Rightarrow> Ran (Some (GoError (''build pipeline: '' @ error_text e)))
                    (if wo_isPermission w e then [Hint (buffer_Dir (applyDefaults (override_listen vals cfg0)))] else []) None
                | Returns (Inr P) \<Rightarrow> bind_and_serve w P)))"

section \<open>Order of start-up and shutdown\<close>

text \<open>Every occurrence of one action has the other before it.\<close>

fun always_after :: "'a \<Rightarrow> 'a \<Rightarrow> 'a list \<Rightarrow> bool" where
  "always_after a b [] \<longleftrightarrow> True"
| "always_after a b (x # xs) \<longleftrightarrow> x = a \<or> (x \<noteq> b \<and> always_after a b xs)"

lemma always_after_append: "always_after a b (xs @ ys) \<longleftrightarrow> a \<in> set xs \<and> always_after a b xs
    \<or> b \<notin> set xs \<and> always_after a b ys"
  by (induction xs) auto

definition orderly :: "bool \<Rightarrow> Config \<Rightarrow> daemon_action list \<Rightarrow> bool" where
  "orderly grpc cfg acts \<longleftrightarrow>
     always_after (BindHTTP (listen_HTTP cfg)) ServeHTTP acts
     \<and> (grpc \<longrightarrow> always_after (BindGRPC (listen_GRPC cfg)) ServeHTTP acts
          \<and> always_after (BindGRPC (listen_GRPC cfg)) ServeGRPC acts \<and> always_after StopGRPC ClosePipeline acts)
     \<and> always_after StopGauges ClosePipeline acts"

text \<open>
  Nothing serves before every listener is bound, and the pipeline is closed only after the servers
  and the gauges were stopped; it is closed exactly on the paths that do not report a listener's or a
  server's failure.
\<close>

lemma daemon_orderly:
  assumes "bind_and_serve w P = Ran err acts P'"
  shows "orderly (listen_GRPC (p_config P) \<noteq> []) (p_config P) acts \<and> StopGauges \<in> set acts
     \<and> (err = None \<longrightarrow> ClosePipeline \<in> set acts)
     \<and> (ClosePipeline \<in> set acts \<longleftrightarrow> ServeHTTP \<in> set acts \<and> (\<forall>e. snd (wo_live w P) \<noteq> ServerError e))"
  using assms
  by (auto simp: bind_and_serve_def serve_def shutdown_def orderly_def always_after_append Let_def
      split: option.splits prod.splits wakeup.splits if_splits go.splits)

lemma daemon_run_cases:
  assumes "daemon_run w args = Ran err acts P'"
  obtains (failed) e where "err = Some e" "P' = None" "set acts \<subseteq> range Hint"
    | (built) cfg P where "wo_Build w cfg = Returns (Inr P)" "bind_and_serve w P = Ran err acts P'"
  using assms
  by (fastforce simp: daemon_run_def split: flag_result.splits sum.splits go.splits if_splits)

section \<open>What a loaded configuration is\<close>

text \<open>
  What the decoder promises: a map has distinct keys, an integer fits its Go type, and a field of type
  \<^verbatim>\<open>Duration\<close> is untouched or what the method left there when it succeeded.
\<close>

definition decoded_duration :: "(string + string \<Rightarrow> duration \<Rightarrow> string option \<times> duration) \<Rightarrow> duration \<Rightarrow> bool" where
  "decoded_duration f d \<longleftrightarrow> d = 0 \<or> (\<exists>v d0. f v d0 = (None, d))"

definition yaml_laws :: "decoder \<Rightarrow> bool" where
  "yaml_laws yaml \<longleftrightarrow> (\<forall>f text cfg. yaml f text = Inr cfg \<longrightarrow> map_ok (Providers cfg)
     \<and> (\<forall>(name, pc) \<in> set (Providers cfg). MaxEvents (pc_Batch pc) < 2 ^ 63
          \<and> decoded_duration f (cfg_Linger (pc_Batch pc))
          \<and> decoded_duration f (cfg_MaxElapsed (pc_Retry pc)) \<and> decoded_duration f (cfg_MaxInterval (pc_Retry pc))))"

text \<open>A provider with nothing left to default, every number a positive int64.\<close>

definition provider_typed :: "ProviderConfig \<Rightarrow> bool" where
  "provider_typed pc \<longleftrightarrow> pc_Type pc \<noteq> [] \<and> 0 < MaxEvents (pc_Batch pc) \<and> MaxEvents (pc_Batch pc) < 2 ^ 63
     \<and> 0 < cfg_Linger (pc_Batch pc) \<and> cfg_Linger (pc_Batch pc) < 2 ^ 63
     \<and> 0 < cfg_MaxElapsed (pc_Retry pc) \<and> cfg_MaxElapsed (pc_Retry pc) < 2 ^ 63
     \<and> 0 < cfg_MaxInterval (pc_Retry pc) \<and> cfg_MaxInterval (pc_Retry pc) < 2 ^ 63"

definition config_typed :: "Config \<Rightarrow> bool" where
  "config_typed cfg \<longleftrightarrow> listen_HTTP cfg \<noteq> [] \<and> buffer_Dir cfg \<noteq> [] \<and> buffer_OnFull cfg \<noteq> [] \<and> map_ok (Providers cfg)
     \<and> (\<forall>(name, pc) \<in> set (Providers cfg). provider_typed pc)"

lemma decoded_range: "decoded_duration UnmarshalYAML d \<Longrightarrow> d < 2 ^ 63"
  by (auto simp: decoded_duration_def dest: UnmarshalYAML_range)

lemma provider_defaults_typed:
  assumes "MaxEvents (pc_Batch pc) < 2 ^ 63" "decoded_duration UnmarshalYAML (cfg_Linger (pc_Batch pc))"
    "decoded_duration UnmarshalYAML (cfg_MaxElapsed (pc_Retry pc))"
    "decoded_duration UnmarshalYAML (cfg_MaxInterval (pc_Retry pc))"
  shows "provider_typed (provider_defaults pc)"
  using assms(1) assms(2-4) [THEN decoded_range] by (simp add: provider_typed_def provider_defaults_def)

lemma applyDefaults_typed:
  assumes "map_ok (Providers cfg)" "\<forall>(name, pc) \<in> set (Providers cfg). provider_typed (provider_defaults pc)"
  shows "config_typed (applyDefaults cfg)"
  using assms by (auto simp: config_typed_def applyDefaults_def map_ok_def o_def case_prod_beta)

text \<open>
  C34. Whatever file the daemon is given, the configuration it builds on is well-typed: every text that must not be
  empty is set, provider names are distinct, and each provider has a type, a batch size, a linger time and a
  retry budget that are positive and fit an int64. A configuration that came from a file has these
  defaults already, so that \<^verbatim>\<open>Build\<close> applying them again changes nothing, and the retry policy of a batcher takes
  both its limits from it. The YAML decoder keeps its promises.
\<close>

theorem loaded_config_is_typed:
  assumes "yaml_laws yaml" "main_loadConfig readFile yaml path = Inr cfg"
  shows "config_typed (applyDefaults cfg) \<and> (path \<noteq> [] \<longrightarrow> applyDefaults cfg = cfg)
     \<and> (\<forall>(name, pc) \<in> set (Providers (applyDefaults cfg)). withDefaults (retry_policy pc) =
          \<lparr>InitialBackoff = second_ns, MaxBackoff = cfg_MaxInterval (pc_Retry pc), MaxElapsed = cfg_MaxElapsed (pc_Retry pc)\<rparr>)"
proof -
  have typed: "config_typed (applyDefaults cfg) \<and> (path \<noteq> [] \<longrightarrow> applyDefaults cfg = cfg)"
  proof (cases "path = []")
    case True
    then have "cfg = zero_config" using assms(2) by (simp add: main_loadConfig_def)
    with True show ?thesis using applyDefaults_typed [of zero_config] by (simp add: zero_config_def)
  next
    case False
    then obtain t raw where raw: "yaml UnmarshalYAML t = Inr raw" "cfg = applyDefaults raw"
      using assms(2) by (auto simp: main_loadConfig_def LoadConfig_def split: sum.splits)
    then have "config_typed cfg"
      using assms(1) provider_defaults_typed unfolding yaml_laws_def
      by (intro applyDefaults_typed [of raw, folded raw(2)]) (blast, fast)
    then show ?thesis using raw(2) by (simp add: applyDefaults_idem)
  qed
  have "\<forall>(name, pc) \<in> set (Providers (applyDefaults cfg)). provider_typed pc"
    using typed by (simp add: config_typed_def)
  with typed show ?thesis by (fastforce simp: provider_typed_def withDefaults_def retry_policy_def)
qed

definition demo_decoder :: decoder where
  "demo_decoder f text =
     (case f (Inr text) 0 of
        (Some e, d) \<Rightarrow> Inl e
      | (None, d) \<Rightarrow> Inr (zero_config\<lparr>Providers := [(''p'', \<lparr>pc_Type = [], pc_Endpoint = [], pc_TokenEnv = [],
          pc_Batch = \<lparr>MaxEvents = 0, cfg_Linger = d\<rparr>, pc_Retry = \<lparr>cfg_MaxElapsed = 0, cfg_MaxInterval = 0\<rparr>\<rparr>)]\<rparr>))"

theorem loaded_config_is_typed_witness:
  "\<exists>cfg. main_loadConfig (\<lambda>_. Inr ''250ms'') demo_decoder ''f'' = Inr cfg \<and> applyDefaults cfg = cfg
     \<and> map (\<lambda>(name, pc). (name, cfg_Linger (pc_Batch pc), withDefaults (retry_policy pc))) (Providers cfg)
       = [(''p'', 250000000, \<lparr>InitialBackoff = second_ns, MaxBackoff = 120 * second_ns, MaxElapsed = 1800 * second_ns\<rparr>)]"
proof -
  have laws: "yaml_laws demo_decoder"
    by (auto simp: yaml_laws_def demo_decoder_def zero_config_def map_ok_def decoded_duration_def
        split: prod.splits option.splits)
  have "concat (map part_text [(250, [], ''ms'')]) = ''250ms''" by code_simp
  then have "UnmarshalYAML (Inr ''250ms'') 0 = (None, 250000000)"
    using ParseDuration_parts(1) [of "[(250, [], ''ms'')]"]
    by (simp add: UnmarshalYAML_def part_ok_def part_ns_def unit_ns_def unitMap_def)
  then obtain cfg where "main_loadConfig (\<lambda>_. Inr ''250ms'') demo_decoder ''f'' = Inr cfg"
    "map (\<lambda>(name, pc). (name, cfg_Linger (pc_Batch pc), cfg_MaxElapsed (pc_Retry pc), cfg_MaxInterval (pc_Retry pc))) (Providers cfg)
       = [(''p'', 250000000, 1800 * second_ns, 120 * second_ns)]"
    by (simp add: main_loadConfig_def LoadConfig_def demo_decoder_def zero_config_def applyDefaults_def provider_defaults_def)
  with loaded_config_is_typed [OF laws, of "\<lambda>_. Inr ''250ms''" "''f''" cfg] show ?thesis by auto
qed

end
