(* ===== verification/Metrics.thy ===== *)
theory Metrics
  imports Pipeline
begin

text \<open>
  internal/metrics/metrics.go and \<^verbatim>\<open>RunGauges\<close> of internal/pipeline/pipeline.go. The Prometheus library is a
  parameter: a record of its three operations on a collector, named and labelled, over a state of its own, and
  its registry; \<open>prometheus_laws\<close> and \<open>registry_laws\<close> state its documented behaviour. The calls of the
  batcher and the receiver are the observations their models leave behind.
\<close>

section \<open>The collectors\<close>

datatype collector_kind = Counter | Gauge | Histogram

text \<open>A collector without labels is a plain counter or gauge, one with labels a vector of them.\<close>

record collector =
  col_Kind :: collector_kind
  col_Name :: string
  col_Help :: string
  col_Labels :: "string list"

definition metrics_collectors :: "collector list" where
  "metrics_collectors =
     [\<lparr>col_Kind = Counter, col_Name = ''events_received_total'',
        col_Help = ''Total number of events accepted by the HTTP receiver.'', col_Labels = []\<rparr>,
      \<lparr>col_Kind = Counter, col_Name = ''events_acked_total'',
        col_Help = ''Total number of event/provider acks, by terminal disposition.'',
        col_Labels = [''provider'', ''disposition'']\<rparr>,
      \<lparr>col_Kind = Histogram, col_Name = ''provider_flush_latency_seconds'',
        col_Help = ''Latency of a batcher flush (Encode+Send) per provider.'', col_Labels = [''provider'']\<rparr>,
      \<lparr>col_Kind = Counter, col_Name = ''provider_send_errors_total'',
        col_Help = ''Total send errors per provider, by resulting disposition.'',
        col_Labels = [''provider'', ''disposition'']\<rparr>,
      \<lparr>col_Kind = Gauge, col_Name = ''wal_unacked_entries'',
        col_Help = ''Number of WAL entries not yet resolved by every target provider.'', col_Labels = []\<rparr>,
      \<lparr>col_Kind = Gauge, col_Name = ''dlq_depth'',
        col_Help = ''Number of events dead-lettered per provider.'', col_Labels = [''provider'']\<rparr>]"

record 'r registry_lib =
  NewRegistry :: 'r
  Register :: "collector \<Rightarrow> 'r \<Rightarrow> string + 'r"

text \<open>\<^verbatim>\<open>MustRegister\<close> panics on the first collector that cannot be registered.\<close>

fun MustRegister :: "'r registry_lib \<Rightarrow> collector list \<Rightarrow> 'r \<Rightarrow> 'r go" where
  "MustRegister lib [] r = Returns r"
| "MustRegister lib (c # cs) r = (case Register lib c r of Inl e \<Rightarrow> Panics | Inr r' \<Rightarrow> MustRegister lib cs r')"

definition metrics_New :: "'r registry_lib \<Rightarrow> 'r go" where
  "metrics_New lib = MustRegister lib metrics_collectors (NewRegistry lib)"

record 'm prometheus =
  Add :: "string \<Rightarrow> string list \<Rightarrow> int \<Rightarrow> 'm \<Rightarrow> 'm"
  Observe :: "string \<Rightarrow> string list \<Rightarrow> 'm \<Rightarrow> 'm"
  Set :: "string \<Rightarrow> string list \<Rightarrow> int \<Rightarrow> 'm \<Rightarrow> 'm"

section \<open>The recorders\<close>

definition RecordEventsReceived :: "'m prometheus \<Rightarrow> nat \<Rightarrow> 'm \<Rightarrow> 'm" where
  "RecordEventsReceived lib n = Add lib ''events_received_total'' [] (int n)"

definition metrics_RecordAck :: "'m prometheus \<Rightarrow> string \<Rightarrow> Disposition \<Rightarrow> 'm \<Rightarrow> 'm" where
  "metrics_RecordAck lib p d = Add lib ''events_acked_total'' [p, Disposition_String d] 1"

definition ObserveFlushLatency :: "'m prometheus \<Rightarrow> string \<Rightarrow> 'm \<Rightarrow> 'm" where
  "ObserveFlushLatency lib p = Observe lib ''provider_flush_latency_seconds'' [p]"

definition metrics_RecordSendError :: "'m prometheus \<Rightarrow> string \<Rightarrow> Disposition \<Rightarrow> 'm \<Rightarrow> 'm" where
  "metrics_RecordSendError lib p d = Add lib ''provider_send_errors_total'' [p, Disposition_String d] 1"

definition SetWALUnacked :: "'m prometheus \<Rightarrow> nat \<Rightarrow> 'm \<Rightarrow> 'm" where
  "SetWALUnacked lib n = Set lib ''wal_unacked_entries'' [] (int n)"

definition SetDLQDepth :: "'m prometheus \<Rightarrow> string \<Rightarrow> int \<Rightarrow> 'm \<Rightarrow> 'm" where
  "SetDLQDepth lib p n = Set lib ''dlq_depth'' [p] n"

text \<open>What one observation of a batcher does to the collectors; a log line does nothing.\<close>

fun record_observation :: "'m prometheus \<Rightarrow> observation \<Rightarrow> 'm \<Rightarrow> 'm" where
  "record_observation lib (RecordAck p d) m = metrics_RecordAck lib p d m"
| "record_observation lib (RecordSendError p d) m = metrics_RecordSendError lib p d m"
| "record_observation lib (FlushLatency p) m = ObserveFlushLatency lib p m"
| "record_observation lib (LogLine l) m = m"

section \<open>The gauges\<close>

text \<open>The \<^verbatim>\<open>refresh\<close> of \<^verbatim>\<open>RunGauges\<close>.\<close>

definition refresh_gauges :: "'m prometheus \<Rightarrow> pipeline \<Rightarrow> 'm \<Rightarrow> 'm" where
  "refresh_gauges lib P m =
     fold (\<lambda>name. SetDLQDepth lib name (dlq_Depth name (bk_dlq (p_stores P)))) (map fst (p_batchers P))
       (SetWALUnacked lib (UnackedCount (bk_wal (p_stores P))) m)"

definition gauge_interval :: "duration \<Rightarrow> duration" where
  "gauge_interval interval = (if interval \<le> 0 then 2 * second_ns else interval)"

text \<open>
  What wakes the loop: a tick, with the pipeline as it is then, or the end of the context, after which nothing is
  refreshed.
\<close>

datatype gauge_event = Tick pipeline | Cancelled

fun RunGauges :: "'m prometheus \<Rightarrow> gauge_event list \<Rightarrow> 'm \<Rightarrow> 'm" where
  "RunGauges lib [] m = m"
| "RunGauges lib (Tick P # evs) m = RunGauges lib evs (refresh_gauges lib P m)"
| "RunGauges lib (Cancelled # evs) m = m"

section \<open>What the collectors then show\<close>

definition prometheus_laws :: "'m prometheus \<Rightarrow> ('m \<Rightarrow> string \<Rightarrow> string list \<Rightarrow> int) \<Rightarrow> bool" where
  "prometheus_laws lib val \<longleftrightarrow>
     (\<forall>n ls x m. val (Add lib n ls x m) = (val m)(n := (val m n)(ls := val m n ls + x)))
     \<and> (\<forall>n ls x m. val (Set lib n ls x m) = (val m)(n := (val m n)(ls := x)))
     \<and> (\<forall>n ls m k. k \<noteq> n \<longrightarrow> val (Observe lib n ls m) k = val m k)"

lemma Disposition_String_inj [simp]: "Disposition_String d = Disposition_String d' \<longleftrightarrow> d = d'"
  by (cases d; cases d') simp_all

lemma acks_counted:
  assumes "prometheus_laws lib val"
  shows "val (fold (record_observation lib) obs m) ''events_acked_total'' [p, Disposition_String d]
    = val m ''events_acked_total'' [p, Disposition_String d] + int (count_list obs (RecordAck p d))"
proof (induction obs arbitrary: m)
  case (Cons ob obs)
  have "val (record_observation lib ob m) ''events_acked_total'' [p, Disposition_String d]
      = val m ''events_acked_total'' [p, Disposition_String d] + (if ob = RecordAck p d then 1 else 0)"
    using assms by (cases ob) (auto simp: prometheus_laws_def metrics_RecordAck_def metrics_RecordSendError_def
        ObserveFlushLatency_def)
  with Cons show ?case by simp
qed simp

lemma depths_shown:
  assumes "prometheus_laws lib val"
  shows "val (fold (\<lambda>name. SetDLQDepth lib name (depth name)) names m) ''dlq_depth'' [p]
    = (if p \<in> set names then depth p else val m ''dlq_depth'' [p])"
    "val (fold (\<lambda>name. SetDLQDepth lib name (depth name)) names m) ''wal_unacked_entries'' [] = val m ''wal_unacked_entries'' []"
  using assms by (induction names arbitrary: m) (auto simp: prometheus_laws_def SetDLQDepth_def)

lemma gauges_exact:
  assumes "prometheus_laws lib val" "p \<in> fst ` set (p_batchers P)"
  shows "val (refresh_gauges lib P m) ''wal_unacked_entries'' [] = int (UnackedCount (bk_wal (p_stores P)))"
    and "val (refresh_gauges lib P m) ''dlq_depth'' [p] = dlq_Depth p (bk_dlq (p_stores P))"
  using assms by (auto simp: refresh_gauges_def depths_shown [OF assms(1)]) (simp add: SetWALUnacked_def prometheus_laws_def)

text \<open>Once the loop is cancelled the gauges show the last refresh, and keep showing it.\<close>

lemma RunGauges_ticks:
  "RunGauges lib (map Tick Ps @ Cancelled # evs) m = fold (refresh_gauges lib) Ps m"
  by (induction Ps arbitrary: m) simp_all

lemma gauges_show_last_refresh:
  assumes "prometheus_laws lib val" "p \<in> fst ` set (p_batchers P)"
  shows "val (RunGauges lib (map Tick (Ps @ [P]) @ Cancelled # evs) m) ''wal_unacked_entries'' []
      = int (UnackedCount (bk_wal (p_stores P)))"
    and "val (RunGauges lib (map Tick (Ps @ [P]) @ Cancelled # evs) m) ''dlq_depth'' [p]
      = dlq_Depth p (bk_dlq (p_stores P))"
  unfolding RunGauges_ticks using gauges_exact [OF assms] by simp_all

section \<open>No call of the library can panic\<close>

text \<open>
  A registry accepts a collector whose names are well-formed and whose name is new to it. Well-formed are
  \<^verbatim>\<open>[a-zA-Z_][a-zA-Z0-9_]*\<close> (a colon is allowed in places, but none is used here) and distinct labels.
\<close>

definition name_char :: "char \<Rightarrow> bool" where
  "name_char c \<longleftrightarrow> c = CHR ''_'' \<or> (97 \<le> (of_char c :: nat) \<and> (of_char c :: nat) \<le> 122)"

definition valid_collector :: "collector \<Rightarrow> bool" where
  "valid_collector c \<longleftrightarrow> distinct (col_Labels c) \<and> (\<forall>n \<in> set (col_Name c # col_Labels c). n \<noteq> [] \<and> list_all name_char n)"

definition registry_laws :: "'r registry_lib \<Rightarrow> ('r \<Rightarrow> collector list) \<Rightarrow> bool" where
  "registry_laws lib regd \<longleftrightarrow> regd (NewRegistry lib) = []
     \<and> (\<forall>c r. valid_collector c \<longrightarrow> col_Name c \<notin> col_Name ` set (regd r) \<longrightarrow>
          (\<exists>r'. Register lib c r = Inr r' \<and> regd r' = regd r @ [c]))"

lemma MustRegister_all:
  assumes "registry_laws lib regd"
  shows "list_all valid_collector cs \<Longrightarrow> distinct (map col_Name (regd r @ cs)) \<Longrightarrow>
     \<exists>r'. MustRegister lib cs r = Returns r' \<and> regd r' = regd r @ cs"
proof (induction cs arbitrary: r)
  case (Cons c cs)
  then have "valid_collector c" "col_Name c \<notin> col_Name ` set (regd r)" by auto
  then obtain r' where r': "Register lib c r = Inr r'" "regd r' = regd r @ [c]"
    using assms unfolding registry_laws_def by blast
  with Cons.IH [of r'] Cons.prems show ?case by simp
qed simp

text \<open>A library that only notes the calls it gets: the kind, the name and the label values.\<close>

type_synonym metric_call = "collector_kind \<times> string \<times> string list"

definition call_log :: "metric_call list prometheus" where
  "call_log = \<lparr>Add = (\<lambda>n ls x m. m @ [(Counter, n, ls)]), Observe = (\<lambda>n ls m. m @ [(Histogram, n, ls)]),
     Set = (\<lambda>n ls x m. m @ [(Gauge, n, ls)])\<rparr>"

definition call_declared :: "metric_call \<Rightarrow> bool" where
  "call_declared call = (case call of (k, n, ls) \<Rightarrow>
     list_ex (\<lambda>c. col_Name c = n \<and> col_Kind c = k \<and> length (col_Labels c) = length ls) metrics_collectors)"

lemma collectors_ok: "list_all valid_collector metrics_collectors" "distinct (map col_Name metrics_collectors)"
  by (simp_all add: metrics_collectors_def valid_collector_def name_char_def)

lemma recorders_declared:
  "list_all call_declared (RecordEventsReceived call_log n [])"
  "list_all call_declared m \<Longrightarrow> list_all call_declared (record_observation call_log ob m)"
  "list_all call_declared m \<Longrightarrow> list_all call_declared (refresh_gauges call_log P m)"
proof -
  show "list_all call_declared (RecordEventsReceived call_log n [])"
    by (simp add: RecordEventsReceived_def call_log_def call_declared_def metrics_collectors_def)
  show "list_all call_declared m \<Longrightarrow> list_all call_declared (record_observation call_log ob m)"
    by (cases ob) (simp_all add: metrics_RecordAck_def metrics_RecordSendError_def ObserveFlushLatency_def
        call_log_def call_declared_def metrics_collectors_def)
  have "list_all call_declared m \<Longrightarrow> list_all call_declared (fold (\<lambda>name. SetDLQDepth call_log name (depth name)) names m)"
    for depth names m
    by (induction names arbitrary: m)
      (simp_all add: SetDLQDepth_def call_log_def call_declared_def metrics_collectors_def)
  then show "list_all call_declared m \<Longrightarrow> list_all call_declared (refresh_gauges call_log P m)"
    by (simp add: refresh_gauges_def) (simp add: SetWALUnacked_def call_log_def call_declared_def metrics_collectors_def)
qed

text \<open>
  The metrics cannot take the daemon down: \<^verbatim>\<open>New\<close> registers its six collectors without a panic, and every
  call the recorders and a tick of the gauges make names one of them, uses it as what it was declared, and gives
  it one value for each of its labels, for every observation of a batcher and every state of the pipeline.
\<close>

theorem metrics_calls_are_declared:
  assumes "registry_laws lib regd"
  shows "(\<exists>r. metrics_New lib = Returns r \<and> regd r = metrics_collectors)
     \<and> list_all call_declared (RecordEventsReceived call_log n [])
     \<and> list_all call_declared (fold (record_observation call_log) obs [])
     \<and> list_all call_declared (refresh_gauges call_log P [])"
proof -
  have "list_all call_declared m \<Longrightarrow> list_all call_declared (fold (record_observation call_log) obs m)" for m
    by (induction obs arbitrary: m) (auto intro: recorders_declared)
  moreover have "regd (NewRegistry lib) = []" using assms by (simp add: registry_laws_def)
  ultimately show ?thesis
    using MustRegister_all [OF assms collectors_ok(1), of "NewRegistry lib"] collectors_ok(2)
    by (auto simp: metrics_New_def intro: recorders_declared)
qed

definition list_registry :: "collector list registry_lib" where
  "list_registry = \<lparr>NewRegistry = [], Register = (\<lambda>c r. if col_Name c \<in> col_Name ` set r then Inl ''duplicate'' else Inr (r @ [c]))\<rparr>"

theorem metrics_calls_are_declared_witness:
  "metrics_New list_registry = Returns metrics_collectors
     \<and> list_all call_declared (fold (record_observation call_log) [RecordAck ''p'' Ok, FlushLatency ''p''] [])"
proof -
  have "registry_laws list_registry (\<lambda>r. r)" by (simp add: registry_laws_def list_registry_def)
  from metrics_calls_are_declared [OF this, of _ "[RecordAck ''p'' Ok, FlushLatency ''p'']"] show ?thesis by blast
qed

end
