(* ===== verification/Power_Loss.thy ===== *)
theory Power_Loss
  imports Wal_Props
begin

text \<open>
  The log when the power fails. A segment's file is synced before an answer is given, its name in the
  directory is not: no call of the code syncs the directory, and a sync of a file
  promises nothing about the directory's entry for it. So a failure of the machine, unlike a crash of the process,
  may also take whole segments: those whose names had not reached the disk.
\<close>

section \<open>A directory that forgets names\<close>





section \<open>The records that are left\<close>









section \<open>What a power failure leaves\<close>



end
