(* ===== verification/GrpcDesc.thy ===== *)
theory GrpcDesc
  imports Grpc
begin

text \<open>
  The descriptor of internal/grpcapi/events.pb.go: the bytes the generated code hands to the protobuf library, the
  struct tags of its messages and the table of their dependencies. The bytes are a FileDescriptorProto in the
  protobuf wire format; reading them back shows that all three describe the messages of
  proto/tallyd/v1/events.proto. The library itself, which builds its types from them, is a parameter.
\<close>

section \<open>The bytes\<close>

abbreviation byte_ch :: "nat \<Rightarrow> string" where
  "byte_ch n \<equiv> [char_of n]"

definition rawDesc :: string where
  "rawDesc =
     byte_ch 0x0A @
     byte_ch 0x16 @ ''tallyd/v1/events.proto'' @ byte_ch 0x12 @ byte_ch 0x09 @ ''tallyd.v1'' @ byte_ch 0x1A @ byte_ch 0x1F
       @ ''google/protobuf/timestamp.proto'' @ byte_ch 0x1A @ byte_ch 0x1C @ ''google/protobuf/struct.proto''
       @ [CHR 0x22] @ byte_ch 0xE0 @ byte_ch 0x01 @ byte_ch 0x0A @
     byte_ch 0x05 @ ''Event'' @ byte_ch 0x12 @ byte_ch 0x0E @ byte_ch 0x0A @
     byte_ch 0x02 @ ''id'' @ byte_ch 0x18 @ byte_ch 0x01 @ '' '' @ byte_ch 0x01 @ ''(''  @ byte_ch 0x09 @ ''R'' @ byte_ch 0x02
       @ ''id'' @ byte_ch 0x12 @ byte_ch 0x1F @ byte_ch 0x0A @
     byte_ch 0x0B @ ''customer_id'' @ byte_ch 0x18 @ byte_ch 0x02 @ '' '' @ byte_ch 0x01 @ ''('' @ byte_ch 0x09 @ ''R'' @ byte_ch 0x0A @
     ''customerId'' @ byte_ch 0x12 @ byte_ch 0x1D @ byte_ch 0x0A @
     byte_ch 0x0A @
     ''event_name'' @ byte_ch 0x18 @ byte_ch 0x03 @ '' '' @ byte_ch 0x01 @ ''('' @ byte_ch 0x09 @ ''R'' @ byte_ch 0x09
       @ ''eventName'' @ byte_ch 0x12 @ ''8'' @ byte_ch 0x0A @
     byte_ch 0x09 @ ''timestamp'' @ byte_ch 0x18 @ byte_ch 0x04 @ '' '' @ byte_ch 0x01 @ ''('' @ byte_ch 0x0B @ ''2'' @ byte_ch 0x1A
       @ ''.google.protobuf.TimestampR'' @ byte_ch 0x09 @ ''timestamp'' @ byte_ch 0x12 @ ''7'' @ byte_ch 0x0A @
     byte_ch 0x0A @
     ''properties'' @ byte_ch 0x18 @ byte_ch 0x05 @ '' '' @ byte_ch 0x01 @ ''('' @ byte_ch 0x0B @ ''2'' @ byte_ch 0x17
       @ ''.google.protobuf.StructR'' @ byte_ch 0x0A @
     ''properties'' @ byte_ch 0x12 @ byte_ch 0x14 @ byte_ch 0x0A @
     byte_ch 0x05 @ ''route'' @ byte_ch 0x18 @ byte_ch 0x06 @ '' '' @ byte_ch 0x03 @ ''('' @ byte_ch 0x09 @ ''R'' @ byte_ch 0x05
       @ ''route'' @ [CHR 0x22] @ ''9'' @ byte_ch 0x0A @
     byte_ch 0x0D @ ''IngestRequest'' @ byte_ch 0x12 @ ''('' @ byte_ch 0x0A @
     byte_ch 0x06 @ ''events'' @ byte_ch 0x18 @ byte_ch 0x01 @ '' '' @ byte_ch 0x03 @ ''('' @ byte_ch 0x0B @ ''2'' @ byte_ch 0x10
       @ ''.tallyd.v1.EventR'' @ byte_ch 0x06 @ ''events'' @ [CHR 0x22] @ byte_ch 0x10 @ byte_ch 0x0A @
     byte_ch 0x0E @ ''IngestResponse2G'' @ byte_ch 0x0A @
     byte_ch 0x06 @ ''Events'' @ byte_ch 0x12 @ ''='' @ byte_ch 0x0A @
     byte_ch 0x06 @ ''Ingest'' @ byte_ch 0x12 @ byte_ch 0x18 @ ''.tallyd.v1.IngestRequest'' @ byte_ch 0x1A @ byte_ch 0x19
       @ ''.tallyd.v1.IngestResponseB3Z1github.com/tallyd/tallyd/internal/grpcapi;grpcapib'' @ byte_ch 0x06 @ ''proto3''"

section \<open>The wire format\<close>









section \<open>Descriptors\<close>










section \<open>The tags and the tables\<close>




definition goTypes :: "string list" where
  "goTypes = [''tallyd.v1.Event'', ''tallyd.v1.IngestRequest'', ''tallyd.v1.IngestResponse'',
     ''google.protobuf.Timestamp'', ''google.protobuf.Struct'']"

definition depIdxs :: "nat list" where
  "depIdxs = [3, 4, 0, 1, 2, 4, 3, 3, 3, 0]"

text \<open>The numbers of enums, messages, extensions and services given to the type builder.\<close>

definition desc_counts :: "nat \<times> nat \<times> nat \<times> nat" where
  "desc_counts = (0, 3, 0, 1)"





section \<open>The proto file\<close>




section \<open>The messages to the library\<close>

text \<open>
  A message carries which message info was stored into it. \<^verbatim>\<open>ProtoReflect\<close> stores it on first use and returns the
  message's own state; on a nil pointer it returns a view made by the library.
\<close>

record 'm message =
  msg_info :: "nat option"
  msg_fields :: 'm

datatype 'm reflected = StateOf "'m message" | NilOf nat

definition Reset :: "nat \<Rightarrow> 'm \<Rightarrow> 'm message \<Rightarrow> 'm message" where
  "Reset mi zero x = \<lparr>msg_info = Some mi, msg_fields = zero\<rparr>"

definition ProtoReflect :: "nat \<Rightarrow> 'm message option \<Rightarrow> 'm reflected \<times> 'm message option" where
  "ProtoReflect mi x =
     (case x of
        Some m \<Rightarrow>
          (let ms = (if msg_info m = None then m\<lparr>msg_info := Some mi\<rparr> else m) in (StateOf ms, Some ms))
      | None \<Rightarrow> (NilOf mi, None))"

definition Event_Reset :: "grpc_event message \<Rightarrow> grpc_event message" where
  "Event_Reset = Reset 0 \<lparr>pb_Id = [], pb_CustomerId = [], pb_EventName = [], pb_Timestamp = None,
     pb_Properties = None, pb_Route = []\<rparr>"

definition Event_ProtoReflect ::
  "grpc_event message option \<Rightarrow> grpc_event reflected \<times> grpc_event message option" where
  "Event_ProtoReflect = ProtoReflect 0"

definition IngestRequest_Reset :: "IngestRequest message \<Rightarrow> IngestRequest message" where
  "IngestRequest_Reset = Reset 1 \<lparr>pb_Events = []\<rparr>"

definition IngestRequest_ProtoReflect ::
  "IngestRequest message option \<Rightarrow> IngestRequest reflected \<times> IngestRequest message option" where
  "IngestRequest_ProtoReflect = ProtoReflect 1"

definition IngestResponse_Reset :: "IngestResponse message \<Rightarrow> IngestResponse message" where
  "IngestResponse_Reset = Reset 2 IngestResponse"

definition IngestResponse_ProtoReflect ::
  "IngestResponse message option \<Rightarrow> IngestResponse reflected \<times> IngestResponse message option" where
  "IngestResponse_ProtoReflect = ProtoReflect 2"

text \<open>Reflection changes no field, and stores the message info only once.\<close>

lemma ProtoReflect_once:
  assumes "ProtoReflect mi x = (r, y)"
  shows "ProtoReflect mj y = (if y = None then NilOf mj else r, y)" "map_option msg_fields y = map_option msg_fields x"
  using assms by (auto simp: ProtoReflect_def Let_def split: option.splits if_splits)

section \<open>The package variables\<close>

text \<open>
  The variables of the package, with the library's gzip and type builder as parameters: the compressed
  descriptor is made on first use, and the initialisation runs once and forgets the tables.
\<close>

record 'f pb_vars =
  pv_File :: "'f option"
  pv_rawDescData :: "string option"
  pv_goTypes :: "string list"
  pv_depIdxs :: "nat list"

definition rawDescGZIP :: "(string \<Rightarrow> string) \<Rightarrow> 'f pb_vars \<Rightarrow> string \<times> 'f pb_vars" where
  "rawDescGZIP compress v =
     (case pv_rawDescData v of
        Some data \<Rightarrow> (data, v)
      | None \<Rightarrow> (compress rawDesc, v\<lparr>pv_rawDescData := Some (compress rawDesc)\<rparr>))"

definition events_proto_init ::
  "(string \<Rightarrow> nat \<times> nat \<times> nat \<times> nat \<Rightarrow> string list \<Rightarrow> nat list \<Rightarrow> 'f) \<Rightarrow> 'f pb_vars \<Rightarrow> 'f pb_vars" where
  "events_proto_init build v =
     (case pv_File v of
        Some _ \<Rightarrow> v
      | None \<Rightarrow> v\<lparr>pv_File := Some (build rawDesc desc_counts (pv_goTypes v) (pv_depIdxs v)),
          pv_goTypes := [], pv_depIdxs := []\<rparr>)"

definition start_vars :: "'f pb_vars" where
  "start_vars = \<lparr>pv_File = None, pv_rawDescData = None, pv_goTypes = goTypes, pv_depIdxs = depIdxs\<rparr>"

lemma init_once:
  "events_proto_init build (events_proto_init build' v) = events_proto_init build' v"
  by (simp add: events_proto_init_def split: option.split)

lemma gzip_same: "rawDescGZIP compress v = (data, v') \<Longrightarrow> rawDescGZIP compress' v' = (data, v')"
  by (auto simp: rawDescGZIP_def split: option.splits)

section \<open>Registration\<close>

text \<open>
  How a server embeds \<^verbatim>\<open>UnimplementedEventsServer\<close>. Calling a method of the embedded value through a nil
  pointer panics, which is what the registration tries out.
\<close>

datatype embedding = NotEmbedded | ByValue | ByPointer "unit option"

definition testEmbeddedByValue :: "embedding \<Rightarrow> unit go" where
  "testEmbeddedByValue emb = (if emb = ByPointer None then Panics else Returns ())"

definition RegisterEventsServer ::
  "('s service_desc \<Rightarrow> 's rpc \<Rightarrow> 'r \<Rightarrow> 'r) \<Rightarrow> embedding \<Rightarrow> 's rpc \<Rightarrow> 'r \<Rightarrow> 'r go" where
  "RegisterEventsServer RegisterService emb srv r =
     (case (if emb = NotEmbedded then Returns () else testEmbeddedByValue emb) of
        Panics \<Rightarrow> Panics
      | Returns _ \<Rightarrow> Returns (RegisterService Events_ServiceDesc srv r))"

lemma registered: "emb \<noteq> ByPointer None \<Longrightarrow> RegisterEventsServer reg emb srv r = Returns (reg Events_ServiceDesc srv r)"
  by (simp add: RegisterEventsServer_def testEmbeddedByValue_def)

end
