(* ===== verification/Spec2Isabelle.thy ===== *)
theory Spec2Isabelle
  imports Dlq_Crash Answer_Props Account Delivery_Props Daemon Metrics Power_Loss GrpcDesc
begin

text \<open>
  tallyd takes billing events over HTTP and gRPC, makes them durable in a write-ahead log and delivers each to
  its providers at least once. This library models the daemon's Go code and proves what its promises come to,
  including where they fail.

  How the program fits together. The receiver (internal/receiver) validates and routes the events of a request
  and hands each to a sink. The sink of the pipeline (internal/pipeline) appends the event to the log
  (internal/wal) and, once that is durable, dispatches it (internal/dispatcher) to one batcher per provider
  (internal/batcher). A batcher gathers events, sends batches through its adapter (adapter/stdout,
  adapter/metronome), and then acknowledges an event in the log, retries it with backoff, or parks it in the
  dead-letter queue (internal/dlq) and acknowledges it as dead-lettered. The admin endpoints show, replay and
  count dead letters (internal/dlqshow, dlqreplay, status); the command line (cmd/tallyd) calls them. On
  start-up the log is replayed and every unresolved event is enqueued again.

  Theories and code. Each group of definitions is in the order of the code and carries the code's names, with a
  prefix where the name is taken.
  \<^item> \<open>Prelude\<close>: bytes, Go values that may panic (\<open>go\<close>), association lists as Go maps (\<open>gomap\<close>).
  \<^item> \<open>Json\<close>, \<open>GoTime\<close>, \<open>GoDuration\<close>, \<open>Url\<close>: what the program uses of encoding/json, time and net/url, as printers
    and parsers with their round trips; \<open>Json_Prefix\<close>: no cut-off object is a JSON text.
  \<^item> \<open>Adapter\<close>: adapter/event.go and adapter/adapter.go. \<open>Adapters\<close>: the stdout and Metronome adapters; a locale
    states what a batcher needs of an adapter and is interpreted by both.
  \<^item> \<open>Frame\<close>, \<open>Payload\<close>, \<open>Segment\<close>: record.go, the payloads of wal.go, segment.go over a disk whose files know how
    much of them is synced and whose I/O follows a script of faults.
  \<^item> \<open>Wal\<close>: wal.go, \<open>Open\<close> and replay included. \<open>Wal_Inv\<close> has its invariant (counts, segment order, entries),
    \<open>Wal_Recovery\<close> the log as a list of records and what replay makes of it, \<open>Wal_Commit\<close> the abstract contract
    (\<open>outstanding\<close>, \<open>spec_op\<close>) a commit refines, \<open>Wal_Crash\<close> crashes, \<open>Power_Loss\<close> failures of the machine, in which a
    directory forgets names, \<open>Wal_Size\<close> the size of the log,
    \<open>Wal_System\<close> callers, the writer goroutine and \<open>Close\<close> as a step relation.
  \<^item> \<open>Batcher\<close>: one flush of batcher.go, the fate of each event as its specification, and a locale for what
    the Acker and the dead-letter sink promise. \<open>Flush_Steps\<close>: the same flush one call at a time, as the goroutine it
    runs in. \<open>Batcher_Run\<close>: the queue loop, its timers, semaphore and \<open>Close\<close>
    as a step relation, with bounds, conservation and progress.
  \<^item> \<open>Dispatcher\<close>; \<open>Receiver\<close> (receiver.go, router.go; a locale for a durable sink); \<open>Grpc\<close> (grpcserver.go with
    the messages, getters, client stub and handler of grpcapi); \<open>GrpcDesc\<close> (the rest of grpcapi: descriptor, tags, tables,
    registration); \<open>Config\<close> (config.go, \<open>Duration\<close>'s YAML method and
    the start-up checks of pipeline.go).
  \<^item> \<open>Dlq\<close>: dlq.go over text files with faults. \<open>Dlq_Spec\<close>: the records the files hold, and what each operation does
    to them. \<open>Dlq_Crash\<close>: the files when calls fail or the process dies. \<open>Admin\<close>: the three endpoints over a store;
    two locales for the store's contract, interpreted by the queue and by the whole pipeline.
  \<^item> \<open>Pipeline\<close>: pipeline.go; the shared backend, \<open>Build\<close>, \<open>Close\<close>, and the running system, in which handlers,
    batchers, timers and the clock interleave. \<open>Serving\<close>: a request served alone is one of its runs.
    \<open>Durable_Run\<close>: its log stays durable, and a daemon's lives across crashes and restarts. \<open>Account\<close>: every ack of
    such a life and its reason.
  \<^item> \<open>Http\<close>, \<open>Cli\<close>, \<open>Daemon\<close>: the mux and the bodies of answers, the client commands, and \<open>run\<close> of main.go.
    \<open>Metrics\<close>: metrics.go with \<open>New\<close>, and \<open>RunGauges\<close>, over a Prometheus library that is a parameter.
  \<^item> \<open>Samples\<close>, \<open>Small_Pipeline\<close>, \<open>Replay_Race\<close>: the concrete values and runs the witnesses use.
  \<^item> \<open>Wal_Props\<close>, \<open>Delivery_Props\<close>, \<open>Dlq_Props\<close>, \<open>Dlq_Crash\<close>, \<open>Request_Props\<close>, \<open>Answer_Props\<close>, \<open>Power_Loss\<close>, \<open>GrpcDesc\<close>, \<open>Daemon\<close> and this theory: the properties C1 to C40,
    each with a witness where it has hypotheses, and further theorems without a number.

  What the properties say. The system: what was answered with 202, or with OK over gRPC, survives a crash; an accepted delivery is accounted for, over any number of crashes and
  restarts; it stays owed until a flush settles it or the same ID is appended again without it, it is enqueued again after a
  crash, and whatever took it off the books had its reason. The log: an appended event survives a crash, an acknowledged one does not come
  back, a crash within a group commit leaves a prefix of it, the writer answers in order and only for what is
  durable, under any faults the index stays consistent with the answers given. Delivery: a flush does to each
  event what its fate says, also when its calls interleave with everything else, a batcher loses nothing and keeps
  its bounds, \<open>Close\<close> makes progress, an ingest is booked whole or answered with an error, the two transports agree, and the generated descriptor is the proto file. The dead-letter queue: each operation is exact, a restart keeps the records, a removal
  survives any failure or crash, a parking is whole or torn, a replay loses nothing when it runs alone. The daemon: a
  configuration that loads is typed and has its defaults, listeners are bound before anything is served, and shutdown is in
  order. Where it fails: a torn tail hides later appends, a power loss may take segments whose names were never synced, a
  zero-filled tail stops the daemon, and so does a torn dead letter, on every start; a restart forgets the size of the log, and callers that append at once
  exceed its maximum; a failed parking and a replay race lose an event, a replay takes an event off the books of other
  providers, the final flush exceeds the provider's limit.

  Bounds and fuel. The JSON parser takes the length of its input as fuel, enough because every nested call
  consumes a character (the round trips are proved with it). \<open>decodeRecords\<close> recurses on the rest of its input.
  Backoff uses 64-bit durations as integers with the wrap-around written out, \<open>ParseDuration\<close> sums in uint64 with the
  wrap-around written out and rounds to float64 as Go does; frame lengths and checksums are
  32-bit words; sequence numbers, sizes and counts are unbounded, and the properties that
  depend on it bound them. A frame longer than a 32-bit length is excluded by \<open>append_fits\<close> and \<open>ack_fits\<close>.

  Modelling choices. A map is an association list, iterated in its order; a Go map's order is arbitrary, and no
  property depends on it. A string is its bytes. Numbers in properties are kept as their JSON text. A
  goroutine blocked on a channel is a member of a list, and any member may go next. A flush runs one call of
  the backend at a time, and anything may happen between two of them; a group commit runs in one step, since it holds the lock its readers take,
  and a crash within it is treated apart. Timers fire at any
  time after they were set; the linger timer may fire at any time. A crash keeps of each file of the log at least what was
  synced and possibly more, cut at any byte; the creation and the removal of a file are taken as durable, except in
  \<open>Power_Loss\<close>, where the creation of a segment is not. A crash of the
  dead-letter files is a schedule of faults in which nothing works from some call on, so it leaves a rename done or not done
  and an append cut anywhere.

  Not modelled: the YAML decoder (a parameter; what it calls back is modelled), net/http and grpc themselves (listeners,
  TLS, timeouts), the inside of the Prometheus registry and its page, what the protobuf library builds from the descriptor, and
  the text of usage messages.
\<close>

section \<open>At least once\<close>

text \<open>
  An accepted event stays owed. From the step in which the sink took it for a
  provider on, through any interleaving of requests, DLQ replays, batchers, retry timers, failing
  stores and the clock, the delivery stays on the books of the log until a flush of that provider's
  batcher settles an event of this ID, or the same ID is appended again without the provider.
\<close>

theorem accepted_stays_owed:
  assumes "served P" "pstep P (Appended e ps) P1" "p \<in> set ps"
    and "pruns P1 ls P2" "\<forall>l \<in> set ls. \<not> touches (ID e) p l"
  shows "(ID e, p) \<in> undelivered (p_stores P2)"
proof -
  have "(ID e, p) \<in> undelivered (p_stores P1)" using pstep_writes [OF assms(2,1), of e ps] assms(3) by blast
  moreover have "served P1" using pstep_inv [OF assms(2,1)] by blast
  ultimately show ?thesis using pruns_keeps [OF assms(4)] assms(5) by blast
qed

theorem accepted_stays_owed_witness:
  "\<exists>P1 P2. pstep demo_ingesting (Appended demo_event [''p'']) P1 \<and> pstep P1 Clock P2
     \<and> (ID demo_event, ''p'') \<in> undelivered (p_stores P2)"
proof -
  obtain P1 where P1: "pstep demo_ingesting (Appended demo_event [''p'']) P1" using demo_appended by blast
  have c: "pstep P1 Clock (P1\<lparr>p_stores := (p_stores P1)\<lparr>bk_now := bk_now (p_stores P1)\<rparr>\<rparr>)"
    by (rule pstep.clock) simp
  from accepted_stays_owed [OF demo_ingesting_served P1 _ pruns_single [OF c], of "''p''"] P1 c
  show ?thesis by auto
qed





text \<open>
  A request served without interleaving is one of the running pipeline's schedules:
  every outcome of the receiver's \<^verbatim>\<open>Ingest\<close> and of the DLQ replay handler, failures included, is reached by a run
  of the step relation that ends in the same state.
\<close>

theorem sequential_requests_are_runs:
  "(\<exists>ls. pruns P ls (snd (pipeline_Ingest es P))) \<and> (\<exists>ms. pruns P ms (snd (pipeline_replay rq P)))"
proof
  obtain err P' where i: "pipeline_Ingest es P = (err, P')" by fastforce
  then show "\<exists>ls. pruns P ls (snd (pipeline_Ingest es P))" by (auto intro: ingest_run)
  obtain resp P'' where "pipeline_replay rq P = (resp, P'')" by fastforce
  then show "\<exists>ms. pruns P ms (snd (pipeline_replay rq P))" by (auto intro: replay_run)
qed

section \<open>Where an event or the daemon can be lost\<close>

text \<open>
  C24. A DLQ replay for one provider takes the event off the books of every other: after the replay's
  append the log owes the event to the replayed provider only, so another provider's delivery that
  was still being retried is not redelivered after a crash.
\<close>

theorem replay_forgets_other_providers:
  assumes "served P" "pstep P (Reinjected e p) P'" "q \<noteq> p"
  shows "(ID e, q) \<notin> undelivered (p_stores P')"
  using pstep_writes [OF assms(2,1), of e "[p]"] assms(3) by auto

theorem replay_forgets_other_providers_witness:
  "\<exists>w P'. (ID demo_event, ''q'') \<in> undelivered (p_stores (demo_replaying w))
     \<and> pstep (demo_replaying w) (Reinjected demo_event ''p'') P'
     \<and> (ID demo_event, ''q'') \<notin> undelivered (p_stores P')"
proof -
  obtain w where w: "wal_Append demo_event [''p'', ''q''] start_wal = (None, w)" "wal_durable w" "settings w = settings start_wal"
    "outstanding (w_index w) ''e1'' = Some (demo_event, [''p'', ''q''])"
    using start_append [OF demo_fits2] by auto
  have inv: "wal_inv w" using w(2) by (simp add: wal_durable_def)
  obtain q where q: "append_request demo_event [''p''] w = Inr q" using start_accepts [OF w(3)] by blast
  obtain err w2 where a: "wal_Append demo_event [''p''] w = (err, w2)" by fastforce
  have "err = None"
    using submit_durable(2) [OF w(2) append_request_good(1) [OF q demo_fits]] a q by (simp add: wal_Append_def)
  with a have s: "\<exists>P1. walDispatchSink_Append demo_event [''p''] (demo_replaying w) = (None, P1)"
    by (simp add: walDispatchSink_Append_def demo_replaying_def demo_pipeline_def demo_stores_def)
  have r: "rec_Event (put_record zero_time ''p'' demo_event ''no'' True empty_dlq) = demo_event"
    by (simp add: put_record_def Let_def)
  obtain P' where P': "pstep (demo_replaying w) (Reinjected demo_event ''p'') P'"
    using s pstep.reinject [of "demo_replaying w" "[]" demo_replay
      "put_record zero_time ''p'' demo_event ''no'' True empty_dlq" "[]"
      "\<lparr>rr_Provider = ''p'', rr_Replayed = [], rr_Failed = []\<rparr>" "[]"]
    by (auto simp: demo_replaying_def replay_start_def demo_replay_def r)
  have "(ID demo_event, ''q'') \<in> undelivered (p_stores (demo_replaying w))"
    using w(4) by (simp add: demo_replaying_def undelivered_def pairs_def demo_event_def)
  with P' replay_forgets_other_providers [OF demo_replaying_served [OF inv] P', of "''q''"] show ?thesis by auto
qed

text \<open>
  C25. A dead-letter that cannot be written is acknowledged all the same: when the write to the DLQ fails and the
  log works, the event is taken off the books although it was neither delivered nor parked.
\<close>

theorem failed_parking_loses_event:
  "\<exists>s s'. (ID demo_event, ''p'') \<in> undelivered s
     \<and> env_backend (batcher_deadLetter demo_bat pipeline_backend \<lparr>q_event = demo_event, q_attempt = 0, q_firstQueue = 0\<rparr>
         ''no'' True \<lparr>env_backend = s, env_obs = []\<rparr>) = s'
     \<and> (ID demo_event, ''p'') \<notin> undelivered s' \<and> (\<forall>path. recs (bk_dlq s') path = [])"
proof -
  obtain w where w: "wal_Append demo_event [''p''] start_wal = (None, w)" "wal_durable w" "settings w = settings start_wal"
    "outstanding (w_index w) ''e1'' = Some (demo_event, [''p''])"
    using start_append [OF demo_fits] by auto
  have inv: "wal_inv w" using w(2) by (simp add: wal_durable_def)
  let ?d = "empty_dlq\<lparr>dlq_faults := [Fault 0]\<rparr>" and ?q = "\<lparr>q_event = demo_event, q_attempt = 0, q_firstQueue = 0\<rparr>"
  let ?s = "\<lparr>bk_wal = w, bk_dlq = ?d, bk_now = zero_time\<rparr>"
  obtain err d' where put: "dlq_Put zero_time ''p'' demo_event ''no'' True ?d = (err, d')" by fastforce
  then have files: "dlq_files d' = []"
    by (simp add: dlq_Put_def bump_attempts_def Let_def empty_dlq_def get0_def get_map_def poison_threshold_def
        permanentPoisonThreshold_def appendRecord_def dlq_openAppend_def dlq_call_def dlq_fault_def) auto
  obtain err2 w2 where ack: "wal_Ack ''e1'' ''p'' DeadLetter w = (err2, w2)" by fastforce
  have "\<not> w_closed w" using w(3) by (simp add: settings_def start_wal_def demo_wal_def)
  with ack_durable(4) [OF w(2) demo_dead_ack ack] w(4)
  have out: "outstanding (w_index w2) ''e1'' = None" by (simp add: spec_op_def)
  have "env_backend (batcher_deadLetter demo_bat pipeline_backend ?q ''no'' True \<lparr>env_backend = ?s, env_obs = []\<rparr>)
      = \<lparr>bk_wal = w2, bk_dlq = d', bk_now = zero_time\<rparr>"
    using put ack by (simp add: pipeline_backend_def demo_bat_def) (simp add: demo_event_def)
  moreover have "(ID demo_event, ''p'') \<in> undelivered ?s"
    using w(4) by (simp add: undelivered_def pairs_def demo_event_def)
  moreover have "(ID demo_event, ''p'') \<notin> undelivered \<lparr>bk_wal = w2, bk_dlq = d', bk_now = zero_time\<rparr>"
    using out by (simp add: undelivered_def pairs_def demo_event_def)
  moreover have "\<forall>path. recs d' path = []" using files by (simp add: recs_def text_of_def)
  ultimately show ?thesis by (intro exI conjI) (assumption | simp)+
qed

text \<open>
  C13. A DLQ replay can lose the event it replays. A daemon is started on a dead-letter file of one event and
  asked to replay it; the provider answers the redelivery with status 400 before the replay handler removes what
  it replayed; the removal then takes the new record too. In the end the event is owed to nobody, is in
  neither file of the queue, and was never acknowledged as delivered.
\<close>

theorem replay_race_loses_event:
  "\<exists>P0 P. Build demo_config (\<lambda>_. ''token'') empty_disk (dlq_files demo_dlq) [] zero_time = Returns (Inr P0)
     \<and> recs (bk_dlq (p_stores P0)) (regularPath ''p'') = [demo_record]
     \<and> pruns P0 race_labels P
     \<and> (ID demo_event, ''p'') \<notin> undelivered (p_stores P)
     \<and> ID demo_event \<notin> (ID \<circ> rec_Event) ` (set (recs (bk_dlq (p_stores P)) (regularPath ''p''))
          \<union> set (recs (bk_dlq (p_stores P)) (poisonPath ''p'')))
     \<and> RecordAck ''p'' Ok \<notin> set (p_obs P)"
proof -
  have ok: "dlq_ok demo_dlq" using demo_dlq_well(1) by (simp add: dlq_well_def)
  obtain d where d: "dlq_Open (dlq_files demo_dlq) [] = Inr d" "dlq_well d"
    "\<forall>path. jsonl path \<longrightarrow> recs d path = recs demo_dlq path"
    "\<forall>p i. plain p \<longrightarrow> attempts_of d p i =
       max (max_attempts i (recs demo_dlq (regularPath p))) (max_attempts i (recs demo_dlq (poisonPath p)))"
    by (rule reopen [OF ok demo_dlq_well(2)]) (rule that)
  have r: "recs d (regularPath ''p'') = [demo_record]"
    using d(3) demo_dlq_well(3) by simp
  have "attempts_of d ''p'' ''e1'' = 1" using d(4) by (simp add: demo_dlq_well(3,4) demo_attempts)
  from demo_race [OF d(2) r this] demo_build [OF d(1)] r show ?thesis
    by (auto simp: demo_pipeline_def demo_stores_def)
qed



section \<open>The command line\<close>

text \<open>
  C35. \<^verbatim>\<open>tallyd dlq replay -provider p [-include-poison]\<close> does what its flags say, for every provider name
  whatever bytes it holds: through flag parsing, query encoding, the daemon's mux and query decoding, the
  daemon's state changes exactly as by the replay handler for that provider, the command prints the JSON of
  the handler's result and exits with 0 if the handler succeeded, and prints the error page and exits with 1
  otherwise.
\<close>

theorem replay_command_end_to_end:
  assumes "p \<noteq> []"
  shows "tallyd_client status_line ([''dlq'', ''replay'', ''-provider'', p] @ (if poison then [''-include-poison''] else []))
      (pipeline_Handler page metrics) P
    = (case pipeline_replay \<lparr>rq_Method = ''POST'', rq_provider = p,
            rq_include_poison = (if poison then ''true'' else [])\<rparr> P of (resp, P') \<Rightarrow>
       Some (case resp of
           Success res \<Rightarrow> \<lparr>oc_Stdout = json_text (replay_json res) @ [newline, newline], oc_Stderr = [], oc_Exit = 0\<rparr>
         | Failure code \<Rightarrow> \<lparr>oc_Stdout = page code @ [newline, newline],
             oc_Stderr = ''tallyd: dlq replay: server returned '' @ status_line code @ [newline], oc_Exit = 1\<rparr>, P'))"
  using client_replay [OF assms, of status_line poison page metrics P]
  by (simp add: dlq_args_def client_outcome_def fails_with_def split: prod.split response.split)

theorem replay_command_end_to_end_witness:
  "\<exists>P. tallyd_client (\<lambda>_. ''400 Bad Request'') [''dlq'', ''replay'', ''-provider'', ''a&b=c'']
      (pipeline_Handler (\<lambda>_. ''unknown provider'') []) (demo_pipeline empty_dlq)
    = Some (\<lparr>oc_Stdout = ''unknown provider'' @ [newline, newline],
        oc_Stderr = ''tallyd: dlq replay: server returned 400 Bad Request'' @ [newline], oc_Exit = 1\<rparr>, P)"
  using replay_command_end_to_end [of "''a&b=c''" "\<lambda>_. ''400 Bad Request''" False "\<lambda>_. ''unknown provider''" "[]"
      "demo_pipeline empty_dlq"]
  by (simp add: pipeline_replay_def dlqreplay_ServeHTTP_def admin_check_def demo_pipeline_def demo_defaults)

section \<open>The daemon\<close>




end
